(* ===== verification/Prelude.thy ===== *)
theory Prelude
  imports Main "HOL-Library.Word"
begin

text \<open>
  Shared vocabulary of the development: the machine integers of the Rust code as words of
  their width, byte strings, the checked and saturating arithmetic of the Rust standard
  library, big- and little-endian encodings with their round trips, and the byte-slice
  lemmas the wire formats are proved with.  Everything here models the Rust language and
  its standard library; nothing here is code of the repository.
\<close>

unbundle bit_operations_syntax

section \<open>Types\<close>

type_synonym u8 = "8 word"
type_synonym u16 = "16 word"
type_synonym u32 = "32 word"
type_synonym u64 = "64 word"
type_synonym u128 = "128 word"
type_synonym bytes = "u8 list"

text \<open>A fallible operation: \<open>Inl\<close> is Rust's \<open>Err\<close>, \<open>Inr\<close> is \<open>Ok\<close>.\<close>

type_synonym ('a, 'e) result = "'e + 'a"

named_theorems wire_simps \<open>lengths, slices and round trips of fixed-width fields\<close>
named_theorems checked_simps \<open>the checked arithmetic read on natural numbers\<close>

section \<open>Results\<close>

text \<open>\<open>Option::ok_or\<close> and the \<open>?\<close> operator on \<open>Result\<close>.\<close>

fun ok_or :: "'e \<Rightarrow> 'a option \<Rightarrow> ('a, 'e) result" where
  "ok_or e None = Inl e"
| "ok_or e (Some x) = Inr x"

fun bind_result :: "('a, 'e) result \<Rightarrow> ('a \<Rightarrow> ('b, 'e) result) \<Rightarrow> ('b, 'e) result" where
  "bind_result (Inl e) f = Inl e"
| "bind_result (Inr x) f = f x"

fun map_err :: "('e \<Rightarrow> 'f) \<Rightarrow> ('a, 'e) result \<Rightarrow> ('a, 'f) result" where
  "map_err g (Inl e) = Inl (g e)"
| "map_err g (Inr x) = Inr x"

fun is_ok :: "('a, 'e) result \<Rightarrow> bool" where
  "is_ok (Inl e) = False"
| "is_ok (Inr x) = True"

lemma ok_or_Inr [simp]: "ok_or e x = Inr y \<longleftrightarrow> x = Some y"
  by (cases x) auto

lemma ok_or_Inl [simp]: "ok_or e x = Inl e' \<longleftrightarrow> x = None \<and> e' = e"
  by (cases x) auto

lemma bind_result_Inr [simp]:
  "bind_result r f = Inr y \<longleftrightarrow> (\<exists>x. r = Inr x \<and> f x = Inr y)"
  by (cases r) auto

lemma bind_result_Inl:
  "bind_result r g = Inl e \<longleftrightarrow> r = Inl e \<or> (\<exists>x. r = Inr x \<and> g x = Inl e)"
  by (cases r) auto

lemma map_err_Inr [simp]: "map_err g r = Inr y \<longleftrightarrow> r = Inr y"
  by (cases r) auto

lemma map_err_Inl [simp]: "map_err g r = Inl y \<longleftrightarrow> (\<exists>e. r = Inl e \<and> y = g e)"
  by (cases r) auto

lemma is_ok_iff: "is_ok r \<longleftrightarrow> (\<exists>x. r = Inr x)"
  by (cases r) auto

section \<open>Checked and saturating arithmetic\<close>

definition checked_add :: "'a::len word \<Rightarrow> 'a word \<Rightarrow> 'a word option" where
  "checked_add x y = (if unat x + unat y < 2 ^ LENGTH('a) then Some (x + y) else None)"

definition checked_sub :: "'a::len word \<Rightarrow> 'a word \<Rightarrow> 'a word option" where
  "checked_sub x y = (if y \<le> x then Some (x - y) else None)"

definition checked_mul :: "'a::len word \<Rightarrow> 'a word \<Rightarrow> 'a word option" where
  "checked_mul x y = (if unat x * unat y < 2 ^ LENGTH('a) then Some (x * y) else None)"

definition checked_div :: "'a::len word \<Rightarrow> 'a word \<Rightarrow> 'a word option" where
  "checked_div x y = (if y = 0 then None else Some (x div y))"

definition saturating_sub :: "'a::len word \<Rightarrow> 'a word \<Rightarrow> 'a word" where
  "saturating_sub x y = (if y \<le> x then x - y else 0)"

definition saturating_add :: "'a::len word \<Rightarrow> 'a word \<Rightarrow> 'a word" where
  "saturating_add x y = (if unat x + unat y < 2 ^ LENGTH('a) then x + y else - 1)"

text \<open>\<open>u32::try_from\<close> on a \<open>u64\<close> and \<open>u16::try_from\<close> on a \<open>u32\<close>.\<close>

definition try_from :: "'a::len word \<Rightarrow> 'b::len word option" where
  "try_from x = (if unat x < 2 ^ LENGTH('b) then Some (ucast x) else None)"

lemma unat_eq_bound: "unat (z :: 'a::len word) = n \<Longrightarrow> n < 2 ^ LENGTH('a)"
  by auto

lemma unat_lt: "unat (z :: 'a::len word) < 2 ^ LENGTH('a)"
  by (rule unsigned_less)

lemma checked_add_Some [checked_simps]:
  "checked_add x y = Some z \<longleftrightarrow> unat z = unat x + unat (y :: 'a::len word)"
  by (auto simp: checked_add_def unat_word_ariths word_unat_eq_iff dest: unat_eq_bound)

lemma checked_add_None [checked_simps]:
  "checked_add x y = None \<longleftrightarrow> 2 ^ LENGTH('a) \<le> unat x + unat (y :: 'a::len word)"
  by (auto simp: checked_add_def)

lemma checked_mul_Some [checked_simps]:
  "checked_mul x y = Some z \<longleftrightarrow> unat z = unat x * unat (y :: 'a::len word)"
  by (auto simp: checked_mul_def unat_word_ariths word_unat_eq_iff dest: unat_eq_bound)

lemma checked_mul_None [checked_simps]:
  "checked_mul x y = None \<longleftrightarrow> 2 ^ LENGTH('a) \<le> unat x * unat (y :: 'a::len word)"
  by (auto simp: checked_mul_def)

lemma checked_sub_Some [checked_simps]:
  "checked_sub x y = Some z \<longleftrightarrow> unat y \<le> unat x \<and> unat z = unat x - unat (y :: 'a::len word)"
  by (auto simp: checked_sub_def word_le_nat_alt unat_sub word_unat_eq_iff)

lemma checked_sub_None [checked_simps]:
  "checked_sub x y = None \<longleftrightarrow> unat x < unat (y :: 'a::len word)"
  by (auto simp: checked_sub_def word_le_nat_alt)

lemma checked_div_Some [checked_simps]:
  "checked_div x y = Some z \<longleftrightarrow> unat y \<noteq> 0 \<and> unat z = unat x div unat (y :: 'a::len word)"
  by (auto simp: checked_div_def unat_div word_unat_eq_iff)

lemma checked_div_None [checked_simps]:
  "checked_div x y = None \<longleftrightarrow> y = (0 :: 'a::len word)"
  by (auto simp: checked_div_def)

lemma try_from_Some [checked_simps]:
  "(try_from (x :: 'a::len word) :: 'b::len word option) = Some z \<longleftrightarrow> unat z = unat x"
  by (auto simp: try_from_def unsigned_ucast_eq word_unat_eq_iff take_bit_nat_eq_self dest: unat_eq_bound)

lemma unat_ucast_up [simp]:
  assumes "LENGTH('a) \<le> LENGTH('b)"
  shows "unat (ucast (x :: 'a::len word) :: 'b::len word) = unat x"
proof -
  have "(2::nat) ^ LENGTH('a) \<le> 2 ^ LENGTH('b)" using assms by (intro power_increasing) auto
  then have "unat x < 2 ^ LENGTH('b)" using unsigned_less [of x] by (rule less_le_trans [rotated])
  then show ?thesis by (simp add: unsigned_ucast_eq take_bit_nat_eq_self)
qed

lemma unat_of_nat_len: "n < 2 ^ LENGTH('a) \<Longrightarrow> unat (of_nat n :: 'a::len word) = n"
  by (simp add: unsigned_of_nat take_bit_nat_eq_self)

lemma ucast_of_nat_down:
  "LENGTH('b) \<le> LENGTH('a) \<Longrightarrow> ucast (of_nat n :: 'a::len word) = (of_nat n :: 'b::len word)"
  by (simp add: word_unat_eq_iff unsigned_ucast_eq unsigned_of_nat min_def)

lemma word_eq_of_nat: "unat w = n \<Longrightarrow> w = of_nat n"
  by (metis id_apply of_nat_unat ucast_id)

lemma unat_saturating_sub [simp]: "unat (saturating_sub x y) = unat x - unat y"
  by (auto simp: saturating_sub_def word_le_nat_alt unat_sub)

section \<open>Byte slices\<close>

text \<open>\<open>slice xs o n\<close> is Rust's \<open>&xs[o..o + n]\<close>.\<close>

definition slice :: "'a list \<Rightarrow> nat \<Rightarrow> nat \<Rightarrow> 'a list" where
  "slice xs i n = take n (drop i xs)"

lemma length_slice [wire_simps]: "length (slice xs i n) = min n (length xs - i)"
  by (simp add: slice_def)

lemma slice_Nil [simp]: "slice [] i n = []"
  by (simp add: slice_def)

lemma slice_skip [wire_simps]: "length xs \<le> i \<Longrightarrow> slice (xs @ ys) i n = slice ys (i - length xs) n"
  by (simp add: slice_def)

lemma slice_Cons_skip [wire_simps]: "0 < i \<Longrightarrow> slice (x # xs) i n = slice xs (i - 1) n"
  by (cases i) (simp_all add: slice_def)

lemma slice_prefix [wire_simps]: "length xs = n \<Longrightarrow> slice (xs @ ys) 0 n = xs"
  by (simp add: slice_def)

lemma slice_all [wire_simps]: "length xs = n \<Longrightarrow> slice xs 0 n = xs"
  by (simp add: slice_def)

lemma slice_append_drop: "slice xs i n @ drop (i + n) xs = drop i xs"
  by (metis add.commute append_take_drop_id drop_drop slice_def)

lemma slice_of_take [wire_simps]: "i + n \<le> m \<Longrightarrow> slice (take m xs) i n = slice xs i n"
  by (simp add: slice_def drop_take)

section \<open>Fixed-width integers on the wire\<close>

text \<open>\<open>to_be_bytes\<close>, \<open>from_be_bytes\<close> and \<open>to_le_bytes\<close>.\<close>

primrec be_bytes :: "nat \<Rightarrow> 'a::len word \<Rightarrow> bytes" where
  "be_bytes 0 w = []"
| "be_bytes (Suc n) w = ucast (drop_bit (8 * n) w) # be_bytes n w"

definition be_word :: "bytes \<Rightarrow> 'a::len word" where
  "be_word bs = foldl (\<lambda>acc b. push_bit 8 acc OR ucast b) 0 bs"

definition le_bytes :: "nat \<Rightarrow> 'a::len word \<Rightarrow> bytes" where
  "le_bytes n w = rev (be_bytes n w)"

lemma be_bytes_numeral:
  "be_bytes (numeral v) w = ucast (drop_bit (8 * pred_numeral v) w) # be_bytes (pred_numeral v) w"
  by (simp add: numeral_eq_Suc)

lemma length_be_bytes [simp, wire_simps]: "length (be_bytes n w) = n"
  by (induction n) simp_all

lemma length_le_bytes [simp, wire_simps]: "length (le_bytes n w) = n"
  by (simp add: le_bytes_def)

lemma be_bytes_nth: "i < n \<Longrightarrow> be_bytes n w ! i = ucast (drop_bit (8 * (n - 1 - i)) w)"
  by (induction n arbitrary: i) (auto simp: nth_Cons' Suc_diff_Suc)

lemma be_word_snoc: "be_word (bs @ [b]) = push_bit 8 (be_word bs) OR ucast b"
  by (simp add: be_word_def)

lemma bit_be_word:
  "bit (be_word bs :: 'a::len word) i \<longleftrightarrow>
     i < LENGTH('a) \<and> i div 8 < length bs \<and> bit (rev bs ! (i div 8)) (i mod 8)"
proof (induction bs arbitrary: i rule: rev_induct)
  case Nil
  then show ?case by (simp add: be_word_def)
next
  case (snoc b bs)
  show ?case
  proof (cases "i < 8")
    case True
    then show ?thesis
      by (auto simp: be_word_snoc bit_simps)
  next
    case False
    then obtain j where j: "i = 8 + j" by (metis le_Suc_ex not_le)
    have "\<not> bit b i" using False bit_imp_le_length [of b i] by auto
    moreover have "(8 + j) div 8 = Suc (j div 8)" "(8 + j) mod 8 = j mod 8" by simp_all
    ultimately show ?thesis using snoc.IH [of j] by (auto simp: be_word_snoc bit_simps j)
  qed
qed

lemma be_word_be_bytes:
  assumes "8 * n = LENGTH('a)"
  shows "be_word (be_bytes n w) = (w :: 'a::len word)"
proof (rule bit_word_eqI)
  fix i assume i: "i < LENGTH('a)"
  with assms have k: "i div 8 < n" by auto
  then have "rev (be_bytes n w) ! (i div 8) = ucast (drop_bit (8 * (i div 8)) w)"
    by (simp add: rev_nth be_bytes_nth)
  with i k show "bit (be_word (be_bytes n w) :: 'a word) i \<longleftrightarrow> bit w i"
    by (simp add: bit_be_word bit_simps)
qed

lemma be_bytes_be_word:
  assumes "8 * n = LENGTH('a)" "length bs = n"
  shows "be_bytes n (be_word bs :: 'a::len word) = bs"
proof (rule nth_equalityI)
  show "length (be_bytes n (be_word bs :: 'a word)) = length bs" using assms by simp
  fix i assume "i < length (be_bytes n (be_word bs :: 'a word))"
  then have i: "i < n" by simp
  show "be_bytes n (be_word bs :: 'a word) ! i = bs ! i"
  proof (rule bit_word_eqI)
    fix j assume j: "j < LENGTH(8)"
    let ?k = "8 * (n - 1 - i) + j"
    have "?k < 8 * n" "?k div 8 = n - 1 - i" "?k mod 8 = j" using i j by auto
    moreover have "rev bs ! (n - 1 - i) = bs ! i" using i assms(2) by (simp add: rev_nth)
    ultimately show "bit (be_bytes n (be_word bs :: 'a word) ! i) j = bit (bs ! i) j"
      using i j assms by (simp add: be_bytes_nth bit_simps bit_be_word)
  qed
qed

section \<open>Interfaces of wire formats\<close>

text \<open>
  A format whose parser accepts exactly what its writer writes: every value has one
  encoding, and every accepted byte string is the encoding of its value.
\<close>

locale exact_format =
  fixes enc :: "'a \<Rightarrow> bytes" and dec :: "bytes \<Rightarrow> ('a, 'e) result" and valid :: "'a \<Rightarrow> bool"
  assumes dec_exact: "dec bs = Inr x \<longleftrightarrow> valid x \<and> bs = enc x"
begin

lemma dec_enc: "valid x \<Longrightarrow> dec (enc x) = Inr x"
  by (simp add: dec_exact)

lemma enc_inj: "valid x \<Longrightarrow> valid y \<Longrightarrow> enc x = enc y \<longleftrightarrow> x = y"
  by (metis dec_exact sum.inject(2))

lemma dec_inj: "dec bs = Inr x \<Longrightarrow> dec bs' = Inr x \<Longrightarrow> bs = bs'"
  by (simp add: dec_exact)

lemma dec_Inl_iff: "(\<exists>e. dec bs = Inl e) \<longleftrightarrow> (\<forall>x. valid x \<longrightarrow> bs \<noteq> enc x)"
  by (metis dec_exact Inl_Inr_False obj_sumE)

end

text \<open>
  The interface every integer field of the wire formats is written and read through: a
  writer of a fixed number of bytes and a reader that inverts it, in both directions.
\<close>

locale fixed_field =
  fixes put :: "'v \<Rightarrow> bytes" and get :: "bytes \<Rightarrow> 'v" and width :: nat
  assumes length_put: "length (put v) = width"
    and get_put: "get (put v) = v"
    and put_get: "length bs = width \<Longrightarrow> put (get bs) = bs"
begin

lemma read_back: "get (slice (put v @ rest) 0 width) = v"
  by (simp add: slice_prefix length_put get_put)

lemma read_at: "length pre = i \<Longrightarrow> get (slice (pre @ put v @ rest) i width) = v"
  by (simp add: slice_skip read_back)

lemma write_back: "i + width \<le> length bs \<Longrightarrow> put (get (slice bs i width)) = slice bs i width"
  by (simp add: put_get length_slice)

end

text \<open>A field is an exact format of the byte strings of its width.\<close>

sublocale fixed_field \<subseteq> field: exact_format put "\<lambda>bs. if length bs = width then Inr (get bs) else Inl ()" "\<lambda>_. True"
  by unfold_locales (auto simp: length_put get_put put_get)

context fixed_field
begin

lemma put_inj: "put v = put v' \<longleftrightarrow> v = v'"
  by (rule field.enc_inj) simp_all

end

interpretation field16: fixed_field "be_bytes 2 :: u16 \<Rightarrow> bytes" be_word 2
  by unfold_locales (simp_all add: be_word_be_bytes be_bytes_be_word)

interpretation field32: fixed_field "be_bytes 4 :: u32 \<Rightarrow> bytes" be_word 4
  by unfold_locales (simp_all add: be_word_be_bytes be_bytes_be_word)

interpretation field64: fixed_field "be_bytes 8 :: u64 \<Rightarrow> bytes" be_word 8
  by unfold_locales (simp_all add: be_word_be_bytes be_bytes_be_word)

interpretation field128: fixed_field "be_bytes 16 :: u128 \<Rightarrow> bytes" be_word 16
  by unfold_locales (simp_all add: be_word_be_bytes be_bytes_be_word)

lemmas field_get_put [wire_simps] =
  field16.get_put field32.get_put field64.get_put field128.get_put

lemmas field_write_back =
  field16.write_back field32.write_back field64.write_back field128.write_back

end
