(* ===== verification/Raptorq_Lib.thy ===== *)
theory Raptorq_Lib
  imports Prelude
begin

text \<open>
  The upstream \<open>raptorq\<close> crate is not part of the repository.  The record below is the
  interface the code calls, a parameter of every definition that uses it: the object
  transmission information (read through its accessors, written and read as 12 bytes), the
  encoder with its source and repair packets, and the per-block decoder.  The type
  parameters stand for the crate's \<open>SourceBlockEncoder\<close> and \<open>SourceBlockDecoder\<close>.

  \<open>rq_block_bytes\<close> is the one field no definition of the code uses.  It names the bytes a
  block encoder was made from (the stretch of the object that is the block, filled up with
  zeros to whole symbols), which the contracts need to say what a block decoder returns.  It is
  not the concatenation of the block's source packets: when an object has more than one
  sub-block (RFC 6330, 4.4.1.2; \<open>oti_sub_blocks\<close>) each packet interleaves one sub-symbol of
  every sub-block, and the decoder puts them back.
\<close>

record oti =
  oti_transfer_length :: u64
  oti_symbol_size :: u16
  oti_source_blocks :: u8
  oti_sub_blocks :: u16
  oti_symbol_alignment :: u8

record ('e, 'd) raptorq =
  rq_oti_deserialize :: "bytes \<Rightarrow> oti"
  rq_oti_serialize :: "oti \<Rightarrow> bytes"
  rq_encode :: "bytes \<Rightarrow> u16 \<Rightarrow> oti \<times> 'e list"
    \<comment> \<open>\<open>Encoder::with_defaults\<close>, then \<open>get_config\<close> and \<open>get_block_encoders\<close>\<close>
  rq_source_packets :: "'e \<Rightarrow> bytes list"
    \<comment> \<open>the payloads of \<open>source_packets()\<close>\<close>
  rq_block_bytes :: "'e \<Rightarrow> bytes"
    \<comment> \<open>the zero-padded bytes of the source block, for the contracts only\<close>
  rq_repair_packets :: "'e \<Rightarrow> u32 \<Rightarrow> u32 \<Rightarrow> bytes list"
    \<comment> \<open>the payloads of \<open>repair_packets(start, count)\<close>\<close>
  rq_decoder_new :: "u8 \<Rightarrow> oti \<Rightarrow> u64 \<Rightarrow> 'd"
  rq_decode :: "'d \<Rightarrow> u8 \<Rightarrow> u32 \<Rightarrow> bytes \<Rightarrow> 'd \<times> bytes option"
    \<comment> \<open>\<open>decode(once(EncodingPacket::new(PayloadId::new(sbn, esi), data)))\<close>\<close>

end
