(* ===== verification/Object_Meta.thy ===== *)
theory Object_Meta
  imports Raptorq_Lib
begin

text \<open>
  The codec configuration and the object metadata of \<open>core/raptorq-core\<close>
  (\<open>config.rs\<close>, \<open>symbol.rs\<close>, \<open>meta.rs\<close>): \<open>Config::new\<close> and \<open>mtu\<close>, the block table, and
  \<open>ObjectMeta::validate\<close>, the gate every descriptor read off a screen passes before a
  decoder is built.  The gate is shown equivalent to a specification on natural numbers.
\<close>

section \<open>Errors and configuration\<close>

datatype rq_error =
  EmptyData
| InvalidSymbolSize
| InvalidObjectMeta string
| BlockOutOfRange u32 u32
| NotDecodable u32
| UnknownSymbol u32 u32

definition DEFAULT_SYMBOL_SIZE :: u32 where "DEFAULT_SYMBOL_SIZE = 1024"
definition MIN_SYMBOL_SIZE :: u32 where "MIN_SYMBOL_SIZE = 64"
definition MAX_SYMBOL_SIZE :: u32 where "MAX_SYMBOL_SIZE = 65528"
definition PAYLOAD_ID_SIZE :: u16 where "PAYLOAD_ID_SIZE = 4"

record config =
  cfg_symbol_size :: u32

definition config_default :: config where
  "config_default = \<lparr>cfg_symbol_size = DEFAULT_SYMBOL_SIZE\<rparr>"

definition config_new :: "u32 \<Rightarrow> (config, rq_error) result" where
  "config_new symbol_size =
     (if \<not> (MIN_SYMBOL_SIZE \<le> symbol_size \<and> symbol_size \<le> MAX_SYMBOL_SIZE) \<or> symbol_size mod 8 \<noteq> 0
      then Inl InvalidSymbolSize
      else Inr \<lparr>cfg_symbol_size = symbol_size\<rparr>)"

definition config_mtu :: "config \<Rightarrow> (u16, rq_error) result" where
  "config_mtu c =
     ok_or InvalidSymbolSize
       (Option.bind (checked_add (cfg_symbol_size c) (ucast PAYLOAD_ID_SIZE)) try_from)"

lemma config_new_Inr:
  "config_new s = Inr c \<longleftrightarrow>
     64 \<le> unat s \<and> unat s \<le> 65528 \<and> 8 dvd unat s \<and> c = \<lparr>cfg_symbol_size = s\<rparr>"
  by (auto simp: config_new_def MIN_SYMBOL_SIZE_def MAX_SYMBOL_SIZE_def word_le_nat_alt
      word_unat_eq_iff unat_mod mod_eq_0_iff_dvd)

lemma config_new_Inl: "config_new s = Inl e \<Longrightarrow> e = InvalidSymbolSize"
  by (auto simp: config_new_def split: if_splits)

lemma config_mtu_ok:
  assumes "config_new s = Inr c"
  shows "\<exists>m. config_mtu c = Inr m \<and> unat m = unat s + 4"
proof -
  from assms have s: "unat s \<le> 65528" "cfg_symbol_size c = s" by (auto simp: config_new_Inr)
  let ?v = "s + 4"
  have v: "unat ?v = unat s + 4" using s by (simp add: unat_word_ariths)
  have "checked_add s (ucast PAYLOAD_ID_SIZE) = Some ?v"
    by (simp add: checked_add_Some v PAYLOAD_ID_SIZE_def)
  moreover have "(try_from ?v :: u16 option) = Some (ucast ?v)"
    using s v by (simp add: try_from_def)
  moreover have "unat (ucast ?v :: u16) = unat s + 4"
    using s v by (simp add: unsigned_ucast_eq take_bit_nat_eq_self)
  ultimately show ?thesis using s by (simp add: config_mtu_def)
qed

section \<open>Symbols\<close>

record symbol_id =
  sid_sbn :: u32
  sid_esi :: u32

record symbol =
  sym_id :: symbol_id
  sym_data :: bytes

definition symbol_new :: "u32 \<Rightarrow> u32 \<Rightarrow> bytes \<Rightarrow> symbol" where
  "symbol_new sbn esi data = \<lparr>sym_id = \<lparr>sid_sbn = sbn, sid_esi = esi\<rparr>, sym_data = data\<rparr>"

lemma symbol_new_sel [simp]:
  "sid_sbn (sym_id (symbol_new sbn esi data)) = sbn"
  "sid_esi (sym_id (symbol_new sbn esi data)) = esi"
  "sym_data (symbol_new sbn esi data) = data"
  by (simp_all add: symbol_new_def)

section \<open>Object metadata\<close>

definition MAX_SOURCE_SYMBOLS_PER_BLOCK :: u32 where "MAX_SOURCE_SYMBOLS_PER_BLOCK = 56403"
definition MAX_SOURCE_BLOCKS :: nat where "MAX_SOURCE_BLOCKS = 256"
definition MAX_OBJECT_BYTES :: u64 where "MAX_OBJECT_BYTES = 32 * 1024 * 1024"
definition MAX_ORIGINAL_BYTES :: u64 where "MAX_ORIGINAL_BYTES = 256 * 1024 * 1024"
definition MAX_TOTAL_SOURCE_SYMBOLS :: u64 where "MAX_TOTAL_SOURCE_SYMBOLS = 524288"

record source_block_meta =
  b_sbn :: u32
  b_num_source_symbols :: u32
  b_block_length :: u64

record object_meta =
  m_transfer_length :: u64
  m_symbol_size :: u32
  m_oti_bytes :: bytes
  m_blocks :: "source_block_meta list"

definition meta_oti :: "('e, 'd) raptorq \<Rightarrow> object_meta \<Rightarrow> oti" where
  "meta_oti rq m = rq_oti_deserialize rq (m_oti_bytes m)"

text \<open>
  The loop over the block table: \<open>index\<close> is the enumeration counter, \<open>tlen\<close> and \<open>tk\<close> the
  running byte and symbol totals.
\<close>

fun validate_blocks ::
  "u32 \<Rightarrow> nat \<Rightarrow> source_block_meta list \<Rightarrow> u64 \<Rightarrow> u64 \<Rightarrow> (u64 \<times> u64, string) result" where
  "validate_blocks ss index [] tlen tk = Inr (tlen, tk)"
| "validate_blocks ss index (b # bs) tlen tk =
     (if b_sbn b \<noteq> of_nat index then Inl ''block sbn must equal its canonical index''
      else if b_num_source_symbols b = 0 \<or> MAX_SOURCE_SYMBOLS_PER_BLOCK < b_num_source_symbols b
      then Inl ''block K out of range''
      else case checked_mul (ucast (b_num_source_symbols b)) (ucast ss :: u64) of
        None \<Rightarrow> Inl ''block_length overflow''
      | Some expect \<Rightarrow>
          if b_block_length b \<noteq> expect then Inl ''block_length inconsistent with K*symbol_size''
          else case checked_add tlen (b_block_length b) of
            None \<Rightarrow> Inl ''total block length overflow''
          | Some tlen' \<Rightarrow>
              (case checked_add tk (ucast (b_num_source_symbols b)) of
                 None \<Rightarrow> Inl ''total source symbol count overflow''
               | Some tk' \<Rightarrow> validate_blocks ss (Suc index) bs tlen' tk'))"

definition validate_budget :: "object_meta \<Rightarrow> u64 \<Rightarrow> u64 \<Rightarrow> (unit, string) result" where
  "validate_budget m total_block_len total_k =
     (if MAX_TOTAL_SOURCE_SYMBOLS < total_k
      then Inl ''total source symbol count exceeds local receiver budget''
      else case checked_mul (ucast (m_symbol_size m)) (of_nat (length (m_blocks m)) :: u64) of
        None \<Rightarrow> Inl ''padding budget overflow''
      | Some padding_budget \<Rightarrow>
          (case checked_add MAX_OBJECT_BYTES padding_budget of
             None \<Rightarrow> Inl ''decoder byte budget overflow''
           | Some budget \<Rightarrow>
               if budget < total_block_len then Inl ''decoder bytes exceed local receiver budget''
               else if total_block_len < m_transfer_length m
               then Inl ''transfer_length exceeds total block bytes''
               else Inr ()))"

definition validate_oti :: "('e, 'd) raptorq \<Rightarrow> object_meta \<Rightarrow> (unit, string) result" where
  "validate_oti rq m =
     (let oti = meta_oti rq m in
      if oti_symbol_size oti = 0 \<or> (ucast (oti_symbol_size oti) :: u32) \<noteq> m_symbol_size m
      then Inl ''OTI symbol_size invalid or mismatched''
      else if oti_transfer_length oti \<noteq> m_transfer_length m
      then Inl ''OTI transfer_length mismatched''
      else if oti_sub_blocks oti = 0 \<or> oti_symbol_alignment oti = 0
      then Inl ''OTI sub-block/alignment must be non-zero''
      else if oti_symbol_size oti mod ucast (oti_symbol_alignment oti) \<noteq> 0
      then Inl ''OTI symbol_size is not alignment-divisible''
      else if oti_symbol_size oti div ucast (oti_symbol_alignment oti) < oti_sub_blocks oti
      then Inl ''OTI sub-block count exceeds aligned symbol units''
      else if m_oti_bytes m ! 5 \<noteq> 0 then Inl ''OTI reserved byte must be zero''
      else Inr ())"

definition meta_validate :: "('e, 'd) raptorq \<Rightarrow> object_meta \<Rightarrow> (unit, string) result" where
  "meta_validate rq m =
     (if \<not> is_ok (config_new (m_symbol_size m)) then Inl ''symbol_size out of range''
      else bind_result (validate_oti rq m) (\<lambda>_.
      if m_transfer_length m = 0 \<or> MAX_OBJECT_BYTES < m_transfer_length m
      then Inl ''transfer_length exceeds local receiver budget''
      else if m_blocks m = [] \<or> MAX_SOURCE_BLOCKS < length (m_blocks m) \<or> 255 < length (m_blocks m)
      then Inl ''source block count out of range''
      else if unat (oti_source_blocks (meta_oti rq m)) \<noteq> length (m_blocks m)
      then Inl ''OTI source block count mismatched''
      else bind_result (validate_blocks (m_symbol_size m) 0 (m_blocks m) 0 0)
             (\<lambda>(total_block_len, total_k). validate_budget m total_block_len total_k)))"

section \<open>What the gate guarantees\<close>

text \<open>The specification: the same conditions on natural numbers, with no overflow to consider.\<close>

definition sum_symbols :: "source_block_meta list \<Rightarrow> nat" where
  "sum_symbols bs = sum_list (map (\<lambda>b. unat (b_num_source_symbols b)) bs)"

definition sum_bytes :: "source_block_meta list \<Rightarrow> nat" where
  "sum_bytes bs = sum_list (map (\<lambda>b. unat (b_block_length b)) bs)"

definition block_ok :: "u32 \<Rightarrow> nat \<Rightarrow> source_block_meta \<Rightarrow> bool" where
  "block_ok ss i b \<longleftrightarrow>
     b_sbn b = of_nat i \<and> 0 < unat (b_num_source_symbols b) \<and>
     unat (b_num_source_symbols b) \<le> 56403 \<and>
     unat (b_block_length b) = unat (b_num_source_symbols b) * unat ss"

primrec blocks_ok :: "u32 \<Rightarrow> nat \<Rightarrow> source_block_meta list \<Rightarrow> bool" where
  "blocks_ok ss i [] = True"
| "blocks_ok ss i (b # bs) = (block_ok ss i b \<and> blocks_ok ss (Suc i) bs)"

definition oti_ok :: "('e, 'd) raptorq \<Rightarrow> object_meta \<Rightarrow> bool" where
  "oti_ok rq m \<longleftrightarrow> (let oti = meta_oti rq m in
     0 < unat (oti_symbol_size oti) \<and> unat (oti_symbol_size oti) = unat (m_symbol_size m) \<and>
     oti_transfer_length oti = m_transfer_length m \<and>
     0 < unat (oti_sub_blocks oti) \<and> 0 < unat (oti_symbol_alignment oti) \<and>
     unat (oti_symbol_alignment oti) dvd unat (oti_symbol_size oti) \<and>
     unat (oti_sub_blocks oti) \<le> unat (oti_symbol_size oti) div unat (oti_symbol_alignment oti) \<and>
     m_oti_bytes m ! 5 = 0)"

definition meta_ok :: "('e, 'd) raptorq \<Rightarrow> object_meta \<Rightarrow> bool" where
  "meta_ok rq m \<longleftrightarrow>
     64 \<le> unat (m_symbol_size m) \<and> unat (m_symbol_size m) \<le> 65528 \<and> 8 dvd unat (m_symbol_size m) \<and>
     oti_ok rq m \<and>
     0 < unat (m_transfer_length m) \<and> unat (m_transfer_length m) \<le> 33554432 \<and>
     m_blocks m \<noteq> [] \<and> length (m_blocks m) \<le> 255 \<and>
     unat (oti_source_blocks (meta_oti rq m)) = length (m_blocks m) \<and>
     blocks_ok (m_symbol_size m) 0 (m_blocks m) \<and>
     sum_symbols (m_blocks m) \<le> 524288 \<and>
     sum_bytes (m_blocks m) \<le> 33554432 + unat (m_symbol_size m) * length (m_blocks m) \<and>
     unat (m_transfer_length m) \<le> sum_bytes (m_blocks m)"

lemma sum_symbols_simps [simp]:
  "sum_symbols [] = 0"
  "sum_symbols (b # bs) = unat (b_num_source_symbols b) + sum_symbols bs"
  by (simp_all add: sum_symbols_def)

lemma sum_bytes_simps [simp]:
  "sum_bytes [] = 0"
  "sum_bytes (b # bs) = unat (b_block_length b) + sum_bytes bs"
  by (simp_all add: sum_bytes_def)

lemma blocks_ok_bytes: "blocks_ok ss i bs \<Longrightarrow> sum_bytes bs = sum_symbols bs * unat ss"
  by (induction bs arbitrary: i) (auto simp: block_ok_def algebra_simps)

lemma blocks_ok_nth: "blocks_ok ss i bs \<Longrightarrow> j < length bs \<Longrightarrow> block_ok ss (i + j) (bs ! j)"
proof (induction bs arbitrary: i j)
  case (Cons b bs)
  then show ?case by (cases j) (auto dest: Cons.IH [of "Suc i"])
qed simp

lemma blocks_ok_symbols: "blocks_ok ss i bs \<Longrightarrow> sum_symbols bs \<le> 56403 * length bs"
  by (induction bs arbitrary: i) (fastforce simp: block_ok_def)+

text \<open>A successful loop: the table is canonical and the totals are the exact sums.\<close>

lemma validate_blocks_Inr:
  "validate_blocks ss i bs tlen tk = Inr (tlen', tk') \<longleftrightarrow>
     blocks_ok ss i bs \<and> unat tlen' = unat tlen + sum_bytes bs \<and>
     unat tk' = unat tk + sum_symbols bs"
proof (induction bs arbitrary: i tlen tk)
  case Nil
  then show ?case by (auto simp: word_unat_eq_iff)
next
  case (Cons b bs)
  let ?K = "unat (b_num_source_symbols b)"
  show ?case
  proof (cases "block_ok ss i b")
    case False
    then show ?thesis
      by (auto simp: block_ok_def checked_simps MAX_SOURCE_SYMBOLS_PER_BLOCK_def word_le_nat_alt
          word_less_nat_alt word_unat_eq_iff split: option.splits)
  next
    case True
    then have mul: "checked_mul (ucast (b_num_source_symbols b)) (ucast ss :: u64)
        = Some (b_block_length b)"
      by (simp add: checked_simps block_ok_def)
    have K: "b_num_source_symbols b \<noteq> 0" "b_sbn b = of_nat i"
      "\<not> MAX_SOURCE_SYMBOLS_PER_BLOCK < b_num_source_symbols b"
      using True by (auto simp: block_ok_def MAX_SOURCE_SYMBOLS_PER_BLOCK_def word_less_nat_alt)
    show ?thesis
    proof (cases "checked_add tlen (b_block_length b)")
      case None
      then have "unat tlen' < unat tlen + unat (b_block_length b)"
        using unat_lt [of tlen'] by (simp add: checked_simps)
      then show ?thesis by (simp add: mul K None)
    next
      case t: (Some t)
      show ?thesis
      proof (cases "checked_add tk (ucast (b_num_source_symbols b))")
        case None
        then have "unat tk' < unat tk + ?K"
          using unat_lt [of tk'] by (simp add: checked_simps)
        then show ?thesis by (simp add: mul K t None)
      next
        case k: (Some k)
        then have "unat k = unat tk + ?K" "unat t = unat tlen + unat (b_block_length b)"
          using t by (simp_all add: checked_simps)
        then show ?thesis using True by (auto simp: mul K t k Cons.IH)
      qed
    qed
  qed
qed

lemma validate_budget_Inr:
  assumes "unat (m_symbol_size m) \<le> 65528" "length (m_blocks m) \<le> 255"
  shows "validate_budget m total_bytes total_k = Inr () \<longleftrightarrow>
     unat total_k \<le> 524288 \<and>
     unat total_bytes \<le> 33554432 + unat (m_symbol_size m) * length (m_blocks m) \<and>
     unat (m_transfer_length m) \<le> unat total_bytes"
proof -
  let ?T = "unat (m_symbol_size m)" and ?n = "length (m_blocks m)"
  have "?T * ?n \<le> 65528 * 255" using assms by (intro mult_mono) auto
  then have le: "?T * ?n \<le> 16709640" by simp
  have n: "unat (of_nat ?n :: u64) = ?n" using assms by (intro unat_of_nat_len) simp
  define p where "p = (of_nat (?T * ?n) :: u64)"
  have p: "unat p = ?T * ?n" unfolding p_def using le by (intro unat_of_nat_len) simp
  have pad: "checked_mul (ucast (m_symbol_size m)) (of_nat ?n :: u64) = Some p"
    by (simp add: checked_simps n p)
  define q where "q = MAX_OBJECT_BYTES + p"
  have q: "unat q = 33554432 + ?T * ?n"
    using le p by (simp add: q_def MAX_OBJECT_BYTES_def unat_word_ariths)
  have budget: "checked_add MAX_OBJECT_BYTES p = Some q"
    by (simp add: checked_simps q p) (simp add: MAX_OBJECT_BYTES_def)
  show ?thesis
    by (simp add: validate_budget_def pad budget q word_less_nat_alt MAX_TOTAL_SOURCE_SYMBOLS_def
        not_less)
qed

lemma validate_oti_Inr: "validate_oti rq m = Inr () \<longleftrightarrow> oti_ok rq m"
  by (auto simp: validate_oti_def oti_ok_def Let_def word_less_nat_alt word_unat_eq_iff unat_mod
      unat_div mod_eq_0_iff_dvd)

lemma meta_validate_iff: "meta_validate rq m = Inr () \<longleftrightarrow> meta_ok rq m"
proof (cases "is_ok (config_new (m_symbol_size m)) \<and> length (m_blocks m) \<le> 255")
  case False
  then show ?thesis
    by (auto simp: meta_validate_def meta_ok_def is_ok_iff config_new_Inr split: if_splits)
next
  case True
  then have T: "64 \<le> unat (m_symbol_size m)" "unat (m_symbol_size m) \<le> 65528"
    "8 dvd unat (m_symbol_size m)" and n: "length (m_blocks m) \<le> 255"
    by (auto simp: is_ok_iff config_new_Inr)
  have len: "\<not> MAX_SOURCE_BLOCKS < length (m_blocks m)" using n by (simp add: MAX_SOURCE_BLOCKS_def)
  show ?thesis (is "?L \<longleftrightarrow> ?R")
  proof
    assume ?L
    with True len n obtain tlen tk where
      "oti_ok rq m" "0 < unat (m_transfer_length m)" "unat (m_transfer_length m) \<le> 33554432"
      "m_blocks m \<noteq> []" "unat (oti_source_blocks (meta_oti rq m)) = length (m_blocks m)"
      and B: "validate_blocks (m_symbol_size m) 0 (m_blocks m) 0 0 = Inr (tlen, tk)"
        "validate_budget m tlen tk = Inr ()"
      by (auto simp: meta_validate_def validate_oti_Inr MAX_OBJECT_BYTES_def word_less_nat_alt
          unat_gt_0 split: if_splits)
    then show ?R using T n validate_budget_Inr [OF T(2) n, of tlen tk]
      by (auto simp: meta_ok_def validate_blocks_Inr)
  next
    assume R: ?R
    define tlen tk where "tlen = (of_nat (sum_bytes (m_blocks m)) :: u64)"
      and "tk = (of_nat (sum_symbols (m_blocks m)) :: u64)"
    have "unat (m_symbol_size m) * length (m_blocks m) \<le> 65528 * 255"
      using T n by (intro mult_mono) auto
    with R have "unat tlen = sum_bytes (m_blocks m)" "unat tk = sum_symbols (m_blocks m)"
      unfolding tlen_def tk_def by (auto simp: meta_ok_def intro!: unat_of_nat_len)
    with R have "validate_blocks (m_symbol_size m) 0 (m_blocks m) 0 0 = Inr (tlen, tk)"
      "validate_budget m tlen tk = Inr ()"
      using validate_budget_Inr [OF T(2) n, of tlen tk]
      by (auto simp: validate_blocks_Inr meta_ok_def)
    with R True len n show ?L
      by (auto simp: meta_validate_def validate_oti_Inr meta_ok_def MAX_OBJECT_BYTES_def
          word_less_nat_alt unat_gt_0)
  qed
qed

text \<open>
  \<open>ObjectMeta::validate\<close> accepts exactly the metadata that meets the specification: the
  word-sized overflow checks never reject anything the budgets allow and never let
  anything through.
\<close>

lemma validate_exact: "meta_validate rq m = Inr () \<longleftrightarrow> meta_ok rq m"
  by (rule meta_validate_iff)

end
