(* ===== verification/Raptor_Codec.thy ===== *)
theory Raptor_Codec
  imports Object_Meta
begin

text \<open>
  The symbol-oriented wrapper of \<open>core/raptorq-core\<close> (\<open>encoder.rs\<close>, \<open>decoder.rs\<close>): the
  encoder with its cached source packets, on-demand repair symbols, and the per-block
  decoder with lazy reconstruction.  The upstream crate is the parameter \<open>rq\<close>.
\<close>

section \<open>Encoder\<close>

record 'e cached_block =
  cb_encoder :: 'e
  cb_source_packets :: "bytes list"

record 'e encoder =
  enc_config :: config
  enc_meta :: object_meta
  enc_blocks :: "'e cached_block list"

definition source_block_meta_of ::
  "('e, 'd) raptorq \<Rightarrow> config \<Rightarrow> nat \<Rightarrow> 'e \<Rightarrow> source_block_meta" where
  "source_block_meta_of rq config i enc =
     (let k = of_nat (length (rq_source_packets rq enc)) :: u32 in
      \<lparr>b_sbn = of_nat i, b_num_source_symbols = k,
       b_block_length = ucast k * ucast (cfg_symbol_size config)\<rparr>)"

definition from_encoder ::
  "('e, 'd) raptorq \<Rightarrow> u64 \<Rightarrow> config \<Rightarrow> oti \<Rightarrow> 'e list \<Rightarrow> object_meta" where
  "from_encoder rq data_len config oti blocks =
     \<lparr>m_transfer_length = data_len,
      m_symbol_size = cfg_symbol_size config,
      m_oti_bytes = rq_oti_serialize rq oti,
      m_blocks = map (\<lambda>(i, enc). source_block_meta_of rq config i enc) (enumerate 0 blocks)\<rparr>"

definition encoder_new ::
  "('e, 'd) raptorq \<Rightarrow> bytes \<Rightarrow> config \<Rightarrow> ('e encoder, rq_error) result" where
  "encoder_new rq data config0 =
     (if data = [] then Inl EmptyData
      else bind_result (config_new (cfg_symbol_size config0)) (\<lambda>config.
           bind_result (config_mtu config) (\<lambda>mtu.
           case rq_encode rq data mtu of (oti, rq_blocks) \<Rightarrow>
             Inr \<lparr>enc_config = config,
                  enc_meta = from_encoder rq (of_nat (length data)) config oti rq_blocks,
                  enc_blocks = map (\<lambda>b. \<lparr>cb_encoder = b,
                                        cb_source_packets = rq_source_packets rq b\<rparr>) rq_blocks\<rparr>)))"

definition num_blocks :: "'e encoder \<Rightarrow> nat" where
  "num_blocks enc = length (enc_blocks enc)"

definition encoder_block :: "'e encoder \<Rightarrow> u32 \<Rightarrow> ('e cached_block, rq_error) result" where
  "encoder_block enc sbn =
     (if unat sbn < length (enc_blocks enc) then Inr (enc_blocks enc ! unat sbn)
      else Inl (BlockOutOfRange sbn (of_nat (length (enc_blocks enc)))))"

definition block_k :: "'e encoder \<Rightarrow> u32 \<Rightarrow> u32" where
  "block_k enc sbn = b_num_source_symbols (m_blocks (enc_meta enc) ! unat sbn)"

definition source_symbol :: "'e encoder \<Rightarrow> u32 \<Rightarrow> u32 \<Rightarrow> (symbol, rq_error) result" where
  "source_symbol enc sbn esi =
     bind_result (encoder_block enc sbn) (\<lambda>block.
       if block_k enc sbn \<le> esi then Inl (UnknownSymbol sbn esi)
       else Inr (symbol_new sbn esi (cb_source_packets block ! unat esi)))"

text \<open>Collecting the enumerated repair packets stops at the first error.\<close>

fun collect_repair ::
  "u32 \<Rightarrow> u32 \<Rightarrow> u32 \<Rightarrow> nat \<Rightarrow> bytes list \<Rightarrow> (symbol list, rq_error) result" where
  "collect_repair sbn k start i [] = Inr []"
| "collect_repair sbn k start i (p # ps) =
     bind_result (ok_or (UnknownSymbol sbn (- 1))
                    (Option.bind (checked_add k start) (\<lambda>s. checked_add s (of_nat i))))
       (\<lambda>esi. bind_result (collect_repair sbn k start (Suc i) ps)
          (\<lambda>syms. Inr (symbol_new sbn esi p # syms)))"

definition repair_symbols ::
  "('e, 'd) raptorq \<Rightarrow> 'e encoder \<Rightarrow> u32 \<Rightarrow> u32 \<Rightarrow> u32 \<Rightarrow> (symbol list, rq_error) result" where
  "repair_symbols rq enc sbn start count =
     bind_result (encoder_block enc sbn) (\<lambda>block.
       let k = block_k enc sbn in
       if count = 0 then Inr []
       else bind_result (ok_or (UnknownSymbol sbn (- 1))
              (Option.bind (checked_add k start) (\<lambda>v. checked_add v (count - 1))))
         (\<lambda>last_esi.
            if push_bit 24 1 \<le> last_esi then Inl (UnknownSymbol sbn last_esi)
            else collect_repair sbn k start 0
                   (rq_repair_packets rq (cb_encoder block) start count)))"

definition source_symbols :: "'e encoder \<Rightarrow> u32 \<Rightarrow> (symbol list, rq_error) result" where
  "source_symbols enc sbn =
     bind_result (encoder_block enc sbn) (\<lambda>block.
       Inr (map (\<lambda>(i, p). symbol_new sbn (of_nat i) p)
              (take (unat (block_k enc sbn)) (enumerate 0 (cb_source_packets block)))))"

section \<open>Decoder\<close>

record 'd block_state =
  bs_decoder :: 'd
  bs_decoded :: "bytes option"

record 'd decoder =
  dec_meta :: object_meta
  dec_blocks :: "'d block_state list"

definition decoder_new ::
  "('e, 'd) raptorq \<Rightarrow> object_meta \<Rightarrow> ('d decoder, rq_error) result" where
  "decoder_new rq meta =
     bind_result (map_err InvalidObjectMeta (meta_validate rq meta)) (\<lambda>_.
       let oti = meta_oti rq meta in
       Inr \<lparr>dec_meta = meta,
            dec_blocks = map (\<lambda>b. \<lparr>bs_decoder = rq_decoder_new rq (ucast (b_sbn b)) oti (b_block_length b),
                                  bs_decoded = None\<rparr>) (m_blocks meta)\<rparr>)"

definition block_progress :: "'d decoder \<Rightarrow> u32 \<Rightarrow> u32 option" where
  "block_progress dec sbn =
     (if unat sbn < length (dec_blocks dec)
      then let k = b_num_source_symbols (m_blocks (dec_meta dec) ! unat sbn) in
           if bs_decoded (dec_blocks dec ! unat sbn) \<noteq> None then Some k else None
      else None)"

definition decoder_is_complete :: "'d decoder \<Rightarrow> bool" where
  "decoder_is_complete dec = list_all (\<lambda>b. bs_decoded b \<noteq> None) (dec_blocks dec)"

definition decoded_block_count :: "'d decoder \<Rightarrow> nat" where
  "decoded_block_count dec = length (filter (\<lambda>b. bs_decoded b \<noteq> None) (dec_blocks dec))"

definition add_symbol ::
  "('e, 'd) raptorq \<Rightarrow> 'd decoder \<Rightarrow> symbol \<Rightarrow> ('d decoder \<times> bool, rq_error) result" where
  "add_symbol rq dec symb =
     (let sbn = unat (sid_sbn (sym_id symb)) in
      if length (dec_blocks dec) \<le> sbn
      then Inl (BlockOutOfRange (sid_sbn (sym_id symb)) (of_nat (length (dec_blocks dec))))
      else if push_bit 24 1 \<le> sid_esi (sym_id symb)
           \<or> length (sym_data symb) \<noteq> unat (m_symbol_size (dec_meta dec))
      then Inr (dec, decoder_is_complete dec)
      else let block = dec_blocks dec ! sbn in
        if bs_decoded block \<noteq> None then Inr (dec, decoder_is_complete dec)
        else case rq_decode rq (bs_decoder block) (ucast (sid_sbn (sym_id symb)))
                    (sid_esi (sym_id symb)) (sym_data symb) of
          (d', result) \<Rightarrow>
            let block' = (case result of
                            Some r \<Rightarrow> \<lparr>bs_decoder = d', bs_decoded = Some r\<rparr>
                          | None \<Rightarrow> \<lparr>bs_decoder = d', bs_decoded = bs_decoded block\<rparr>);
                dec' = dec\<lparr>dec_blocks := (dec_blocks dec)[sbn := block']\<rparr>
            in Inr (dec', decoder_is_complete dec'))"

definition decoder_assemble :: "'d decoder \<Rightarrow> bytes option" where
  "decoder_assemble dec =
     (if \<not> decoder_is_complete dec then None
      else Some (take (unat (m_transfer_length (dec_meta dec)))
             (concat (map (\<lambda>b. the (bs_decoded b)) (dec_blocks dec)))))"

section \<open>What the decoder reports\<close>

text \<open>Every symbol of a known block that is fed to a complete decoder is reported to complete the object.\<close>

lemma add_symbol_after_completion:
  assumes "decoder_is_complete dec" "unat (sid_sbn (sym_id x)) < length (dec_blocks dec)"
  shows "add_symbol rq dec x = Inr (dec, True)"
  using assms by (auto simp: add_symbol_def Let_def decoder_is_complete_def list_all_length)

text \<open>The progress of a block does not count symbols: it is nothing or all.\<close>

lemma block_progress_cases:
  assumes "unat sbn < length (dec_blocks dec)"
  shows "block_progress dec sbn = (if bs_decoded (dec_blocks dec ! unat sbn) = None then None
     else Some (b_num_source_symbols (m_blocks (dec_meta dec) ! unat sbn)))"
  using assms by (simp add: block_progress_def Let_def)

section \<open>Repair symbols\<close>

lemma esi_limit:
  "push_bit 24 1 \<le> (x :: u32) \<longleftrightarrow> 16777216 \<le> unat x"
  "16777216 \<le> x \<longleftrightarrow> 16777216 \<le> unat x"
  by (simp_all add: word_le_nat_alt push_bit_eq_mult)

lemma collect_repair_Inr:
  assumes "unat k + unat start + i + length ps \<le> 2 ^ 32"
  shows "collect_repair sbn k start i ps =
    Inr (map (\<lambda>j. symbol_new sbn (k + start + of_nat (i + j)) (ps ! j)) [0..<length ps])"
  using assms
proof (induction ps arbitrary: i)
  case Nil
  then show ?case by simp
next
  case (Cons p ps)
  have 1: "checked_add k start = Some (k + start)" "unat (k + start) = unat k + unat start"
    using Cons.prems by (simp_all add: checked_add_def unat_word_ariths)
  have "unat (of_nat i :: u32) = i" using Cons.prems by (intro unat_of_nat_len) simp
  with 1 Cons.prems have 2: "checked_add (k + start) (of_nat i) = Some (k + start + of_nat i)"
    by (simp add: checked_add_def)
  have "[0..<Suc (length ps)] = 0 # map Suc [0..<length ps]" by (metis map_Suc_upt upt_conv_Cons zero_less_Suc)
  then show ?case using Cons by (simp add: 1 2 comp_def)
qed

lemma repair_symbols_exact:
  assumes "length (rq_repair_packets rq (cb_encoder (enc_blocks enc ! unat sbn)) start count) = unat count"
    and k: "k = unat (block_k enc sbn)"
  shows "repair_symbols rq enc sbn start count =
    (if length (enc_blocks enc) \<le> unat sbn
     then Inl (BlockOutOfRange sbn (of_nat (length (enc_blocks enc))))
     else if count = 0 then Inr []
     else if 2 ^ 32 < k + unat start + unat count then Inl (UnknownSymbol sbn (- 1))
     else if 2 ^ 24 < k + unat start + unat count
     then Inl (UnknownSymbol sbn (of_nat (k + unat start + unat count - 1)))
     else Inr (map (\<lambda>i. symbol_new sbn (of_nat (k + unat start + i))
            (rq_repair_packets rq (cb_encoder (enc_blocks enc ! unat sbn)) start count ! i))
          [0..<unat count]))"
proof (cases "length (enc_blocks enc) \<le> unat sbn \<or> count = 0")
  case True
  then show ?thesis by (auto simp: repair_symbols_def encoder_block_def Let_def)
next
  case False
  then have blk: "encoder_block enc sbn = Inr (enc_blocks enc ! unat sbn)" and c0: "0 < unat count"
    by (auto simp: encoder_block_def unat_gt_0)
  let ?k = "block_k enc sbn"
  let ?last = "Option.bind (checked_add ?k start) (\<lambda>v. checked_add v (count - 1))"
  have c1: "unat (count - 1) = unat count - 1"
    using c0 by (metis One_nat_def Suc_leI unat_1 unat_sub word_le_nat_alt)
  have last_None: "?last = None \<longleftrightarrow> 2 ^ 32 < k + unat start + unat count"
  proof (cases "checked_add ?k start")
    case None
    then have "2 ^ 32 \<le> unat ?k + unat start" by (simp add: checked_simps)
    then show ?thesis using None k c0 by simp
  next
    case (Some v)
    then have v: "unat v = unat ?k + unat start" by (simp add: checked_simps)
    have "?last = checked_add v (count - 1)" by (simp add: Some)
    with k c0 c1 v show ?thesis by (auto simp: checked_add_None)
  qed
  show ?thesis
  proof (cases ?last)
    case None
    then show ?thesis using False blk last_None by (simp add: repair_symbols_def Let_def None)
  next
    case (Some l)
    then have l: "unat l = k + unat start + unat count - 1"
      using k c0 c1 by (auto simp: bind_eq_Some_conv checked_simps)
    have le: "k + unat start + unat count \<le> 2 ^ 32" using Some last_None by simp
    have l': "l = of_nat (k + unat start + unat count - 1)" using l by (rule word_eq_of_nat)
    have lim: "push_bit 24 1 \<le> l \<longleftrightarrow> 2 ^ 24 < k + unat start + unat count"
      using l c0 by (simp add: esi_limit) linarith
    have "collect_repair sbn ?k start 0 (rq_repair_packets rq (cb_encoder (enc_blocks enc ! unat sbn)) start count)
      = Inr (map (\<lambda>i. symbol_new sbn (of_nat (k + unat start + i))
            (rq_repair_packets rq (cb_encoder (enc_blocks enc ! unat sbn)) start count ! i))
          [0..<unat count])"
      using le by (subst collect_repair_Inr) (simp_all add: assms(1) k)
    then show ?thesis using False blk le lim l'
      by (simp add: repair_symbols_def Let_def Some del: of_nat_diff)
  qed
qed

text \<open>
  With an upstream crate that returns as many repair packets as it is asked for,
  \<open>repair_symbols\<close> is total and exact: an unknown block is \<open>BlockOutOfRange\<close>, a range that
  leaves 32 bits or the 24-bit ESI space is \<open>UnknownSymbol\<close> before upstream is called, and
  otherwise symbol number \<open>i\<close> has encoding id \<open>K + start + i\<close>, never a source id.
\<close>

lemma repair_symbols_spec:
  assumes "length (rq_repair_packets rq (cb_encoder (enc_blocks enc ! unat sbn)) start count) = unat count"
    and k: "k = unat (block_k enc sbn)"
  shows "repair_symbols rq enc sbn start count =
    (if length (enc_blocks enc) \<le> unat sbn
     then Inl (BlockOutOfRange sbn (of_nat (length (enc_blocks enc))))
     else if count = 0 then Inr []
     else if 2 ^ 32 < k + unat start + unat count then Inl (UnknownSymbol sbn (- 1))
     else if 2 ^ 24 < k + unat start + unat count
     then Inl (UnknownSymbol sbn (of_nat (k + unat start + unat count - 1)))
     else Inr (map (\<lambda>i. symbol_new sbn (of_nat (k + unat start + i))
            (rq_repair_packets rq (cb_encoder (enc_blocks enc ! unat sbn)) start count ! i))
          [0..<unat count]))"
  using assms by (rule repair_symbols_exact)

section \<open>The decoder as independent block machines\<close>

text \<open>
  What a caller that ignores the result of \<open>add_symbol\<close> sees: the decoder afterwards, or
  the old one on an error.
\<close>

definition feed :: "('e, 'd) raptorq \<Rightarrow> 'd decoder \<Rightarrow> symbol \<Rightarrow> 'd decoder" where
  "feed rq dec s = (case add_symbol rq dec s of Inr (dec', _) \<Rightarrow> dec' | Inl _ \<Rightarrow> dec)"

text \<open>The symbols a decoder hands to upstream: known block, 24-bit ESI, full payload.\<close>

definition usable :: "'d decoder \<Rightarrow> symbol \<Rightarrow> bool" where
  "usable dec s \<longleftrightarrow>
     unat (sid_sbn (sym_id s)) < length (dec_blocks dec) \<and> unat (sid_esi (sym_id s)) < 16777216 \<and>
     length (sym_data s) = unat (m_symbol_size (dec_meta dec))"

text \<open>One block on its own: it stops consuming packets once it has a result.\<close>

fun block_feed :: "('e, 'd) raptorq \<Rightarrow> u8 \<Rightarrow> 'd block_state \<Rightarrow> u32 \<times> bytes \<Rightarrow> 'd block_state" where
  "block_feed rq n b (esi, x) =
     (if bs_decoded b \<noteq> None then b
      else case rq_decode rq (bs_decoder b) n esi x of
        (d', r) \<Rightarrow> \<lparr>bs_decoder = d', bs_decoded = r\<rparr>)"

fun drive :: "('e, 'd) raptorq \<Rightarrow> 'd \<Rightarrow> u8 \<Rightarrow> (u32 \<times> bytes) list \<Rightarrow> bytes option" where
  "drive rq d n [] = None"
| "drive rq d n ((esi, x) # ps) =
     (case rq_decode rq d n esi x of (d', Some r) \<Rightarrow> Some r | (d', None) \<Rightarrow> drive rq d' n ps)"

definition packets_for :: "'d decoder \<Rightarrow> nat \<Rightarrow> symbol list \<Rightarrow> (u32 \<times> bytes) list" where
  "packets_for dec i syms =
     map (\<lambda>s. (sid_esi (sym_id s), sym_data s))
       (filter (\<lambda>s. usable dec s \<and> unat (sid_sbn (sym_id s)) = i) syms)"

lemma add_symbol_Inr_iff:
  "(\<exists>r. add_symbol rq dec s = Inr r) \<longleftrightarrow> unat (sid_sbn (sym_id s)) < length (dec_blocks dec)"
  by (auto simp: add_symbol_def Let_def not_le split: prod.splits)

lemma add_symbol_flag:
  "add_symbol rq dec s = Inr (dec', c) \<Longrightarrow> dec' = feed rq dec s \<and> c = decoder_is_complete dec'"
  by (auto simp: feed_def add_symbol_def Let_def split: if_splits prod.splits)

lemma feed_meta [simp]: "dec_meta (feed rq dec s) = dec_meta dec"
  by (auto simp: feed_def add_symbol_def Let_def split: prod.splits)

lemma feed_length [simp]: "length (dec_blocks (feed rq dec s)) = length (dec_blocks dec)"
  by (auto simp: feed_def add_symbol_def Let_def split: prod.splits)

lemma feed_unusable: "\<not> usable dec s \<Longrightarrow> feed rq dec s = dec"
  by (auto simp: feed_def usable_def add_symbol_def Let_def esi_limit not_less)

lemma feed_usable:
  assumes "usable dec s"
  shows "dec_blocks (feed rq dec s) =
    (dec_blocks dec)[unat (sid_sbn (sym_id s)) :=
      block_feed rq (ucast (sid_sbn (sym_id s))) (dec_blocks dec ! unat (sid_sbn (sym_id s)))
        (sid_esi (sym_id s), sym_data s)]"
  using assms
  by (auto simp: feed_def usable_def add_symbol_def Let_def esi_limit not_less not_le
      split: prod.splits option.splits)

lemma feed_usable_iff [simp]: "usable (feed rq dec t) s = usable dec s"
  by (simp add: usable_def)

lemma feed_nth:
  assumes "i < length (dec_blocks dec)"
  shows "dec_blocks (feed rq dec s) ! i =
    (if usable dec s \<and> unat (sid_sbn (sym_id s)) = i
     then block_feed rq (ucast (sid_sbn (sym_id s))) (dec_blocks dec ! i) (sid_esi (sym_id s), sym_data s)
     else dec_blocks dec ! i)"
  using assms by (cases "usable dec s") (auto simp: feed_usable feed_unusable nth_list_update)

lemma feed_all_meta [simp]:
  "dec_meta (foldl (feed rq) dec syms) = dec_meta dec"
  "length (dec_blocks (foldl (feed rq) dec syms)) = length (dec_blocks dec)"
  by (induction syms arbitrary: dec) simp_all

text \<open>
  Interleaving does not matter: block number \<open>i\<close> ends in the state its own packets, in
  their order, would have put it in.
\<close>

lemma feed_all_nth:
  assumes "i < length (dec_blocks dec)"
  shows "dec_blocks (foldl (feed rq) dec syms) ! i =
    foldl (block_feed rq (ucast (of_nat i :: u32))) (dec_blocks dec ! i) (packets_for dec i syms)"
  using assms
proof (induction syms arbitrary: dec)
  case Nil
  then show ?case by (simp add: packets_for_def)
next
  case (Cons s syms)
  have pk: "packets_for (feed rq dec s) i syms = packets_for dec i syms"
    by (simp add: packets_for_def)
  have "sid_sbn (sym_id s) = of_nat i" if "unat (sid_sbn (sym_id s)) = i"
    using that by (rule word_eq_of_nat)
  then show ?case using Cons by (auto simp: pk feed_nth) (simp_all add: packets_for_def)
qed

lemma block_feed_done: "bs_decoded b \<noteq> None \<Longrightarrow> foldl (block_feed rq n) b ps = b"
proof (induction ps)
  case (Cons p ps)
  then show ?case by (cases p) simp
qed simp

lemma block_feed_drive:
  "bs_decoded b = None \<Longrightarrow> bs_decoded (foldl (block_feed rq n) b ps) = drive rq (bs_decoder b) n ps"
proof (induction ps arbitrary: b)
  case (Cons p ps)
  obtain esi x where p: "p = (esi, x)" by fastforce
  obtain d' r where r: "rq_decode rq (bs_decoder b) n esi x = (d', r)" by fastforce
  show ?case
  proof (cases r)
    case None
    then show ?thesis using Cons by (simp add: p r)
  next
    case (Some y)
    then show ?thesis using Cons.prems by (simp add: p r block_feed_done)
  qed
qed simp

lemma decoder_new_Inr:
  "decoder_new rq m = Inr dec \<longleftrightarrow> meta_ok rq m \<and>
     dec = \<lparr>dec_meta = m,
            dec_blocks = map (\<lambda>b. \<lparr>bs_decoder = rq_decoder_new rq (ucast (b_sbn b)) (meta_oti rq m) (b_block_length b),
                                  bs_decoded = None\<rparr>) (m_blocks m)\<rparr>"
  by (auto simp: decoder_new_def Let_def meta_validate_iff)

section \<open>The interface the receiver relies on\<close>

text \<open>
  A session that feeds symbols relies on three laws: the number of blocks is fixed, a
  recovered block never changes, and a symbol touches no block but its own.  Its lemmas
  about runs are proved once here.
\<close>

locale block_sink =
  fixes put :: "'s \<Rightarrow> symbol \<Rightarrow> 's"
    and recovered :: "'s \<Rightarrow> nat \<Rightarrow> bytes option"
    and nblocks :: "'s \<Rightarrow> nat"
  assumes nblocks_put: "nblocks (put s x) = nblocks s"
    and recovered_put: "recovered s i = Some b \<Longrightarrow> recovered (put s x) i = Some b"
    and recovered_other: "unat (sid_sbn (sym_id x)) \<noteq> i \<Longrightarrow> recovered (put s x) i = recovered s i"
begin

lemma nblocks_run: "nblocks (foldl put s xs) = nblocks s"
  by (induction xs arbitrary: s) (simp_all add: nblocks_put)

lemma recovered_run: "recovered s i = Some b \<Longrightarrow> recovered (foldl put s xs) i = Some b"
  by (induction xs arbitrary: s) (simp_all add: recovered_put)

lemma finished_run:
  "(\<forall>i < nblocks s. recovered s i \<noteq> None) \<Longrightarrow> \<forall>i < nblocks s. recovered (foldl put s xs) i = recovered s i"
  using recovered_run by force

lemma untouched_run:
  "(\<And>x. x \<in> set xs \<Longrightarrow> unat (sid_sbn (sym_id x)) \<noteq> i) \<Longrightarrow> recovered (foldl put s xs) i = recovered s i"
  by (induction xs arbitrary: s) (simp_all add: recovered_other)

end

definition block_data :: "'d decoder \<Rightarrow> nat \<Rightarrow> bytes option" where
  "block_data dec i = (if i < length (dec_blocks dec) then bs_decoded (dec_blocks dec ! i) else None)"

interpretation wrapper: block_sink "feed rq" block_data "\<lambda>dec. length (dec_blocks dec)"
  for rq :: "('e, 'd) raptorq"
  by unfold_locales (auto simp: block_data_def feed_nth split: if_splits)

lemma complete_iff:
  "decoder_is_complete dec \<longleftrightarrow> (\<forall>i < length (dec_blocks dec). block_data dec i \<noteq> None)"
  by (auto simp: decoder_is_complete_def list_all_length block_data_def)

lemma assemble_block_data:
  "decoder_is_complete dec \<Longrightarrow> decoder_assemble dec =
     Some (take (unat (m_transfer_length (dec_meta dec)))
       (concat (map (\<lambda>i. the (block_data dec i)) [0..<length (dec_blocks dec)])))"
proof -
  have "map (\<lambda>b. the (bs_decoded b)) (dec_blocks dec) =
      map (\<lambda>i. the (block_data dec i)) [0..<length (dec_blocks dec)]"
    by (rule nth_equalityI) (simp_all add: block_data_def)
  then show "decoder_is_complete dec \<Longrightarrow> ?thesis" by (simp add: decoder_assemble_def)
qed

text \<open>
  A decoder that has recovered the whole object is frozen: no further symbol, valid or
  hostile, in any number, changes completeness or the bytes that are assembled.
\<close>

lemma complete_decoder_frozen:
  assumes "decoder_is_complete dec"
  shows "decoder_is_complete (foldl (feed rq) dec syms)
    \<and> decoder_assemble (foldl (feed rq) dec syms) = decoder_assemble dec"
proof -
  let ?dec = "foldl (feed rq) dec syms"
  have eq: "\<forall>i < length (dec_blocks dec). block_data ?dec i = block_data dec i"
    using assms by (intro wrapper.finished_run) (simp add: complete_iff)
  with assms have "decoder_is_complete ?dec" by (simp add: complete_iff)
  moreover have "map (\<lambda>i. the (block_data ?dec i)) [0..<length (dec_blocks dec)] =
      map (\<lambda>i. the (block_data dec i)) [0..<length (dec_blocks dec)]"
    using eq by (intro map_cong) auto
  ultimately show ?thesis using assms by (simp add: assemble_block_data del: map_eq_conv)
qed

section \<open>What the code relies on upstream\<close>

text \<open>
  The documented behaviour of the upstream encoder (RFC 6330): for an object within the
  transfer budget and an aligned symbol size the object transmission information repeats
  the parameters and survives its 12-byte wire form with a zero reserved byte; the blocks are
  the object cut into consecutive stretches of whole symbols, zero-padded at the end; and a
  block has as many source packets as it has symbols, each one symbol long.  How the bytes of a
  block are spread over its packets is left open, so that an object may have any number of
  sub-blocks, whose sub-symbols the packets interleave.
\<close>

definition encode_contract :: "('e, 'd) raptorq \<Rightarrow> bool" where
  "encode_contract rq \<longleftrightarrow> (\<forall>data mtu oti encs.
     data \<noteq> [] \<and> length data \<le> 33554432 \<and> 68 \<le> unat mtu \<and> unat mtu \<le> 65532 \<and> 8 dvd (unat mtu - 4) \<and>
     rq_encode rq data mtu = (oti, encs) \<longrightarrow>
       rq_oti_deserialize rq (rq_oti_serialize rq oti) = oti \<and>
       length (rq_oti_serialize rq oti) = 12 \<and> rq_oti_serialize rq oti ! 5 = 0 \<and>
       unat (oti_transfer_length oti) = length data \<and>
       unat (oti_symbol_size oti) = unat mtu - 4 \<and>
       unat (oti_source_blocks oti) = length encs \<and>
       0 < unat (oti_symbol_alignment oti) \<and> unat (oti_symbol_alignment oti) dvd unat mtu - 4 \<and>
       0 < unat (oti_sub_blocks oti) \<and>
       unat (oti_sub_blocks oti) \<le> (unat mtu - 4) div unat (oti_symbol_alignment oti) \<and>
       (\<forall>e \<in> set encs. rq_source_packets rq e \<noteq> [] \<and> length (rq_source_packets rq e) \<le> 56403 \<and>
          (\<forall>p \<in> set (rq_source_packets rq e). length p = unat mtu - 4) \<and>
          length (rq_block_bytes rq e) = length (rq_source_packets rq e) * (unat mtu - 4)) \<and>
       (\<exists>pad. pad < unat mtu - 4 \<and> concat (map (rq_block_bytes rq) encs) = data @ replicate pad 0))"

text \<open>
  The documented behaviour of the upstream block decoder, for packets the encoder of the
  block made: a packet is a source packet or a repair packet of the block; any result is
  the bytes of the block, its sub-blocks put back in order; and once all source packets have
  been seen there is a result.
\<close>

definition packet_of :: "('e, 'd) raptorq \<Rightarrow> 'e \<Rightarrow> u32 \<times> bytes \<Rightarrow> bool" where
  "packet_of rq e p \<longleftrightarrow>
     (let k = length (rq_source_packets rq e) in
      if unat (fst p) < k then snd p = rq_source_packets rq e ! unat (fst p)
      else unat (fst p) < 16777216 \<and> rq_repair_packets rq e (fst p - of_nat k) 1 = [snd p])"

definition decode_contract :: "('e, 'd) raptorq \<Rightarrow> bool" where
  "decode_contract rq \<longleftrightarrow> (\<forall>data mtu oti encs i ps.
     data \<noteq> [] \<and> length data \<le> 33554432 \<and> 68 \<le> unat mtu \<and> unat mtu \<le> 65532 \<and> 8 dvd (unat mtu - 4) \<and>
     rq_encode rq data mtu = (oti, encs) \<and> i < length encs \<and> (\<forall>p \<in> set ps. packet_of rq (encs ! i) p) \<longrightarrow>
       (let block = rq_block_bytes rq (encs ! i);
            out = drive rq (rq_decoder_new rq (of_nat i) oti (of_nat (length block))) (of_nat i) ps
        in (out = None \<or> out = Some block) \<and>
           ((\<forall>k < length (rq_source_packets rq (encs ! i)). of_nat k \<in> fst ` set ps) \<longrightarrow> out = Some block)))"

text \<open>
  Repair packets: as many as asked for, each one symbol long, as long as every encoding symbol
  id stays within the 24 bits of a payload id (beyond them the crate panics; the code checks
  the bound before it calls).
\<close>

definition repair_contract :: "('e, 'd) raptorq \<Rightarrow> bool" where
  "repair_contract rq \<longleftrightarrow> (\<forall>data mtu oti encs. \<forall>e \<in> set encs. \<forall>start count.
     data \<noteq> [] \<and> length data \<le> 33554432 \<and> 68 \<le> unat mtu \<and> unat mtu \<le> 65532 \<and> 8 dvd (unat mtu - 4) \<and>
     rq_encode rq data mtu = (oti, encs) \<and>
     length (rq_source_packets rq e) + unat start + unat count \<le> 16777216 \<longrightarrow>
       length (rq_repair_packets rq e start count) = unat count \<and>
       (\<forall>p \<in> set (rq_repair_packets rq e start count). length p = unat mtu - 4))"

lemma repair_contractD:
  assumes "repair_contract rq" "e \<in> set encs" "data \<noteq> []" "length data \<le> 33554432" "68 \<le> unat mtu"
    "unat mtu \<le> 65532" "8 dvd (unat mtu - 4)" "rq_encode rq data mtu = (oti, encs)"
    "length (rq_source_packets rq e) + unat start + unat count \<le> 16777216"
  shows "length (rq_repair_packets rq e start count) = unat count \<and>
       (\<forall>p \<in> set (rq_repair_packets rq e start count). length p = unat mtu - 4)"
  using assms unfolding repair_contract_def by blast

lemma decode_contractD:
  assumes "decode_contract rq" "data \<noteq> []" "length data \<le> 33554432" "68 \<le> unat mtu" "unat mtu \<le> 65532"
    "8 dvd (unat mtu - 4)" "rq_encode rq data mtu = (oti, encs)" "i < length encs"
    "\<forall>p \<in> set ps. packet_of rq (encs ! i) p"
    "block = rq_block_bytes rq (encs ! i)"
    "out = drive rq (rq_decoder_new rq (of_nat i) oti (of_nat (length block))) (of_nat i) ps"
  shows "(out = None \<or> out = Some block) \<and>
     ((\<forall>k < length (rq_source_packets rq (encs ! i)). of_nat k \<in> fst ` set ps) \<longrightarrow> out = Some block)"
  using assms(1) [unfolded decode_contract_def, THEN spec, THEN spec, THEN spec, THEN spec, THEN spec,
      THEN spec, of data mtu oti encs i ps] assms(2-)
  by (simp add: Let_def)

section \<open>Encoder metadata always passes the receiver's gate\<close>

lemma encoder_new_Inr:
  "encoder_new rq data c0 = Inr enc \<longleftrightarrow>
     data \<noteq> [] \<and> (\<exists>c mtu. config_new (cfg_symbol_size c0) = Inr c \<and> config_mtu c = Inr mtu \<and>
        enc = (let bs = snd (rq_encode rq data mtu) in
          \<lparr>enc_config = c,
           enc_meta = from_encoder rq (of_nat (length data)) c (fst (rq_encode rq data mtu)) bs,
           enc_blocks = map (\<lambda>b. \<lparr>cb_encoder = b, cb_source_packets = rq_source_packets rq b\<rparr>) bs\<rparr>))"
  by (auto simp: encoder_new_def case_prod_unfold Let_def)

lemma length_concat_same: "(\<And>p. p \<in> set ps \<Longrightarrow> length p = t) \<Longrightarrow> length (concat ps) = length ps * t"
  by (induction ps) auto

lemma length_of_object_blocks:
  "(\<And>e. e \<in> set encs \<Longrightarrow> length (block e) = n e * t) \<Longrightarrow>
   length (concat (map block encs)) = sum_list (map n encs) * t"
  by (induction encs) (auto simp: algebra_simps)

text \<open>The facts a successful construction gives, with the upstream contract unfolded once.\<close>

definition built_from ::
  "('e, 'd) raptorq \<Rightarrow> bytes \<Rightarrow> 'e encoder \<Rightarrow> u16 \<Rightarrow> oti \<Rightarrow> 'e list \<Rightarrow> nat \<Rightarrow> bool" where
  "built_from rq data enc mtu oti bs pad \<longleftrightarrow>
     rq_encode rq data mtu = (oti, bs) \<and>
     68 \<le> unat mtu \<and> unat mtu \<le> 65532 \<and> 8 dvd (unat mtu - 4) \<and> data \<noteq> [] \<and>
     unat mtu - 4 = unat (cfg_symbol_size (enc_config enc)) \<and>
     enc_meta enc = from_encoder rq (of_nat (length data)) (enc_config enc) oti bs \<and>
     enc_blocks enc = map (\<lambda>b. \<lparr>cb_encoder = b, cb_source_packets = rq_source_packets rq b\<rparr>) bs \<and>
     rq_oti_deserialize rq (rq_oti_serialize rq oti) = oti \<and>
     rq_oti_serialize rq oti ! 5 = 0 \<and> length (rq_oti_serialize rq oti) = 12 \<and>
     unat (oti_transfer_length oti) = length data \<and>
     unat (oti_symbol_size oti) = unat mtu - 4 \<and> unat (oti_source_blocks oti) = length bs \<and>
     0 < unat (oti_symbol_alignment oti) \<and> unat (oti_symbol_alignment oti) dvd unat mtu - 4 \<and>
     0 < unat (oti_sub_blocks oti) \<and>
     unat (oti_sub_blocks oti) \<le> (unat mtu - 4) div unat (oti_symbol_alignment oti) \<and>
     (\<forall>e \<in> set bs. rq_source_packets rq e \<noteq> [] \<and> length (rq_source_packets rq e) \<le> 56403 \<and>
       (\<forall>p \<in> set (rq_source_packets rq e). length p = unat mtu - 4) \<and>
       length (rq_block_bytes rq e) = length (rq_source_packets rq e) * (unat mtu - 4)) \<and>
     pad < unat mtu - 4 \<and> concat (map (rq_block_bytes rq) bs) = data @ replicate pad 0"

lemma encoder_new_facts:
  assumes "encode_contract rq" "encoder_new rq data c0 = Inr enc" "length data \<le> 33554432"
  obtains mtu oti bs pad where "built_from rq data enc mtu oti bs pad"
proof -
  from assms(2) obtain c mtu where c: "config_new (cfg_symbol_size c0) = Inr c"
    and m: "config_mtu c = Inr mtu" and "data \<noteq> []"
    and enc0: "enc = (let bs = snd (rq_encode rq data mtu) in
          \<lparr>enc_config = c,
           enc_meta = from_encoder rq (of_nat (length data)) c (fst (rq_encode rq data mtu)) bs,
           enc_blocks = map (\<lambda>b. \<lparr>cb_encoder = b, cb_source_packets = rq_source_packets rq b\<rparr>) bs\<rparr>)"
    by (auto simp: encoder_new_Inr)
  then obtain oti bs where e: "rq_encode rq data mtu = (oti, bs)" "data \<noteq> []"
    by (cases "rq_encode rq data mtu") simp
  then have enc: "enc = \<lparr>enc_config = c, enc_meta = from_encoder rq (of_nat (length data)) c oti bs,
               enc_blocks = map (\<lambda>b. \<lparr>cb_encoder = b, cb_source_packets = rq_source_packets rq b\<rparr>) bs\<rparr>"
    using enc0 by simp
  from config_mtu_ok [OF c] m have mtu: "unat mtu = unat (cfg_symbol_size c0) + 4" by auto
  with c have r: "68 \<le> unat mtu" "unat mtu \<le> 65532" "8 dvd (unat mtu - 4)"
    "unat mtu - 4 = unat (cfg_symbol_size c)" by (auto simp: config_new_Inr)
  note K = assms(1) [unfolded encode_contract_def, rule_format,
      OF conjI [OF e(2) conjI [OF assms(3) conjI [OF r(1) conjI [OF r(2) conjI [OF r(3) e(1)]]]]]]
  then obtain pad where "pad < unat mtu - 4"
    "concat (map (rq_block_bytes rq) bs) = data @ replicate pad 0" by blast
  with K e r enc show thesis by (intro that [of mtu oti bs pad]) (auto simp: built_from_def)
qed

lemma from_encoder_simps [simp]:
  "m_transfer_length (from_encoder rq n c oti bs) = n"
  "m_symbol_size (from_encoder rq n c oti bs) = cfg_symbol_size c"
  "m_oti_bytes (from_encoder rq n c oti bs) = rq_oti_serialize rq oti"
  "length (m_blocks (from_encoder rq n c oti bs)) = length bs"
  by (simp_all add: from_encoder_def)

lemma from_encoder_nth:
  "i < length bs \<Longrightarrow> m_blocks (from_encoder rq n c oti bs) ! i = source_block_meta_of rq c i (bs ! i)"
  by (simp add: from_encoder_def nth_enumerate_eq)

lemma source_block_meta_ok:
  assumes "rq_source_packets rq e \<noteq> []" "length (rq_source_packets rq e) \<le> 56403"
    "unat (cfg_symbol_size c) \<le> 65528"
  shows "block_ok (cfg_symbol_size c) i (source_block_meta_of rq c i e)"
    "unat (b_num_source_symbols (source_block_meta_of rq c i e)) = length (rq_source_packets rq e)"
    "unat (b_block_length (source_block_meta_of rq c i e)) =
       length (rq_source_packets rq e) * unat (cfg_symbol_size c)"
proof -
  let ?n = "length (rq_source_packets rq e)" and ?T = "unat (cfg_symbol_size c)"
  have n: "unat (of_nat ?n :: u32) = ?n" using assms by (intro unat_of_nat_len) simp
  have "?n * ?T \<le> 56403 * 65528" using assms by (intro mult_mono) auto
  then have "unat (ucast (of_nat ?n :: u32) * ucast (cfg_symbol_size c) :: u64) = ?n * ?T"
    using n by (simp add: unat_word_ariths del: of_nat_eq_0_iff)
  with n assms show "block_ok (cfg_symbol_size c) i (source_block_meta_of rq c i e)"
    "unat (b_num_source_symbols (source_block_meta_of rq c i e)) = ?n"
    "unat (b_block_length (source_block_meta_of rq c i e)) = ?n * ?T"
    by (auto simp: block_ok_def source_block_meta_of_def Let_def)
qed

lemma blocks_ok_from_encoder:
  assumes "\<And>e. e \<in> set bs \<Longrightarrow> rq_source_packets rq e \<noteq> [] \<and> length (rq_source_packets rq e) \<le> 56403"
    "unat (cfg_symbol_size c) \<le> 65528"
  shows "blocks_ok (cfg_symbol_size c) i (map (\<lambda>(i, e). source_block_meta_of rq c i e) (enumerate i bs)) \<and>
    sum_symbols (map (\<lambda>(i, e). source_block_meta_of rq c i e) (enumerate i bs)) =
      sum_list (map (\<lambda>e. length (rq_source_packets rq e)) bs)"
  using assms(1)
proof (induction bs arbitrary: i)
  case (Cons e bs)
  have "rq_source_packets rq e \<noteq> []" "length (rq_source_packets rq e) \<le> 56403"
    using Cons.prems by auto
  note e = source_block_meta_ok [OF this assms(2)]
  have "e' \<in> set bs \<Longrightarrow> rq_source_packets rq e' \<noteq> [] \<and> length (rq_source_packets rq e') \<le> 56403" for e'
    using Cons.prems by auto
  from Cons.IH [OF this, of "Suc i"] e show ?case by simp
qed simp

lemma encoder_meta_ok:
  assumes "encode_contract rq" "encoder_new rq data c0 = Inr enc" "length data \<le> 33554432"
  shows "meta_ok rq (enc_meta enc)"
proof -
  from assms obtain mtu oti bs pad where F: "built_from rq data enc mtu oti bs pad"
    by (rule encoder_new_facts)
  then have
    m: "68 \<le> unat mtu" "unat mtu \<le> 65532" "8 dvd (unat mtu - 4)" "data \<noteq> []"
      "unat mtu - 4 = unat (cfg_symbol_size (enc_config enc))"
    and meta: "enc_meta enc = from_encoder rq (of_nat (length data)) (enc_config enc) oti bs"
    and oti: "rq_oti_deserialize rq (rq_oti_serialize rq oti) = oti" "rq_oti_serialize rq oti ! 5 = 0"
      "unat (oti_transfer_length oti) = length data"
      "unat (oti_symbol_size oti) = unat mtu - 4" "unat (oti_source_blocks oti) = length bs"
      "0 < unat (oti_symbol_alignment oti)" "unat (oti_symbol_alignment oti) dvd unat mtu - 4"
      "0 < unat (oti_sub_blocks oti)"
      "unat (oti_sub_blocks oti) \<le> (unat mtu - 4) div unat (oti_symbol_alignment oti)"
    and pk: "\<And>e. e \<in> set bs \<Longrightarrow> rq_source_packets rq e \<noteq> [] \<and> length (rq_source_packets rq e) \<le> 56403 \<and>
       (\<forall>p \<in> set (rq_source_packets rq e). length p = unat mtu - 4) \<and>
       length (rq_block_bytes rq e) = length (rq_source_packets rq e) * (unat mtu - 4)"
    and pad: "pad < unat mtu - 4" "concat (map (rq_block_bytes rq) bs) = data @ replicate pad 0"
    unfolding built_from_def by blast+
  let ?T = "unat (cfg_symbol_size (enc_config enc))" and ?m = "enc_meta enc"
  let ?N = "sum_list (map (\<lambda>e. length (rq_source_packets rq e)) bs)"
  have T: "64 \<le> ?T" "?T \<le> 65528" "8 dvd ?T" using m by auto
  have bok: "blocks_ok (cfg_symbol_size (enc_config enc)) 0 (m_blocks ?m)" and sk: "sum_symbols (m_blocks ?m) = ?N"
    using blocks_ok_from_encoder [of bs rq "enc_config enc" 0] pk T by (auto simp: meta from_encoder_def)
  have "length (concat (map (rq_block_bytes rq) bs)) = ?N * ?T"
    using pk m(5) by (intro length_of_object_blocks) auto
  with pad have len: "?N * ?T = length data + pad" by simp
  with bok sk have sb: "sum_bytes (m_blocks ?m) = length data + pad" by (simp add: blocks_ok_bytes)
  have "(?N - 1) * 64 \<le> (?N - 1) * ?T" using T by simp
  also have "\<dots> < 33554432"
    using len pad m assms(3) by (simp add: diff_mult_distrib)
  finally have N: "?N \<le> 524288" by linarith
  have bs: "bs \<noteq> []" using pad m by auto
  have l255: "length bs \<le> 255" using oti(5) unat_lt [of "oti_source_blocks oti"] by simp
  have tl: "unat (of_nat (length data) :: u64) = length data" using assms(3) by (intro unat_of_nat_len) simp
  have otl: "oti_transfer_length oti = of_nat (length data)" using oti(3) by (rule word_eq_of_nat)
  have "pad \<le> ?T * length bs" using pad m bs by (cases bs) auto
  moreover have "oti_ok rq ?m" using oti m tl otl by (simp add: oti_ok_def meta meta_oti_def)
  ultimately show ?thesis
    using T bok sk sb N bs l255 tl assms(3) m(4) oti(1,5)
    by (auto simp: meta_ok_def meta meta_oti_def)
qed

text \<open>
  The metadata of every object the encoder builds within the 32 MiB transfer budget,
  at every admissible symbol size, passes \<open>ObjectMeta::validate\<close>: the gate that protects
  the receiver from hostile descriptors never rejects a genuine transfer.
\<close>

lemma encoder_meta_validates:
  assumes "encode_contract rq" "encoder_new rq data c0 = Inr enc" "length data \<le> 33554432"
  shows "meta_validate rq (enc_meta enc) = Inr ()"
  using encoder_meta_ok [OF assms] by (simp add: meta_validate_iff)

section \<open>Encoding and decoding are inverse\<close>

text \<open>A symbol the encoder hands out: a source symbol, or a repair symbol asked for on its own.\<close>

definition genuine :: "('e, 'd) raptorq \<Rightarrow> 'e encoder \<Rightarrow> symbol \<Rightarrow> bool" where
  "genuine rq enc s \<longleftrightarrow>
     (let sbn = sid_sbn (sym_id s); esi = sid_esi (sym_id s); k = block_k enc sbn in
      source_symbol enc sbn esi = Inr s \<or> (k \<le> esi \<and> repair_symbols rq enc sbn (esi - k) 1 = Inr [s]))"

lemma collect_repair_single:
  "collect_repair sbn k start i ps = Inr [s] \<Longrightarrow> \<exists>p. ps = [p] \<and> sym_data s = p"
  by (cases ps rule: remdups_adj.cases) auto

lemma repair_single:
  assumes "repair_symbols rq enc sbn start 1 = Inr [s]"
  shows "unat sbn < length (enc_blocks enc) \<and> unat (block_k enc sbn) + unat start < 16777216 \<and>
     rq_repair_packets rq (cb_encoder (enc_blocks enc ! unat sbn)) start 1 = [sym_data s]"
proof -
  from assms obtain l where sbn: "unat sbn < length (enc_blocks enc)"
    and l: "Option.bind (checked_add (block_k enc sbn) start) (\<lambda>v. checked_add v 0) = Some l"
    "\<not> push_bit 24 1 \<le> l"
    and c: "collect_repair sbn (block_k enc sbn) start 0
       (rq_repair_packets rq (cb_encoder (enc_blocks enc ! unat sbn)) start 1) = Inr [s]"
    by (auto simp: repair_symbols_def encoder_block_def Let_def split: if_splits)
  from l have "unat (block_k enc sbn) + unat start < 16777216"
    by (auto simp: bind_eq_Some_conv checked_simps esi_limit)
  with sbn collect_repair_single [OF c] show ?thesis by auto
qed

lemma genuine_packet:
  assumes F: "built_from rq data enc mtu oti bs pad"
    and g: "genuine rq enc s" and i: "unat (sid_sbn (sym_id s)) = i"
  shows "i < length bs \<and> packet_of rq (bs ! i) (sid_esi (sym_id s), sym_data s)"
proof -
  let ?sbn = "sid_sbn (sym_id s)" and ?esi = "sid_esi (sym_id s)"
  have blocks: "length (enc_blocks enc) = length bs"
    "\<And>j. j < length bs \<Longrightarrow> cb_encoder (enc_blocks enc ! j) = bs ! j \<and>
        cb_source_packets (enc_blocks enc ! j) = rq_source_packets rq (bs ! j)"
    using F by (auto simp: built_from_def)
  have k: "unat (block_k enc ?sbn) = length (rq_source_packets rq (bs ! i))" if "i < length bs"
    using F that source_block_meta_ok(2) [of rq "bs ! i" "enc_config enc" i]
    by (auto simp: built_from_def block_k_def i from_encoder_nth)
  have "source_symbol enc ?sbn ?esi = Inr s \<or>
      (block_k enc ?sbn \<le> ?esi \<and> repair_symbols rq enc ?sbn (?esi - block_k enc ?sbn) 1 = Inr [s])"
    using g by (simp add: genuine_def Let_def)
  then show ?thesis
  proof
    assume src: "source_symbol enc ?sbn ?esi = Inr s"
    then have b: "i < length bs" and e: "unat ?esi < unat (block_k enc ?sbn)"
      by (auto simp: source_symbol_def encoder_block_def i blocks word_less_nat_alt not_le split: if_splits)
    from src b e have "sym_data s = rq_source_packets rq (bs ! i) ! unat ?esi"
      by (auto simp: source_symbol_def encoder_block_def i blocks split: if_splits)
        (metis symbol_new_sel(3))
    with b e k show ?thesis by (simp add: packet_of_def)
  next
    assume rep: "block_k enc ?sbn \<le> ?esi \<and> repair_symbols rq enc ?sbn (?esi - block_k enc ?sbn) 1 = Inr [s]"
    then have "unat (?esi - block_k enc ?sbn) = unat ?esi - unat (block_k enc ?sbn)"
      "unat (block_k enc ?sbn) \<le> unat ?esi" by (auto simp: unat_sub word_le_nat_alt)
    with rep repair_single [of rq enc ?sbn "?esi - block_k enc ?sbn" s] have b: "i < length bs"
      and e: "unat ?esi < 16777216" "unat (block_k enc ?sbn) \<le> unat ?esi"
      and p: "rq_repair_packets rq (bs ! i) (?esi - block_k enc ?sbn) 1 = [sym_data s]"
      by (auto simp: i blocks)
    from k [OF b] have "block_k enc ?sbn = of_nat (length (rq_source_packets rq (bs ! i)))"
      by (rule word_eq_of_nat)
    with b e p k show ?thesis by (simp add: packet_of_def)
  qed
qed

text \<open>Inside the 24-bit space every symbol of a built encoder can be had, full-sized.\<close>

lemma block_k_built:
  assumes "built_from rq data enc mtu oti bs pad" "unat sbn < length bs"
  shows "unat (block_k enc sbn) = length (rq_source_packets rq (bs ! unat sbn))"
    "enc_blocks enc ! unat sbn = \<lparr>cb_encoder = bs ! unat sbn, cb_source_packets = rq_source_packets rq (bs ! unat sbn)\<rparr>"
    "length (enc_blocks enc) = length bs"
  using assms source_block_meta_ok(2) [of rq "bs ! unat sbn" "enc_config enc" "unat sbn"]
  by (auto simp: built_from_def block_k_def from_encoder_nth)

lemma symbol_available:
  assumes F: "built_from rq data enc mtu oti bs pad" and C: "repair_contract rq"
    and len: "length data \<le> 33554432" and i: "unat sbn < length bs" and esi: "unat esi < 16777216"
  shows "if esi < block_k enc sbn
    then \<exists>x. source_symbol enc sbn esi = Inr (symbol_new sbn esi x) \<and> length x = unat mtu - 4
    else \<exists>x. repair_symbols rq enc sbn (esi - block_k enc sbn) 1 = Inr [symbol_new sbn esi x] \<and>
      length x = unat mtu - 4"
proof -
  let ?k = "block_k enc sbn" and ?e = "bs ! unat sbn"
  note K = block_k_built [OF F i]
  have e: "?e \<in> set bs" using i by simp
  have pk: "\<And>p. p \<in> set (rq_source_packets rq ?e) \<Longrightarrow> length p = unat mtu - 4"
    and enc: "rq_encode rq data mtu = (oti, bs)"
    using F e unfolding built_from_def by blast+
  show ?thesis
  proof (cases "esi < ?k")
    case True
    then have lt: "unat esi < length (rq_source_packets rq ?e)" using K by (simp add: word_less_nat_alt)
    then have "source_symbol enc sbn esi = Inr (symbol_new sbn esi (rq_source_packets rq ?e ! unat esi))"
      using True K i by (simp add: source_symbol_def encoder_block_def not_le [symmetric])
    with True show ?thesis using pk [OF nth_mem] lt by auto
  next
    case False
    then have le: "unat ?k \<le> unat esi" "unat (esi - ?k) = unat esi - unat ?k"
      by (simp_all add: word_less_nat_alt unat_sub word_le_nat_alt)
    have b: "data \<noteq> []" "68 \<le> unat mtu" "unat mtu \<le> 65532" "8 dvd (unat mtu - 4)"
      using F unfolding built_from_def by blast+
    have dom: "length (rq_source_packets rq ?e) + unat (esi - ?k) + unat (1 :: u32) \<le> 16777216"
      using le esi K(1) by simp
    have "length (rq_repair_packets rq ?e (esi - ?k) 1) = unat (1 :: u32) \<and>
      (\<forall>p \<in> set (rq_repair_packets rq ?e (esi - ?k) 1). length p = unat mtu - 4)"
      using C e b(1) len b(2,3,4) enc dom by (rule repair_contractD)
    then obtain x where x: "rq_repair_packets rq ?e (esi - ?k) 1 = [x]" "length x = unat mtu - 4"
      by (auto simp: length_Suc_conv)
    have w: "of_nat (unat ?k + (unat esi - unat ?k)) = esi" using le by simp
    have "repair_symbols rq enc sbn (esi - ?k) 1 = Inr [symbol_new sbn esi x]"
      using repair_symbols_exact [of rq enc sbn "esi - ?k" 1 "unat ?k"] K i le esi x w by simp
    with False x(2) show ?thesis by auto
  qed
qed

text \<open>Every block ends as the upstream contract says: empty or right, and right once it is covered.\<close>

lemma block_after_feed:
  assumes C: "decode_contract rq" and F: "built_from rq data enc mtu oti bs pad"
    and len: "length data \<le> 33554432" and D: "decoder_new rq (enc_meta enc) = Inr dec"
    and g: "\<And>s. s \<in> set syms \<Longrightarrow> genuine rq enc s" and i: "i < length bs"
  shows "block_data (foldl (feed rq) dec syms) i \<in> {None, Some (rq_block_bytes rq (bs ! i))} \<and>
    ((\<forall>k < length (rq_source_packets rq (bs ! i)).
        \<exists>s \<in> set syms. unat (sid_sbn (sym_id s)) = i \<and> sid_esi (sym_id s) = of_nat k) \<longrightarrow>
     block_data (foldl (feed rq) dec syms) i = Some (rq_block_bytes rq (bs ! i)))"
proof -
  let ?e = "bs ! i" and ?T = "unat mtu - 4"
  let ?ps = "packets_for dec i syms" and ?block = "rq_block_bytes rq (bs ! i)"
  have e: "?e \<in> set bs" using i by simp
  have pk: "rq_source_packets rq ?e \<noteq> []" "length (rq_source_packets rq ?e) \<le> 56403"
    "\<And>p. p \<in> set (rq_source_packets rq ?e) \<Longrightarrow> length p = ?T"
    "length ?block = length (rq_source_packets rq ?e) * ?T"
    using F e unfolding built_from_def by blast+
  have T: "?T = unat (cfg_symbol_size (enc_config enc))" "?T \<le> 65528"
    and meta: "enc_meta enc = from_encoder rq (of_nat (length data)) (enc_config enc) oti bs"
    and oti: "meta_oti rq (enc_meta enc) = oti"
    using F by (auto simp: built_from_def meta_oti_def)
  have l255: "length bs \<le> 255" using F unat_lt [of "oti_source_blocks oti"] by (simp add: built_from_def)
  note bm = source_block_meta_ok [OF pk(1,2), of "enc_config enc" i]
  have blen: "b_block_length (m_blocks (enc_meta enc) ! i) = of_nat (length ?block)"
    using bm T i pk by (intro word_eq_of_nat) (simp add: meta from_encoder_nth)
  have bsbn: "b_sbn (m_blocks (enc_meta enc) ! i) = of_nat i"
    using bm T i by (simp add: meta from_encoder_nth block_ok_def)
  have dl: "length (dec_blocks dec) = length bs" and dT: "m_symbol_size (dec_meta dec) = cfg_symbol_size (enc_config enc)"
    and di: "dec_blocks dec ! i = \<lparr>bs_decoder = rq_decoder_new rq (of_nat i) oti (of_nat (length ?block)), bs_decoded = None\<rparr>"
    using D i blen bsbn by (auto simp: decoder_new_Inr meta [symmetric] oti ucast_of_nat_down) (auto simp: meta ucast_of_nat_down)
  have out: "block_data (foldl (feed rq) dec syms) i =
      drive rq (rq_decoder_new rq (of_nat i) oti (of_nat (length ?block))) (of_nat i) ?ps"
    using i by (simp add: block_data_def dl feed_all_nth di block_feed_drive ucast_of_nat_down)
  have "\<forall>p \<in> set ?ps. packet_of rq ?e p"
    using genuine_packet [OF F] g by (auto simp: packets_for_def)
  then have K: "(block_data (foldl (feed rq) dec syms) i = None \<or> block_data (foldl (feed rq) dec syms) i = Some ?block) \<and>
     ((\<forall>k < length (rq_source_packets rq ?e). of_nat k \<in> fst ` set ?ps) \<longrightarrow>
       block_data (foldl (feed rq) dec syms) i = Some ?block)"
    using F i len by (intro decode_contractD [OF C, of data mtu oti]) (auto simp: built_from_def out)
  have "of_nat k \<in> fst ` set ?ps"
    if k: "k < length (rq_source_packets rq ?e)" and s: "s \<in> set syms"
      and c: "unat (sid_sbn (sym_id s)) = i" "sid_esi (sym_id s) = of_nat k" for k s
  proof -
    have uk: "unat (of_nat k :: u32) = k" using k pk(2) by (intro unat_of_nat_len) simp
    from genuine_packet [OF F g [OF s] c(1)] k have "sym_data s = rq_source_packets rq ?e ! k"
      by (simp add: packet_of_def c uk)
    with k pk have "length (sym_data s) = ?T" by simp
    then have "usable dec s" using i c k pk(2) uk T by (simp add: usable_def dl dT)
    then show ?thesis using s c by (force simp: packets_for_def image_image)
  qed
  with K show ?thesis by blast
qed

lemma assemble_all:
  assumes F: "built_from rq data enc mtu oti bs pad" and len: "length data \<le> 33554432"
    and D: "decoder_new rq (enc_meta enc) = Inr dec" and dm: "dec_meta dec' = dec_meta dec"
    and dl: "length (dec_blocks dec') = length (dec_blocks dec)"
    and all: "\<And>i. i < length bs \<Longrightarrow> block_data dec' i = Some (rq_block_bytes rq (bs ! i))"
  shows "decoder_assemble dec' = Some data"
proof -
  have n: "length (dec_blocks dec') = length bs" and tl: "m_transfer_length (dec_meta dec') = of_nat (length data)"
    using D F dm dl by (auto simp: decoder_new_Inr built_from_def)
  have ul: "unat (of_nat (length data) :: u64) = length data" using len by (intro unat_of_nat_len) simp
  have "map (\<lambda>i. the (block_data dec' i)) [0..<length bs] = map (rq_block_bytes rq) bs"
    by (rule nth_equalityI) (simp_all add: all)
  moreover have "concat (map (rq_block_bytes rq) bs) = data @ replicate pad 0"
    using F by (simp add: built_from_def)
  moreover have "decoder_is_complete dec'" using all n by (simp add: complete_iff)
  ultimately show ?thesis by (simp add: assemble_block_data n tl ul del: map_eq_conv)
qed

lemma feed_never_wrong:
  assumes "encode_contract rq" "decode_contract rq" "encoder_new rq data c0 = Inr enc"
    "length data \<le> 33554432" "decoder_new rq (enc_meta enc) = Inr dec"
    "\<And>s. s \<in> set syms \<Longrightarrow> genuine rq enc s"
  shows "decoder_assemble (foldl (feed rq) dec syms) \<in> {None, Some data}"
proof -
  from assms obtain mtu oti bs pad where F: "built_from rq data enc mtu oti bs pad"
    by (blast elim: encoder_new_facts)
  let ?dec = "foldl (feed rq) dec syms"
  have n: "length (dec_blocks dec) = length bs" using assms(5) F by (auto simp: decoder_new_Inr built_from_def)
  show ?thesis
  proof (cases "decoder_is_complete ?dec")
    case True
    have "block_data ?dec i = Some (rq_block_bytes rq (bs ! i))" if "i < length bs" for i
      using block_after_feed [OF assms(2) F assms(4,5) _ that, of syms] assms(6) True that
      by (fastforce simp: complete_iff n)
    then show ?thesis using assemble_all [OF F assms(4,5), of ?dec] by simp
  qed (simp add: decoder_assemble_def)
qed

lemma feed_roundtrip:
  assumes "encode_contract rq" "decode_contract rq" "encoder_new rq data c0 = Inr enc"
    "length data \<le> 33554432" "decoder_new rq (enc_meta enc) = Inr dec"
    "\<And>s. s \<in> set syms \<Longrightarrow> genuine rq enc s"
    "\<And>i k. i < num_blocks enc \<Longrightarrow> k < unat (block_k enc (of_nat i)) \<Longrightarrow>
       \<exists>s \<in> set syms. unat (sid_sbn (sym_id s)) = i \<and> sid_esi (sym_id s) = of_nat k"
  shows "decoder_is_complete (foldl (feed rq) dec syms) \<and>
    decoder_assemble (foldl (feed rq) dec syms) = Some data"
proof -
  from assms(1,3,4) obtain mtu oti bs pad where F: "built_from rq data enc mtu oti bs pad"
    by (blast elim: encoder_new_facts)
  let ?dec = "foldl (feed rq) dec syms"
  have n: "length (dec_blocks dec) = length bs" "num_blocks enc = length bs"
    using assms(5) F by (auto simp: decoder_new_Inr built_from_def num_blocks_def)
  have l255: "length bs \<le> 255" using F unat_lt [of "oti_source_blocks oti"] by (simp add: built_from_def)
  have all: "block_data ?dec i = Some (rq_block_bytes rq (bs ! i))" if i: "i < length bs" for i
  proof -
    have "unat (of_nat i :: u32) = i" using i l255 by (intro unat_of_nat_len) simp
    then have "unat (block_k enc (of_nat i)) = length (rq_source_packets rq (bs ! i))"
      using F i source_block_meta_ok(2) [of rq "bs ! i" "enc_config enc" i]
      by (auto simp: built_from_def block_k_def from_encoder_nth)
    then show ?thesis
      using block_after_feed [OF assms(2) F assms(4,5,6) i] assms(7) [of i] i n by auto
  qed
  then have "decoder_is_complete ?dec" by (simp add: complete_iff n)
  moreover have "decoder_assemble ?dec = Some data"
    using assemble_all [OF F assms(4,5), of ?dec] all by simp
  ultimately show ?thesis by simp
qed

text \<open>
  C13: whatever subset of an object's genuine symbols reaches the decoder, in whatever order
  and with whatever repetitions, \<open>assemble\<close> gives nothing or exactly the object's bytes.
\<close>

theorem codec_never_wrong:
  assumes "encode_contract rq" "decode_contract rq" "encoder_new rq data c0 = Inr enc"
    "length data \<le> 33554432" "decoder_new rq (enc_meta enc) = Inr dec"
    "\<And>s. s \<in> set syms \<Longrightarrow> genuine rq enc s"
  shows "decoder_assemble (foldl (feed rq) dec syms) \<in> {None, Some data}"
  using assms by (rule feed_never_wrong)

text \<open>
  C12: once every source symbol of every block has arrived, whatever else arrived before,
  between and after, the decoder is complete and assembles exactly the encoded bytes.
\<close>

theorem codec_roundtrip:
  assumes "encode_contract rq" "decode_contract rq" "encoder_new rq data c0 = Inr enc"
    "length data \<le> 33554432" "decoder_new rq (enc_meta enc) = Inr dec"
    "\<And>s. s \<in> set syms \<Longrightarrow> genuine rq enc s"
    "\<And>i k. i < num_blocks enc \<Longrightarrow> k < unat (block_k enc (of_nat i)) \<Longrightarrow>
       \<exists>s \<in> set syms. unat (sid_sbn (sym_id s)) = i \<and> sid_esi (sym_id s) = of_nat k"
  shows "decoder_is_complete (foldl (feed rq) dec syms) \<and>
    decoder_assemble (foldl (feed rq) dec syms) = Some data"
  using assms by (rule feed_roundtrip)

end
