(* ===== verification/Reference_Codec.thy ===== *)
theory Reference_Codec
  imports Raptor_Codec
begin

text \<open>
  A concrete systematic codec that meets the contracts the development puts on the upstream
  crate.  It is no model of RaptorQ: its only purpose is to show that the contracts can hold
  and to instantiate the crate in the witnesses.  It splits the object into zero-padded
  symbols, groups them into blocks of at most 56403 symbols, cuts a block into sub-blocks and
  interleaves their sub-symbols in the packets as RFC 6330, 4.4.1.2 says (with the number of
  sub-blocks the crate chooses for a decoder memory of 10 MiB), writes the object transmission
  information in the layout of the RFC, and decodes a block from its source packets alone.
\<close>

function (sequential) chunks :: "nat \<Rightarrow> 'a list \<Rightarrow> 'a list list" where
  "chunks n [] = []"
| "chunks n xs = (if n = 0 then [] else take n xs # chunks n (drop n xs))"
  by pat_completeness auto
termination by (relation "measure (\<lambda>(n, xs). length xs)") auto

lemma concat_chunks: "0 < n \<Longrightarrow> concat (chunks n xs) = xs"
  by (induction n xs rule: chunks.induct) auto

lemma chunks_length_le: "c \<in> set (chunks n xs) \<Longrightarrow> 0 < length c \<and> length c \<le> n"
  by (induction n xs rule: chunks.induct) (auto split: if_splits)

lemma chunks_length_eq: "n dvd length xs \<Longrightarrow> c \<in> set (chunks n xs) \<Longrightarrow> length c = n"
proof (induction n xs rule: chunks.induct)
  case (2 n x xs)
  show ?case
  proof (cases "n = 0")
    case False
    from 2(2) have "n \<le> length (x # xs)" by (rule dvd_imp_le) simp
    moreover have "n dvd length (drop n (x # xs))" using 2(2) by (simp only: length_drop dvd_diff_nat dvd_refl)
    ultimately show ?thesis using 2 False by (auto simp: min_def)
  qed (use 2 in auto)
qed simp

lemma length_chunks: "0 < n \<Longrightarrow> length (chunks n xs) \<le> (length xs + n - 1) div n"
proof (induction n xs rule: chunks.induct)
  case (2 n x xs)
  show ?case
  proof (cases "n \<le> length (x # xs)")
    case True
    then obtain m where "length (x # xs) = n + m" using le_Suc_ex by blast
    moreover have "(n + m + n - 1) div n = Suc ((m + n - 1) div n)"
      using 2(2) div_add_self1 [of n "m + n - 1"] by (simp add: add.assoc)
    ultimately show ?thesis using 2 by simp
  next
    case False
    then have "drop n (x # xs) = []" by simp
    moreover have "1 \<le> (length (x # xs) + n - 1) div n"
      using 2 by (simp add: Suc_le_eq div_greater_zero_iff)
    ultimately show ?thesis using 2 by simp
  qed
qed simp

section \<open>Sub-blocks\<close>

text \<open>
  A block of \<open>k\<close> symbols is cut into one sub-block for each sub-symbol size; a sub-block is \<open>k\<close>
  sub-symbols one after the other.  Packet \<open>i\<close> is the sequence of the \<open>i\<close>-th sub-symbols.
\<close>

definition pieces :: "nat \<Rightarrow> nat \<Rightarrow> 'a list \<Rightarrow> 'a list list" where
  "pieces k t b = map (\<lambda>i. take t (drop (i * t) b)) [0..<k]"

fun pack :: "nat list \<Rightarrow> nat \<Rightarrow> bytes \<Rightarrow> bytes list" where
  "pack [] k b = replicate k []"
| "pack (t # ts) k b = map2 (@) (pieces k t b) (pack ts k (drop (k * t) b))"

fun unpack :: "nat list \<Rightarrow> bytes list \<Rightarrow> bytes" where
  "unpack [] ps = []"
| "unpack (t # ts) ps = concat (map (take t) ps) @ unpack ts (map (drop t) ps)"

lemma length_pieces [simp]: "length (pieces k t b) = k"
  by (simp add: pieces_def)

lemma concat_pieces: "k * t \<le> length b \<Longrightarrow> concat (pieces k t b) = take (k * t) b"
proof (induction k)
  case (Suc k)
  then have "concat (pieces k t b) = take (k * t) b" by simp
  moreover have "take (k * t) b @ take t (drop (k * t) b) = take (k * t + t) b" by (simp add: take_add)
  ultimately show ?case by (simp add: pieces_def add.commute)
qed (simp add: pieces_def)

lemma pieces_sizes: "k * t \<le> length b \<Longrightarrow> p \<in> set (pieces k t b) \<Longrightarrow> length p = t"
proof -
  assume len: "k * t \<le> length b" and "p \<in> set (pieces k t b)"
  then obtain i where "i < k" "p = take t (drop (i * t) b)" by (auto simp: pieces_def)
  moreover from this have "Suc i * t \<le> k * t" by (intro mult_le_mono1) simp
  ultimately show "length p = t" using len by simp
qed

lemma length_pack [simp]: "length (pack ts k b) = k"
  by (induction ts arbitrary: b) simp_all

lemma pack_sizes: "length b = k * sum_list ts \<Longrightarrow> p \<in> set (pack ts k b) \<Longrightarrow> length p = sum_list ts"
proof (induction ts arbitrary: b p)
  case (Cons t ts)
  have b: "k * t \<le> length b" "length (drop (k * t) b) = k * sum_list ts"
    using Cons.prems(1) by (simp_all add: algebra_simps)
  from Cons.prems(2) obtain q r where "p = q @ r" "q \<in> set (pieces k t b)" "r \<in> set (pack ts k (drop (k * t) b))"
    by (auto dest: set_zip_leftD set_zip_rightD)
  with pieces_sizes [OF b(1)] Cons.IH [OF b(2)] show ?case by simp
qed auto

lemma take_map2: "length xs = length ys \<Longrightarrow> (\<And>x. x \<in> set xs \<Longrightarrow> length x = t) \<Longrightarrow>
    map (take t) (map2 (@) xs ys) = xs \<and> map (drop t) (map2 (@) xs ys) = ys"
  by (induction xs ys rule: list_induct2) auto

lemma unpack_pack: "length b = k * sum_list ts \<Longrightarrow> unpack ts (pack ts k b) = b"
proof (induction ts arbitrary: b)
  case (Cons t ts)
  have b: "k * t \<le> length b" "length (drop (k * t) b) = k * sum_list ts"
    using Cons.prems by (simp_all add: algebra_simps)
  have "map (take t) (pack (t # ts) k b) = pieces k t b \<and> map (drop t) (pack (t # ts) k b) = pack ts k (drop (k * t) b)"
    unfolding pack.simps using pieces_sizes [OF b(1)] by (intro take_map2) simp_all
  then show ?case using Cons.IH [OF b(2)] concat_pieces [OF b(1)] by simp
qed simp

text \<open>The sizes of the sub-symbols, in whole units of the alignment, and how many there are.\<close>

definition sub_sizes :: "nat \<Rightarrow> nat \<Rightarrow> nat list" where
  "sub_sizes t n = (let u = t div 8 in
     replicate (u mod n) (8 * (u div n + 1)) @ replicate (n - u mod n) (8 * (u div n)))"

lemma sum_sub_sizes: "0 < n \<Longrightarrow> 8 dvd t \<Longrightarrow> sum_list (sub_sizes t n) = t"
proof -
  assume n: "0 < n" and t: "8 dvd t"
  let ?q = "t div 8 div n" and ?r = "t div 8 mod n"
  have "?r * (?q + 1) + (n - ?r) * ?q = ?r + (?r + (n - ?r)) * ?q" by (simp add: algebra_simps)
  also have "\<dots> = ?r + n * ?q" using n by simp
  also have "\<dots> = t div 8" by simp
  finally have "8 * (?r * (?q + 1) + (n - ?r) * ?q) = t" using t by simp
  then show ?thesis
    by (simp add: sub_sizes_def Let_def sum_list_replicate distrib_left mult.left_commute mult.assoc)
qed

definition sub_blocks_for :: "nat \<Rightarrow> nat \<Rightarrow> nat" where
  "sub_blocks_for t k =
     (case find (\<lambda>n. k \<le> 10485760 div (8 * ((t + 8 * n - 1) div (8 * n)))) [1..<Suc (t div 64)] of
        Some n \<Rightarrow> n
      | None \<Rightarrow> t div 64)"

lemma sub_blocks_range: "64 \<le> t \<Longrightarrow> 0 < sub_blocks_for t k \<and> sub_blocks_for t k \<le> t div 64"
  by (auto simp: sub_blocks_for_def find_Some_iff nth_upt div_greater_zero_iff simp del: upt_Suc split: option.splits)

section \<open>The codec\<close>

definition ref_packets :: "nat \<Rightarrow> bytes \<Rightarrow> bytes list" where
  "ref_packets t data =
     chunks t (data @ replicate ((length data + t - 1) div t * t - length data) 0)"

text \<open>An encoder has the sizes of the sub-symbols and the bytes of its block, a decoder the
  sizes and a slot for each source packet.\<close>

type_synonym ref_enc = "nat list \<times> bytes"
type_synonym ref_dec = "nat list \<times> bytes option list"

definition ref_source :: "ref_enc \<Rightarrow> bytes list" where
  "ref_source e = pack (fst e) (length (snd e) div sum_list (fst e)) (snd e)"

definition ref_encode :: "bytes \<Rightarrow> u16 \<Rightarrow> oti \<times> ref_enc list" where
  "ref_encode data mtu =
     (let t = unat mtu - 4; syms = ref_packets t data; n = sub_blocks_for t (min 56403 (length syms));
          encs = map (\<lambda>b. (sub_sizes t n, concat b)) (chunks 56403 syms) in
      (\<lparr>oti_transfer_length = of_nat (length data), oti_symbol_size = of_nat t,
        oti_source_blocks = of_nat (length encs), oti_sub_blocks = of_nat n, oti_symbol_alignment = 8\<rparr>, encs))"

definition ref_serialize :: "oti \<Rightarrow> bytes" where
  "ref_serialize info =
     be_bytes 5 (oti_transfer_length info) @ 0 # be_bytes 2 (oti_symbol_size info) @
     oti_source_blocks info # be_bytes 2 (oti_sub_blocks info) @ [oti_symbol_alignment info]"

definition ref_deserialize :: "bytes \<Rightarrow> oti" where
  "ref_deserialize bs =
     \<lparr>oti_transfer_length = be_word (slice bs 0 5), oti_symbol_size = be_word (slice bs 6 2),
      oti_source_blocks = bs ! 8, oti_sub_blocks = be_word (slice bs 9 2),
      oti_symbol_alignment = bs ! 11\<rparr>"

definition ref_new :: "u8 \<Rightarrow> oti \<Rightarrow> u64 \<Rightarrow> ref_dec" where
  "ref_new sbn info len = (let t = unat (oti_symbol_size info) in
     (sub_sizes t (unat (oti_sub_blocks info)), replicate (unat len div t) None))"

definition ref_decode :: "ref_dec \<Rightarrow> u8 \<Rightarrow> u32 \<Rightarrow> bytes \<Rightarrow> ref_dec \<times> bytes option" where
  "ref_decode d sbn esi x =
     (let slots = (snd d)[unat esi := Some x] in
      ((fst d, slots), if None \<in> set slots then None else Some (unpack (fst d) (map the slots))))"

definition ref_rq :: "(ref_enc, ref_dec) raptorq" where
  "ref_rq =
     \<lparr>rq_oti_deserialize = ref_deserialize, rq_oti_serialize = ref_serialize,
      rq_encode = ref_encode, rq_source_packets = ref_source, rq_block_bytes = snd,
      rq_repair_packets = (\<lambda>e start count. replicate (unat count) (hd (ref_source e))),
      rq_decoder_new = ref_new, rq_decode = ref_decode\<rparr>"

section \<open>It meets the contracts\<close>

lemma be_word_small:
  assumes "unat w < 2 ^ (8 * n)"
  shows "be_word (be_bytes n w) = (w :: 'a::len word)"
proof (rule bit_word_eqI)
  fix i assume i: "i < LENGTH('a)"
  show "bit (be_word (be_bytes n w) :: 'a word) i \<longleftrightarrow> bit w i"
  proof (cases "i div 8 < n")
    case True
    then have "rev (be_bytes n w) ! (i div 8) = ucast (drop_bit (8 * (i div 8)) w)"
      by (simp add: rev_nth be_bytes_nth)
    with i True show ?thesis by (simp add: bit_be_word bit_simps)
  next
    case False
    then have "8 * n \<le> i" by auto
    then have "unat w < 2 ^ i" using assms less_le_trans power_increasing by fastforce
    then have "\<not> bit (unat w) i" by (simp add: bit_iff_odd)
    then have "\<not> bit w i" by (simp add: bit_unsigned_iff)
    with False show ?thesis by (simp add: bit_be_word)
  qed
qed

lemma ref_oti_round:
  "unat (oti_transfer_length info) < 2 ^ 40 \<Longrightarrow> ref_deserialize (ref_serialize info) = info"
  by (simp add: ref_deserialize_def ref_serialize_def wire_simps be_word_small nth_append)

lemma ref_packets_facts:
  assumes "0 < t" "data \<noteq> []"
  shows "\<exists>pad < t. concat (ref_packets t data) = data @ replicate pad 0"
    "\<And>p. p \<in> set (ref_packets t data) \<Longrightarrow> length p = t"
    "length (ref_packets t data) \<le> (length data + t - 1) div t" "ref_packets t data \<noteq> []"
proof -
  let ?n = "(length data + t - 1) div t"
  let ?pad = "?n * t - length data"
  have "?n * t + (length data + t - 1) mod t = length data + t - 1" by (rule div_mult_mod_eq)
  moreover have "(length data + t - 1) mod t < t" using assms by simp
  ultimately have n: "length data \<le> ?n * t" "?n * t < length data + t" using assms by linarith+
  then show "\<And>p. p \<in> set (ref_packets t data) \<Longrightarrow> length p = t"
    unfolding ref_packets_def by (intro chunks_length_eq) simp_all
  have "concat (ref_packets t data) = data @ replicate ?pad 0"
    using assms by (simp add: ref_packets_def concat_chunks)
  moreover have "?pad < t" using n by linarith
  ultimately show "\<exists>pad < t. concat (ref_packets t data) = data @ replicate pad 0" by blast
  have "?n * t + t - 1 = t - 1 + ?n * t" using assms by simp
  then have "(?n * t + t - 1) div t = ?n" using assms by (simp only: div_mult_self1) simp
  with length_chunks [OF assms(1), of "data @ replicate ?pad 0"] n
  show "length (ref_packets t data) \<le> ?n" by (simp add: ref_packets_def)
  show "ref_packets t data \<noteq> []"
    using assms by (cases data) (auto simp: ref_packets_def)
qed

text \<open>What an encoder of an object is: whole symbols of its block and the sub-symbol sizes.\<close>

definition ref_block :: "nat \<Rightarrow> nat \<Rightarrow> ref_enc \<Rightarrow> bool" where
  "ref_block t n e \<longleftrightarrow> fst e = sub_sizes t n \<and> sum_list (fst e) = t \<and>
     0 < length (snd e) div t \<and> length (snd e) div t \<le> 56403 \<and> t dvd length (snd e)"

lemma ref_source_facts:
  assumes "ref_block t n e"
  shows "length (ref_source e) = length (snd e) div t" "unpack (sub_sizes t n) (ref_source e) = snd e"
    "\<And>p. p \<in> set (ref_source e) \<Longrightarrow> length p = t"
proof -
  have f: "fst e = sub_sizes t n" "sum_list (sub_sizes t n) = t" and "t dvd length (snd e)"
    using assms by (auto simp: ref_block_def)
  then have len: "length (snd e) = (length (snd e) div t) * sum_list (sub_sizes t n)" by simp
  have src: "ref_source e = pack (sub_sizes t n) (length (snd e) div t) (snd e)"
    by (simp add: ref_source_def f)
  show "length (ref_source e) = length (snd e) div t" unfolding src by (rule length_pack)
  show "unpack (sub_sizes t n) (ref_source e) = snd e" unfolding src by (rule unpack_pack [OF len])
  show "length p = t" if "p \<in> set (ref_source e)" for p
    using pack_sizes [OF len, of p] that unfolding src f(2) by blast
qed

lemma concat_map_concat: "concat (map concat xsss) = concat (concat xsss)"
  by (induction xsss) simp_all

lemma ref_encode_facts:
  assumes data: "data \<noteq> []" "length data \<le> 33554432" and mtu: "68 \<le> unat mtu" "unat mtu \<le> 65532" "8 dvd unat mtu - 4"
    and enc: "ref_encode data mtu = (info, encs)"
  obtains n where "0 < n" "n \<le> (unat mtu - 4) div 64"
    "info = \<lparr>oti_transfer_length = of_nat (length data), oti_symbol_size = of_nat (unat mtu - 4),
        oti_source_blocks = of_nat (length encs), oti_sub_blocks = of_nat n, oti_symbol_alignment = 8\<rparr>"
    "length encs \<le> 10" "\<And>e. e \<in> set encs \<Longrightarrow> ref_block (unat mtu - 4) n e"
    "\<exists>pad < unat mtu - 4. concat (map snd encs) = data @ replicate pad 0"
proof -
  define t where "t = unat mtu - 4"
  have t: "64 \<le> t" "t \<le> 65528" "8 dvd t" using mtu by (simp_all add: t_def)
  let ?syms = "ref_packets t data"
  define n where "n = sub_blocks_for t (min 56403 (length ?syms))"
  have n: "0 < n" "n \<le> t div 64" using sub_blocks_range [OF t(1)] by (simp_all add: n_def)
  have encs: "encs = map (\<lambda>b. (sub_sizes t n, concat b)) (chunks 56403 ?syms)"
    and info: "info = \<lparr>oti_transfer_length = of_nat (length data), oti_symbol_size = of_nat t,
        oti_source_blocks = of_nat (length encs), oti_sub_blocks = of_nat n, oti_symbol_alignment = 8\<rparr>"
    using enc by (auto simp: ref_encode_def Let_def t_def n_def)
  note F = ref_packets_facts [of t data]
  have "(length data + t - 1) div t \<le> (length data + t - 1) div 64"
    using t by (intro div_le_mono2) auto
  also have "\<dots> \<le> 525312" using data t by simp
  finally have "length ?syms \<le> 525312" using F(3) data t by simp
  moreover have "length encs \<le> (length ?syms + 56403 - 1) div 56403"
    unfolding encs length_map by (rule length_chunks) simp
  ultimately have len: "length encs \<le> 10" by simp
  have blocks: "ref_block t n e" if e: "e \<in> set encs" for e
  proof -
    obtain b where b: "b \<in> set (chunks 56403 ?syms)" "e = (sub_sizes t n, concat b)" using e by (auto simp: encs)
    have "0 < length b \<and> length b \<le> 56403" using b(1) by (rule chunks_length_le)
    moreover have "set b \<subseteq> set ?syms"
      using b(1) concat_chunks [of 56403 ?syms] by (metis Union_upper image_eqI set_concat zero_less_numeral)
    then have "length (concat b) = length b * t" using F(2) data t by (intro length_concat_same) auto
    ultimately show ?thesis using n t sum_sub_sizes by (auto simp: ref_block_def b(2))
  qed
  have "concat (map snd encs) = concat (concat (chunks 56403 ?syms))"
    by (simp add: encs o_def concat_map_concat)
  then have ex: "\<exists>pad < t. concat (map snd encs) = data @ replicate pad 0"
    using F(1) data t by (simp add: concat_chunks)
  show thesis by (rule that [OF n(1)]) (use n info len blocks ex in \<open>simp_all add: t_def\<close>)
qed

lemma ref_encode_contract: "encode_contract ref_rq"
  unfolding encode_contract_def
proof (intro allI impI, elim conjE)
  fix data :: bytes and mtu :: u16 and info encs
  assume data: "data \<noteq> []" "length data \<le> 33554432" and mtu: "68 \<le> unat mtu" "unat mtu \<le> 65532" "8 dvd unat mtu - 4"
    and "rq_encode ref_rq data mtu = (info, encs)"
  then have enc: "ref_encode data mtu = (info, encs)" by (simp add: ref_rq_def)
  define t where "t = unat mtu - 4"
  have t: "64 \<le> t" "t \<le> 65528" using mtu by (simp_all add: t_def)
  obtain n where n: "0 < n" "n \<le> t div 64"
    and info: "info = \<lparr>oti_transfer_length = of_nat (length data), oti_symbol_size = of_nat t,
        oti_source_blocks = of_nat (length encs), oti_sub_blocks = of_nat n, oti_symbol_alignment = 8\<rparr>"
    and len: "length encs \<le> 10" and blocks: "\<And>e. e \<in> set encs \<Longrightarrow> ref_block t n e"
    and ex: "\<exists>pad < t. concat (map snd encs) = data @ replicate pad 0"
    using ref_encode_facts [OF data mtu enc] unfolding t_def by metis
  have tl: "unat (of_nat (length data) :: u64) = length data" using data by (intro unat_of_nat_len) simp
  have ts: "unat (of_nat t :: u16) = t" using t by (intro unat_of_nat_len) simp
  have tn: "unat (of_nat (length encs) :: u8) = length encs" using len by (intro unat_of_nat_len) simp
  have n8: "n \<le> t div 8" using n(2) div_le_mono2 [of 8 64 t] by simp
  have nn: "unat (of_nat n :: u16) = n" using n t by (intro unat_of_nat_len) simp
  have src: "\<forall>e \<in> set encs. ref_source e \<noteq> [] \<and> length (ref_source e) \<le> 56403 \<and>
      (\<forall>p \<in> set (ref_source e). length p = t) \<and> length (snd e) = length (ref_source e) * t"
  proof
    fix e assume "e \<in> set encs"
    from blocks [OF this] ref_source_facts [OF blocks [OF this]]
    show "ref_source e \<noteq> [] \<and> length (ref_source e) \<le> 56403 \<and>
      (\<forall>p \<in> set (ref_source e). length p = t) \<and> length (snd e) = length (ref_source e) * t"
      by (simp add: ref_block_def flip: length_greater_0_conv)
  qed
  have "ref_deserialize (ref_serialize info) = info" using data by (intro ref_oti_round) (simp add: info tl)
  moreover have "8 dvd t" using mtu by (simp add: t_def)
  moreover have "ref_serialize info ! 5 = 0" "length (ref_serialize info) = 12"
    by (simp_all add: ref_serialize_def nth_append)
  ultimately show "rq_oti_deserialize ref_rq (rq_oti_serialize ref_rq info) = info \<and>
     length (rq_oti_serialize ref_rq info) = 12 \<and> rq_oti_serialize ref_rq info ! 5 = 0 \<and>
     unat (oti_transfer_length info) = length data \<and>
     unat (oti_symbol_size info) = unat mtu - 4 \<and>
     unat (oti_source_blocks info) = length encs \<and>
     0 < unat (oti_symbol_alignment info) \<and> unat (oti_symbol_alignment info) dvd unat mtu - 4 \<and>
     0 < unat (oti_sub_blocks info) \<and>
     unat (oti_sub_blocks info) \<le> (unat mtu - 4) div unat (oti_symbol_alignment info) \<and>
     (\<forall>e \<in> set encs. rq_source_packets ref_rq e \<noteq> [] \<and> length (rq_source_packets ref_rq e) \<le> 56403 \<and>
          (\<forall>p \<in> set (rq_source_packets ref_rq e). length p = unat mtu - 4) \<and>
          length (rq_block_bytes ref_rq e) = length (rq_source_packets ref_rq e) * (unat mtu - 4)) \<and>
     (\<exists>pad. pad < unat mtu - 4 \<and> concat (map (rq_block_bytes ref_rq) encs) = data @ replicate pad 0)"
    using src ex n n8 tl ts tn nn by (simp add: ref_rq_def info t_def [symmetric])
qed

text \<open>The slots of the reference decoder are empty or right, and full slots are the block.\<close>

definition ref_agrees :: "bytes list \<Rightarrow> bytes option list \<Rightarrow> bool" where
  "ref_agrees e d \<longleftrightarrow> length d = length e \<and> (\<forall>j < length e. d ! j = None \<or> d ! j = Some (e ! j))"

lemma ref_agrees_full:
  assumes "ref_agrees e d" "None \<notin> set d"
  shows "map the d = e"
proof (rule nth_equalityI)
  fix j assume j: "j < length (map the d)"
  then have "d ! j \<noteq> None" using assms(2) by (metis length_map nth_mem)
  then show "map the d ! j = e ! j" using assms(1) j by (auto simp: ref_agrees_def)
qed (use assms in \<open>simp add: ref_agrees_def\<close>)

lemma ref_drive:
  assumes "ref_agrees e (snd d)" "None \<in> set (snd d)" "length e \<le> 56403"
    "\<forall>p \<in> set ps. unat (fst p) < length e \<longrightarrow> snd p = e ! unat (fst p)"
  shows "(drive ref_rq d n ps = None \<or> drive ref_rq d n ps = Some (unpack (fst d) e)) \<and>
    ((\<forall>k < length e. snd d ! k \<noteq> None \<or> of_nat k \<in> fst ` set ps) \<longrightarrow> drive ref_rq d n ps = Some (unpack (fst d) e))"
  using assms
proof (induction ps arbitrary: d)
  case Nil
  then show ?case by (auto simp: ref_agrees_def in_set_conv_nth)
next
  case (Cons p ps)
  obtain esi x where p: "p = (esi, x)" by (cases p)
  let ?d = "(fst d, (snd d)[unat esi := Some x])"
  have agree: "ref_agrees e (snd ?d)"
    unfolding ref_agrees_def
  proof (intro conjI allI impI)
    fix j assume "j < length e"
    then show "snd ?d ! j = None \<or> snd ?d ! j = Some (e ! j)"
      using Cons.prems by (cases "j = unat esi") (auto simp: ref_agrees_def p)
  qed (use Cons.prems in \<open>simp add: ref_agrees_def\<close>)
  show ?case
  proof (cases "None \<in> set (snd ?d)")
    case False
    with agree show ?thesis
      using ref_agrees_full [OF agree False] by (simp add: p ref_rq_def ref_decode_def Let_def)
  next
    case True
    have step: "drive ref_rq d n (p # ps) = drive ref_rq ?d n ps"
      using True by (simp add: p ref_rq_def ref_decode_def Let_def)
    have "snd ?d ! k \<noteq> None \<or> of_nat k \<in> fst ` set ps"
      if k: "k < length e" "snd d ! k \<noteq> None \<or> of_nat k \<in> fst ` set (p # ps)" for k
    proof (cases "of_nat k = esi")
      case True
      have "unat (of_nat k :: u32) = k" using k Cons.prems(3) by (intro unat_of_nat_len) simp
      with True k Cons.prems(1) show ?thesis by (auto simp: ref_agrees_def)
    next
      case False
      then have "unat esi \<noteq> k" using word_eq_of_nat by auto
      with k False show ?thesis by (auto simp: p)
    qed
    then show ?thesis using Cons.IH [OF agree True Cons.prems(3)] Cons.prems(4) unfolding step by auto
  qed
qed

lemma ref_decode_contract: "decode_contract ref_rq"
  unfolding decode_contract_def
proof (intro allI impI, elim conjE)
  fix data :: bytes and mtu :: u16 and info encs i and ps :: "(u32 \<times> bytes) list"
  assume data: "data \<noteq> []" "length data \<le> 33554432" and mtu: "68 \<le> unat mtu" "unat mtu \<le> 65532" "8 dvd unat mtu - 4"
    and "rq_encode ref_rq data mtu = (info, encs)" and i: "i < length encs"
    and ps: "\<forall>p \<in> set ps. packet_of ref_rq (encs ! i) p"
  then have enc: "ref_encode data mtu = (info, encs)" by (simp add: ref_rq_def)
  let ?e = "encs ! i" and ?t = "unat mtu - 4"
  obtain n where n: "n \<le> ?t div 64" and info: "info = \<lparr>oti_transfer_length = of_nat (length data), oti_symbol_size = of_nat ?t,
        oti_source_blocks = of_nat (length encs), oti_sub_blocks = of_nat n, oti_symbol_alignment = 8\<rparr>"
    and blocks: "\<And>e. e \<in> set encs \<Longrightarrow> ref_block ?t n e"
    using ref_encode_facts [OF data mtu enc] by metis
  have b: "ref_block ?t n ?e" using blocks i by simp
  note S = ref_source_facts [OF b]
  let ?k = "length (snd ?e) div ?t"
  have k: "0 < ?k" "?k \<le> 56403" and l: "length (snd ?e) = ?k * ?t" using b by (auto simp: ref_block_def)
  have "?k * ?t \<le> 56403 * 65528" using k mtu by (intro mult_mono) auto
  then have ul: "unat (of_nat (length (snd ?e)) :: u64) = length (snd ?e)"
    using l by (intro unat_of_nat_len) simp
  have "unat (of_nat ?t :: u16) = ?t" "unat (of_nat n :: u16) = n"
    by (rule unat_of_nat_len, use n mtu in simp)+
  then have new: "ref_new (of_nat i) info (of_nat (length (snd ?e))) = (sub_sizes ?t n, replicate ?k None)"
    unfolding ref_new_def Let_def ul by (simp add: info)
  have "\<forall>p \<in> set ps. unat (fst p) < length (ref_source ?e) \<longrightarrow> snd p = ref_source ?e ! unat (fst p)"
    using ps by (auto simp: packet_of_def ref_rq_def Let_def)
  then have K: "(drive ref_rq (sub_sizes ?t n, replicate ?k None) (of_nat i) ps = None \<or>
      drive ref_rq (sub_sizes ?t n, replicate ?k None) (of_nat i) ps = Some (snd ?e)) \<and>
    ((\<forall>k < length (ref_source ?e). of_nat k \<in> fst ` set ps) \<longrightarrow>
      drive ref_rq (sub_sizes ?t n, replicate ?k None) (of_nat i) ps = Some (snd ?e))"
    using ref_drive [of "ref_source ?e" "(sub_sizes ?t n, replicate ?k None)" ps "of_nat i"] k S(1,2)
    by (simp add: ref_agrees_def)
  have sel: "rq_block_bytes ref_rq ?e = snd ?e" "rq_source_packets ref_rq ?e = ref_source ?e"
    "rq_decoder_new ref_rq = ref_new" by (simp_all add: ref_rq_def)
  show "let block = rq_block_bytes ref_rq ?e;
      out = drive ref_rq (rq_decoder_new ref_rq (of_nat i) info (of_nat (length block))) (of_nat i) ps
    in (out = None \<or> out = Some block) \<and>
      ((\<forall>k < length (rq_source_packets ref_rq ?e). of_nat k \<in> fst ` set ps) \<longrightarrow> out = Some block)"
    unfolding Let_def sel new by (rule K)
qed

lemma ref_repair_contract: "repair_contract ref_rq"
  unfolding repair_contract_def
proof (intro allI ballI impI, elim conjE)
  fix data :: bytes and mtu :: u16 and info encs e and start count :: u32
  assume data: "data \<noteq> []" "length data \<le> 33554432" and mtu: "68 \<le> unat mtu" "unat mtu \<le> 65532" "8 dvd unat mtu - 4"
    and enc: "rq_encode ref_rq data mtu = (info, encs)" and e: "e \<in> set encs"
  have "ref_source e \<noteq> [] \<and> (\<forall>p \<in> set (ref_source e). length p = unat mtu - 4)"
    using ref_encode_contract [unfolded encode_contract_def, THEN spec, THEN spec, THEN spec, THEN spec,
        of data mtu info encs] data mtu enc e by (simp add: ref_rq_def)
  then show "length (rq_repair_packets ref_rq e start count) = unat count \<and>
      (\<forall>p \<in> set (rq_repair_packets ref_rq e start count). length p = unat mtu - 4)"
    by (simp add: ref_rq_def)
qed

section \<open>A small object\<close>

text \<open>Three bytes in one 64-byte packet: the input the witnesses use.\<close>

definition demo_packet :: bytes where "demo_packet = [1, 2, 3] @ replicate 61 0"

definition demo_oti :: oti where
  "demo_oti = \<lparr>oti_transfer_length = 3, oti_symbol_size = 64, oti_source_blocks = 1,
     oti_sub_blocks = 1, oti_symbol_alignment = 8\<rparr>"

definition demo_meta :: object_meta where
  "demo_meta = \<lparr>m_transfer_length = 3, m_symbol_size = 64,
     m_oti_bytes = [0, 0, 0, 0, 3, 0, 0, 64, 1, 0, 1, 8],
     m_blocks = [\<lparr>b_sbn = 0, b_num_source_symbols = 1, b_block_length = 64\<rparr>]\<rparr>"

definition demo_encoder :: "ref_enc encoder" where
  "demo_encoder = \<lparr>enc_config = \<lparr>cfg_symbol_size = 64\<rparr>, enc_meta = demo_meta,
     enc_blocks = [\<lparr>cb_encoder = ([64], demo_packet), cb_source_packets = [demo_packet]\<rparr>]\<rparr>"

definition demo_decoder :: "ref_dec decoder" where
  "demo_decoder = \<lparr>dec_meta = demo_meta, dec_blocks = [\<lparr>bs_decoder = ([64], [None]), bs_decoded = None\<rparr>]\<rparr>"

definition demo_symbol :: symbol where "demo_symbol = symbol_new 0 0 demo_packet"

lemma length_demo_packet [simp]: "length demo_packet = 64"
  by (simp add: demo_packet_def)

lemma demo_config:
  "config_new 64 = Inr \<lparr>cfg_symbol_size = 64\<rparr>" "config_mtu \<lparr>cfg_symbol_size = 64\<rparr> = Inr 68"
  by (simp_all add: config_new_def config_mtu_def MIN_SYMBOL_SIZE_def MAX_SYMBOL_SIZE_def
      PAYLOAD_ID_SIZE_def checked_add_def try_from_def)

text \<open>An object of one packet is one block of one sub-block.\<close>

lemma single_packet:
  assumes "length p = t" "64 \<le> t" "t \<le> 65528" "8 dvd t"
  shows "sub_blocks_for t (min 56403 (length [p])) = 1" "sub_sizes t 1 = [t]" "ref_source ([t], p) = [p]"
proof -
  have "1 \<le> 10485760 div (8 * ((t + 8 * 1 - 1) div (8 * 1)))"
  proof -
    have "0 < (t + 7) div 8" "8 * ((t + 7) div 8) \<le> t + 7" using assms by (simp_all add: div_greater_zero_iff)
    then show ?thesis using assms by (simp add: div_greater_zero_iff Suc_le_eq)
  qed
  then show "sub_blocks_for t (min 56403 (length [p])) = 1"
    using assms(2) by (simp add: sub_blocks_for_def upt_conv_Cons del: upt_Suc)
  show "sub_sizes t 1 = [t]" using assms(4) by (simp add: sub_sizes_def)
  show "ref_source ([t], p) = [p]" using assms by (simp add: ref_source_def pieces_def)
qed

lemma demo_encode: "ref_encode [1, 2, 3] 68 = (demo_oti, [([64], demo_packet)])"
proof -
  have "ref_packets 64 [1, 2, 3] = [demo_packet]" by (simp add: ref_packets_def demo_packet_def)
  then show ?thesis using single_packet [of demo_packet 64] by (simp add: ref_encode_def demo_oti_def Let_def)
qed

lemma demo_source: "ref_source ([64], demo_packet) = [demo_packet]"
  by (rule single_packet) simp_all

lemma demo_serialize: "ref_serialize demo_oti = [0, 0, 0, 0, 3, 0, 0, 64, 1, 0, 1, 8]"
  by (simp add: ref_serialize_def demo_oti_def be_bytes_numeral)

lemma demo_encoder_new: "encoder_new ref_rq [1, 2, 3] \<lparr>cfg_symbol_size = 64\<rparr> = Inr demo_encoder"
  by (simp add: encoder_new_def demo_config demo_encode ref_rq_def from_encoder_def demo_serialize demo_source
      source_block_meta_of_def demo_encoder_def demo_meta_def)

lemma demo_meta_oti: "meta_oti ref_rq demo_meta = demo_oti"
  using ref_oti_round [of demo_oti]
  by (simp add: meta_oti_def demo_meta_def ref_rq_def demo_serialize) (simp add: demo_oti_def)

lemma demo_decoder_new: "decoder_new ref_rq demo_meta = Inr demo_decoder"
proof -
  have "meta_ok ref_rq demo_meta"
    by (simp add: meta_ok_def oti_ok_def demo_meta_oti) (simp add: demo_meta_def demo_oti_def block_ok_def)
  then show ?thesis
    by (simp add: decoder_new_Inr demo_meta_oti)
      (simp add: demo_decoder_def demo_meta_def ref_rq_def demo_oti_def ref_new_def sub_sizes_def)
qed

lemma demo_genuine: "genuine ref_rq demo_encoder demo_symbol"
  by (simp add: genuine_def demo_symbol_def source_symbol_def encoder_block_def block_k_def
      demo_encoder_def demo_meta_def)

section \<open>A large object\<close>

text \<open>
  An object of 33488904 bytes, a full segment of a large file, in symbols of 65528 bytes: one
  block of 512 symbols in four sub-blocks, whose sub-symbols the packets interleave.  Nothing of
  that size is evaluated; the session is built by lemmas.
\<close>

definition wide_object :: bytes where "wide_object = replicate 33488904 1"

lemma wide_object_length [simp]: "length wide_object = 33488904"
  by (simp only: wide_object_def length_replicate)

lemma wide_config:
  "config_new 65528 = Inr \<lparr>cfg_symbol_size = 65528\<rparr>" "config_mtu \<lparr>cfg_symbol_size = 65528\<rparr> = Inr 65532"
  by (simp_all add: config_new_def config_mtu_def MIN_SYMBOL_SIZE_def MAX_SYMBOL_SIZE_def
      PAYLOAD_ID_SIZE_def checked_add_def try_from_def)

lemma wide_sub_blocks:
  assumes "480 \<le> k" "k \<le> 513"
  shows "sub_blocks_for 65528 k = 4"
proof -
  have "\<exists>rest. [1..<1024] = [1..<5 :: nat] @ rest"
    using upt_add_eq_append [of 1 5 1019] by (intro exI [of _ "[5..<5 + 1019]"]) (simp only: arith_simps)
  then obtain rest where r: "[1..<1024] = [1..<5 :: nat] @ rest" by blast
  have f: "[1..<5 :: nat] = [1, 2, 3, 4]" and n: "Suc (65528 div 64) = 1024" by (simp_all add: upt_rec)
  have "find (\<lambda>n. k \<le> 10485760 div (8 * ((65528 + 8 * n - 1) div (8 * n)))) [1..<Suc (65528 div 64)] = Some 4"
    unfolding n r f using assms by simp
  then show ?thesis by (simp only: sub_blocks_for_def option.case)
qed

lemma wide_encoder:
  assumes "data \<noteq> []" "length data \<le> 33554432"
  shows "\<exists>enc. encoder_new ref_rq data \<lparr>cfg_symbol_size = 65528\<rparr> = Inr enc \<and>
    length (m_blocks (enc_meta enc)) \<le> 1 \<and> m_symbol_size (enc_meta enc) = 65528 \<and>
    (31387912 < length data \<longrightarrow> oti_sub_blocks (meta_oti ref_rq (enc_meta enc)) = 4)"
proof -
  let ?c = "\<lparr>cfg_symbol_size = 65528\<rparr>" and ?pk = "ref_packets 65528 data" and ?e = "rq_encode ref_rq data 65532"
  have e: "?e = ref_encode data 65532" by (simp add: ref_rq_def)
  have P: "\<exists>pad < 65528. concat ?pk = data @ replicate pad 0" "\<And>p. p \<in> set ?pk \<Longrightarrow> length p = 65528"
    using ref_packets_facts(1,2) [of 65528 data] assms(1) by simp_all
  have "length ?pk \<le> (length data + 65527) div 65528"
    using ref_packets_facts(3) [of 65528 data] assms(1) by simp
  also have "\<dots> \<le> (33554432 + 65527) div 65528" using assms(2) by (intro div_le_mono) simp
  finally have n: "length ?pk \<le> 513" by simp
  then have c: "length (snd ?e) \<le> 1"
    using length_chunks [of 56403 ?pk] unfolding e by (simp add: ref_encode_def Let_def)
  have four: "oti_sub_blocks (fst ?e) = 4" if len: "31387912 < length data"
  proof -
    have "length (concat ?pk) = length ?pk * 65528" using P(2) by (rule length_concat_same)
    moreover obtain pad where "concat ?pk = data @ replicate pad 0" using P(1) by blast
    ultimately have "480 \<le> length ?pk" using len by simp
    then have "sub_blocks_for 65528 (min 56403 (length ?pk)) = 4"
      using n by (intro wide_sub_blocks) simp_all
    then show ?thesis unfolding e by (simp add: ref_encode_def Let_def)
  qed
  define enc where "enc =
    \<lparr>enc_config = ?c, enc_meta = from_encoder ref_rq (of_nat (length data)) ?c (fst ?e) (snd ?e),
     enc_blocks = map (\<lambda>b. \<lparr>cb_encoder = b, cb_source_packets = rq_source_packets ref_rq b\<rparr>) (snd ?e)\<rparr>"
  have new: "encoder_new ref_rq data ?c = Inr enc"
    unfolding encoder_new_Inr using assms(1) wide_config by (auto simp: enc_def Let_def)
  then obtain mtu oti bs pad where F: "built_from ref_rq data enc mtu oti bs pad"
    using encoder_new_facts [OF ref_encode_contract _ assms(2)] by blast
  then have "unat mtu = unat (65532 :: u16)" by (auto simp: built_from_def enc_def)
  then have "mtu = 65532" by (simp only: word_unat_eq_iff)
  with F have "meta_oti ref_rq (enc_meta enc) = fst ?e"
    by (auto simp: built_from_def meta_oti_def)
  with new c four show ?thesis by (intro exI [of _ enc]) (simp add: enc_def)
qed

text \<open>All source symbols of an encoder, block by block.\<close>

lemma source_symbols_exist:
  assumes "encoder_new ref_rq data c = Inr enc" "length data \<le> 33554432"
  obtains syms where "\<And>s. s \<in> set syms \<Longrightarrow> genuine ref_rq enc s"
    "\<And>i k. i < num_blocks enc \<Longrightarrow> k < unat (block_k enc (of_nat i)) \<Longrightarrow>
      \<exists>s \<in> set syms. unat (sid_sbn (sym_id s)) = i \<and> sid_esi (sym_id s) = of_nat k"
proof -
  obtain mtu oti bs pad where F: "built_from ref_rq data enc mtu oti bs pad"
    using encoder_new_facts [OF ref_encode_contract assms] by blast
  have n: "num_blocks enc = length bs" using F by (auto simp: built_from_def num_blocks_def)
  have l255: "length bs \<le> 255" using F unat_lt [of "oti_source_blocks oti"] by (simp add: built_from_def)
  have sym: "\<exists>s. genuine ref_rq enc s \<and> unat (sid_sbn (sym_id s)) = i \<and> sid_esi (sym_id s) = of_nat k"
    if i: "i < num_blocks enc" and k: "k < unat (block_k enc (of_nat i))" for i k
  proof -
    have ui: "unat (of_nat i :: u32) = i" using i n l255 by (intro unat_of_nat_len) simp
    then have b: "unat (of_nat i :: u32) < length bs" using i n by simp
    note K = block_k_built [OF F b]
    have "rq_source_packets ref_rq (bs ! i) \<noteq> [] \<and> length (rq_source_packets ref_rq (bs ! i)) \<le> 56403"
      using F i n by (auto simp: built_from_def)
    then have "k < 56403" using K(1) k ui by simp
    then have uk: "unat (of_nat k :: u32) = k" by (intro unat_of_nat_len) simp
    then have lt: "of_nat k < block_k enc (of_nat i)" using k by (simp add: word_less_nat_alt)
    have "unat (of_nat k :: u32) < 16777216" using uk \<open>k < 56403\<close> by simp
    from symbol_available [OF F ref_repair_contract assms(2) b this] lt
    obtain x where x: "source_symbol enc (of_nat i) (of_nat k) = Inr (symbol_new (of_nat i) (of_nat k) x)" by auto
    then have "genuine ref_rq enc (symbol_new (of_nat i) (of_nat k) x)" by (simp add: genuine_def)
    then show ?thesis using ui by (intro exI [of _ "symbol_new (of_nat i) (of_nat k) x"]) simp
  qed
  from sym obtain pick where
    pick: "\<And>i k. i < num_blocks enc \<Longrightarrow> k < unat (block_k enc (of_nat i)) \<Longrightarrow>
      genuine ref_rq enc (pick i k) \<and> unat (sid_sbn (sym_id (pick i k))) = i \<and> sid_esi (sym_id (pick i k)) = of_nat k"
    by metis
  let ?syms = "concat (map (\<lambda>i. map (pick i) [0..<unat (block_k enc (of_nat i))]) [0..<num_blocks enc])"
  show thesis
  proof (rule that [of ?syms])
    show "genuine ref_rq enc s" if "s \<in> set ?syms" for s using that pick by auto
    show "\<exists>s \<in> set ?syms. unat (sid_sbn (sym_id s)) = i \<and> sid_esi (sym_id s) = of_nat k"
      if "i < num_blocks enc" "k < unat (block_k enc (of_nat i))" for i k
    proof (rule bexI [of _ "pick i k"])
      have "pick i k \<in> set (map (pick i) [0..<unat (block_k enc (of_nat i))])" using that(2) by simp
      then show "pick i k \<in> set ?syms" using that(1) unfolding set_concat set_map by force
    qed (use pick [OF that] in blast)
  qed
qed

section \<open>Witnesses of the codec's properties\<close>

lemma repair_symbols_spec_witness:
  "repair_symbols ref_rq demo_encoder 0 5 2 =
     Inr [symbol_new 0 6 demo_packet, symbol_new 0 7 demo_packet]"
proof -
  have "block_k demo_encoder 0 = 1" "length (enc_blocks demo_encoder) = 1"
    by (simp_all add: block_k_def demo_encoder_def demo_meta_def)
  then show ?thesis
    using repair_symbols_spec [of ref_rq demo_encoder 0 5 2 1]
    by (simp add: ref_rq_def upt_conv_Cons) (simp add: demo_encoder_def demo_source)
qed

lemma encoder_meta_validates_witness: "meta_validate ref_rq demo_meta = Inr ()"
  using encoder_meta_validates [OF ref_encode_contract demo_encoder_new] by (simp add: demo_encoder_def)

lemma codec_never_wrong_witness:
  "decoder_assemble (foldl (feed ref_rq) demo_decoder [demo_symbol, demo_symbol]) \<in> {None, Some [1, 2, 3]}"
  by (rule codec_never_wrong [OF ref_encode_contract ref_decode_contract demo_encoder_new])
    (use demo_genuine in \<open>auto simp: demo_decoder_new demo_encoder_def\<close>)

lemma codec_roundtrip_witness:
  "\<exists>enc dec syms. encoder_new ref_rq wide_object \<lparr>cfg_symbol_size = 65528\<rparr> = Inr enc \<and>
     oti_sub_blocks (meta_oti ref_rq (enc_meta enc)) = 4 \<and> decoder_new ref_rq (enc_meta enc) = Inr dec \<and>
     decoder_is_complete (foldl (feed ref_rq) dec syms) \<and>
     decoder_assemble (foldl (feed ref_rq) dec syms) = Some wide_object"
proof -
  have len: "length wide_object \<le> 33554432" "31387912 < length wide_object" "wide_object \<noteq> []"
    by (simp_all flip: length_greater_0_conv)
  obtain enc where enc: "encoder_new ref_rq wide_object \<lparr>cfg_symbol_size = 65528\<rparr> = Inr enc"
    "oti_sub_blocks (meta_oti ref_rq (enc_meta enc)) = 4"
    using wide_encoder [OF len(3,1)] len(2) by blast
  obtain dec where dec: "decoder_new ref_rq (enc_meta enc) = Inr dec"
    using encoder_meta_ok [OF ref_encode_contract enc(1) len(1)] by (simp add: decoder_new_Inr)
  obtain syms where syms: "\<And>s. s \<in> set syms \<Longrightarrow> genuine ref_rq enc s"
    "\<And>i k. i < num_blocks enc \<Longrightarrow> k < unat (block_k enc (of_nat i)) \<Longrightarrow>
      \<exists>s \<in> set syms. unat (sid_sbn (sym_id s)) = i \<and> sid_esi (sym_id s) = of_nat k"
    by (rule source_symbols_exist [OF enc(1) len(1)]) blast
  from codec_roundtrip [OF ref_encode_contract ref_decode_contract enc(1) len(1) dec syms] enc dec show ?thesis
    by blast
qed

lemma complete_decoder_frozen_witness:
  "let dec = foldl (feed ref_rq) demo_decoder [demo_symbol] in
     decoder_is_complete dec \<and> decoder_assemble (foldl (feed ref_rq) dec [demo_symbol]) = decoder_assemble dec"
proof -
  have "decoder_is_complete (foldl (feed ref_rq) demo_decoder [demo_symbol])"
    by (simp add: feed_def add_symbol_def demo_decoder_def demo_symbol_def demo_meta_def ref_rq_def
        ref_decode_def decoder_is_complete_def esi_limit)
  then show ?thesis using complete_decoder_frozen [of _ ref_rq "[demo_symbol]"] by (simp add: Let_def)
qed

end
