(* ===== verification/Ingest_Status.thy ===== *)
theory Ingest_Status
  imports Prelude
begin

text \<open>
  The packed per-frame status, \<open>core/transfer-engine/src/ingest_status.rs\<close>, and its reading
  on the host side: one 64-bit word for the completion and acceptance flags, the session
  mismatch streak and the number of received symbols.
\<close>

definition COMPLETE_BIT :: nat where "COMPLETE_BIT = 0"
definition ACCEPTED_BIT :: nat where "ACCEPTED_BIT = 1"
definition STREAK_OFFSET :: nat where "STREAK_OFFSET = 8"
definition STREAK_WIDTH :: nat where "STREAK_WIDTH = 16"
definition RECEIVED_OFFSET :: nat where "RECEIVED_OFFSET = 32"

definition INGEST_ERROR :: u64 where "INGEST_ERROR = push_bit RECEIVED_OFFSET 0xFFFFFFFF"

definition pack :: "bool \<Rightarrow> bool \<Rightarrow> u32 \<Rightarrow> u32 \<Rightarrow> u64" where
  "pack complete accepted mismatch_streak received_symbols =
     (let bits0 = (0 :: u64);
          bits1 = (if complete then bits0 OR push_bit COMPLETE_BIT 1 else bits0);
          bits2 = (if accepted then bits1 OR push_bit ACCEPTED_BIT 1 else bits1);
          streak_mask = push_bit STREAK_WIDTH 1 - 1;
          bits3 = bits2 OR push_bit STREAK_OFFSET (ucast mismatch_streak AND streak_mask)
      in bits3 OR push_bit RECEIVED_OFFSET (ucast received_symbols))"

text \<open>The documented bit layout, read back.\<close>

definition status_complete :: "u64 \<Rightarrow> bool" where "status_complete w = bit w COMPLETE_BIT"
definition status_accepted :: "u64 \<Rightarrow> bool" where "status_accepted w = bit w ACCEPTED_BIT"
definition status_streak :: "u64 \<Rightarrow> u16" where "status_streak w = ucast (drop_bit STREAK_OFFSET w)"
definition status_received :: "u64 \<Rightarrow> u32" where "status_received w = ucast (drop_bit RECEIVED_OFFSET w)"

lemma pack_bits:
  "bit (pack c a k r) n \<longleftrightarrow>
     (n = 0 \<and> c) \<or> (n = 1 \<and> a) \<or> (8 \<le> n \<and> n < 24 \<and> bit k (n - 8)) \<or>
     (32 \<le> n \<and> n < 64 \<and> bit r (n - 32))"
proof -
  have mask: "push_bit 16 1 - 1 = (mask 16 :: u64)" by (simp add: mask_eq_exp_minus_1 push_bit_eq_mult)
  show ?thesis
    unfolding pack_def Let_def STREAK_WIDTH_def mask
    by (auto simp: bit_simps COMPLETE_BIT_def ACCEPTED_BIT_def STREAK_OFFSET_def RECEIVED_OFFSET_def
        dest: bit_imp_le_length)
qed

lemma pack_fields:
  "status_complete (pack c a k r) = c \<and> status_accepted (pack c a k r) = a \<and>
   status_streak (pack c a k r) = ucast k \<and> status_received (pack c a k r) = r \<and>
   (pack c a k r = INGEST_ERROR \<longleftrightarrow> \<not> c \<and> \<not> a \<and> 65536 dvd unat k \<and> r = - 1)"
proof -
  have c: "status_complete (pack c a k r) = c" and a: "status_accepted (pack c a k r) = a"
    by (simp_all add: status_complete_def status_accepted_def COMPLETE_BIT_def ACCEPTED_BIT_def pack_bits)
  have k: "status_streak (pack c a k r) = ucast k"
    by (rule bit_word_eqI) (simp add: status_streak_def STREAK_OFFSET_def bit_simps pack_bits)
  have r: "status_received (pack c a k r) = r"
    by (rule bit_word_eqI) (simp add: status_received_def RECEIVED_OFFSET_def bit_simps pack_bits)
  have e: "INGEST_ERROR = pack False False 0 (- 1)" by code_simp
  have k0: "(ucast k :: u16) = 0 \<longleftrightarrow> 65536 dvd unat k"
    by (simp add: word_unat_eq_iff unsigned_ucast_eq take_bit_eq_mod mod_eq_0_iff_dvd)
  have "pack c a k r = INGEST_ERROR \<longleftrightarrow> \<not> c \<and> \<not> a \<and> 65536 dvd unat k \<and> r = - 1" (is "?L = ?R")
  proof
    assume ?L
    then have eq: "pack c a k r = pack False False 0 (- 1)" by (simp add: e)
    have "c = False" using c arg_cong [OF eq, of status_complete]
      by (simp add: status_complete_def COMPLETE_BIT_def pack_bits)
    moreover have "a = False" using a arg_cong [OF eq, of status_accepted]
      by (simp add: status_accepted_def ACCEPTED_BIT_def pack_bits)
    moreover have "(ucast k :: u16) = 0"
    proof (rule bit_word_eqI)
      fix n assume "n < LENGTH(16)"
      then show "bit (ucast k :: u16) n \<longleftrightarrow> bit (0 :: u16) n"
        using arg_cong [OF eq, of "\<lambda>w. bit w (8 + n)"] by (simp add: pack_bits bit_simps)
    qed
    moreover have "r = - 1"
    proof (rule bit_word_eqI)
      fix n assume "n < LENGTH(32)"
      then show "bit r n \<longleftrightarrow> bit (- 1 :: u32) n"
        using arg_cong [OF eq, of "\<lambda>w. bit w (32 + n)"] by (simp add: pack_bits bit_simps)
    qed
    ultimately show ?R by (simp add: k0)
  next
    assume R: ?R
    then have "(ucast k :: u16) = 0" by (simp add: k0)
    then have k0': "bit (ucast k :: u16) n \<longleftrightarrow> bit (0 :: u16) n" for n by simp
    have z: "\<not> bit k n" if "n < 16" for n
      using that k0' [of n] by (simp add: bit_unsigned_iff)
    show ?L
    proof (rule bit_word_eqI)
      fix n assume n: "n < LENGTH(64)"
      have "8 \<le> n \<Longrightarrow> n < 24 \<Longrightarrow> \<not> bit k (n - 8)" by (rule z) linarith
      with n show "bit (pack c a k r) n \<longleftrightarrow> bit INGEST_ERROR n"
        using R by (auto simp: e pack_bits bit_simps)
    qed
  qed
  with c a k r show ?thesis by blast
qed

text \<open>
  The packed status reads back losslessly, except that the mismatch streak is reduced
  modulo \<open>2 ^ 16\<close> (the code masks it, it does not clamp it), and no status with a received
  count below the maximum is mistaken for the error sentinel.
\<close>

lemma pack_roundtrip:
  "status_complete (pack c a k r) = c \<and> status_accepted (pack c a k r) = a \<and>
   status_streak (pack c a k r) = ucast k \<and> status_received (pack c a k r) = r \<and>
   (pack c a k r = INGEST_ERROR \<longleftrightarrow> \<not> c \<and> \<not> a \<and> 65536 dvd unat k \<and> r = - 1)"
  by (rule pack_fields)

end
