(* ===== verification/Frame.thy ===== *)
theory Frame
  imports Prelude
begin

text \<open>
  The QR frame of \<open>core/qr-protocol/src/frame.rs\<close>: 60 header bytes, one payload, a 4-byte
  footer, with a CRC of the payload in the header and a CRC of header and payload in the
  footer.  The CRC function belongs to the \<open>crc32fast\<close> crate and is the parameter \<open>crc\<close>.
  The parser is shown to accept exactly the bytes the serializer writes.
\<close>

section \<open>Errors of the protocol crate\<close>

datatype qr_error =
  BufferTooShort nat nat
| BadMagic u16 u16
| BadVersion u8
| FrameCrcMismatch
| PayloadCrcMismatch
| BadSymbolSize u32
| LengthMismatch nat nat
| CompressError string

section \<open>Frames\<close>

definition MAGIC :: u16 where "MAGIC = 0x4554"
definition PROTOCOL_VERSION :: u8 where "PROTOCOL_VERSION = 1"
definition FRAME_HEADER_SIZE :: nat where "FRAME_HEADER_SIZE = 60"
definition FRAME_FOOTER_SIZE :: nat where "FRAME_FOOTER_SIZE = 4"
definition FLAG_DESCRIPTOR :: u8 where "FLAG_DESCRIPTOR = 1"

record frame_header =
  fh_session_id :: u128
  fh_flags :: u8
  fh_sbn :: u32
  fh_esi :: u32
  fh_total_blocks :: u32
  fh_total_symbols :: u32
  fh_symbol_size :: u32
  fh_frame_index :: u64
  fh_timestamp_ms :: u64
  fh_payload_crc32 :: u32

record frame =
  fr_header :: frame_header
  fr_payload :: bytes
  fr_crc32 :: u32

text \<open>A 64-bit \<open>usize\<close> never saturates on a 32-bit symbol size.\<close>

definition wire_size :: "u32 \<Rightarrow> nat" where
  "wire_size symbol_size = FRAME_HEADER_SIZE + unat symbol_size + FRAME_FOOTER_SIZE"

definition write_header :: "frame_header \<Rightarrow> bytes" where
  "write_header h =
     be_bytes 2 MAGIC @ PROTOCOL_VERSION # fh_flags h # be_bytes 16 (fh_session_id h) @
     be_bytes 4 (fh_sbn h) @ be_bytes 4 (fh_esi h) @ be_bytes 4 (fh_total_blocks h) @
     be_bytes 4 (fh_total_symbols h) @ be_bytes 4 (fh_symbol_size h) @
     be_bytes 8 (fh_frame_index h) @ be_bytes 8 (fh_timestamp_ms h) @
     be_bytes 4 (fh_payload_crc32 h)"

definition read_header :: "bytes \<Rightarrow> (frame_header, qr_error) result" where
  "read_header bs =
     (let h = take FRAME_HEADER_SIZE bs; magic = be_word (slice h 0 2) in
      if magic \<noteq> MAGIC then Inl (BadMagic MAGIC magic)
      else if h ! 2 \<noteq> PROTOCOL_VERSION then Inl (BadVersion (h ! 2))
      else Inr \<lparr>fh_session_id = be_word (slice h 4 16),
                fh_flags = h ! 3,
                fh_sbn = be_word (slice h 20 4),
                fh_esi = be_word (slice h 24 4),
                fh_total_blocks = be_word (slice h 28 4),
                fh_total_symbols = be_word (slice h 32 4),
                fh_symbol_size = be_word (slice h 36 4),
                fh_frame_index = be_word (slice h 40 8),
                fh_timestamp_ms = be_word (slice h 48 8),
                fh_payload_crc32 = be_word (slice h 56 4)\<rparr>)"

definition frame_build ::
  "(bytes \<Rightarrow> u32) \<Rightarrow> u128 \<Rightarrow> u8 \<Rightarrow> u32 \<Rightarrow> u32 \<Rightarrow> u32 \<Rightarrow> u32 \<Rightarrow> u32 \<Rightarrow> u64 \<Rightarrow> u64 \<Rightarrow> bytes \<Rightarrow> frame" where
  "frame_build crc session_id flags sbn esi total_blocks total_symbols symbol_size frame_index
     timestamp_ms payload =
     (let header = \<lparr>fh_session_id = session_id, fh_flags = flags, fh_sbn = sbn, fh_esi = esi,
                    fh_total_blocks = total_blocks, fh_total_symbols = total_symbols,
                    fh_symbol_size = symbol_size, fh_frame_index = frame_index,
                    fh_timestamp_ms = timestamp_ms, fh_payload_crc32 = crc payload\<rparr>
      in \<lparr>fr_header = header, fr_payload = payload,
          fr_crc32 = crc (write_header header @ payload)\<rparr>)"

definition frame_to_bytes :: "frame \<Rightarrow> bytes" where
  "frame_to_bytes f = write_header (fr_header f) @ fr_payload f @ be_bytes 4 (fr_crc32 f)"

definition frame_from_bytes :: "(bytes \<Rightarrow> u32) \<Rightarrow> bytes \<Rightarrow> (frame, qr_error) result" where
  "frame_from_bytes crc bs =
     (let need = FRAME_HEADER_SIZE + FRAME_FOOTER_SIZE in
      if length bs < need then Inl (BufferTooShort need (length bs))
      else bind_result (read_header bs) (\<lambda>header.
        let symbol_size = unat (fh_symbol_size header) in
        if symbol_size \<noteq> length bs - need
        then Inl (LengthMismatch (symbol_size + need) (length bs))
        else let payload_end = FRAME_HEADER_SIZE + symbol_size;
                 payload = slice bs FRAME_HEADER_SIZE symbol_size;
                 footer = drop payload_end bs;
                 expected = be_word (slice footer 0 4)
          in if crc payload \<noteq> fh_payload_crc32 header then Inl PayloadCrcMismatch
             else if crc (take payload_end bs) \<noteq> expected then Inl FrameCrcMismatch
             else Inr \<lparr>fr_header = header, fr_payload = payload, fr_crc32 = expected\<rparr>))"

section \<open>The header\<close>

lemma length_write_header [simp, wire_simps]: "length (write_header h) = 60"
  by (simp add: write_header_def)

lemma read_write_header: "read_header (write_header h @ rest) = Inr h"
  by (simp add: read_header_def write_header_def FRAME_HEADER_SIZE_def wire_simps nth_append
      PROTOCOL_VERSION_def)

lemma slice_chain: "slice xs i n @ slice xs (i + n) m = slice xs i (n + m)"
  unfolding slice_def take_add drop_drop by (simp add: add.commute)

lemma slice_nth: "i < length xs \<Longrightarrow> slice xs i 1 = [xs ! i]"
  by (simp add: slice_def take_Suc_conv_app_nth Cons_nth_drop_Suc [symmetric])

text \<open>An accepted header is written back to the 60 bytes it was read from.\<close>

lemma write_read_header:
  assumes "read_header bs = Inr h" "60 \<le> length bs"
  shows "write_header h = take 60 bs"
proof -
  let ?h = "take 60 bs"
  have len: "length ?h = 60" using assms by simp
  have magic: "be_word (slice ?h 0 2) = MAGIC" "?h ! 2 = PROTOCOL_VERSION"
    using assms(1) by (auto simp: read_header_def Let_def FRAME_HEADER_SIZE_def split: if_splits)
  then have m: "be_bytes 2 MAGIC = slice ?h 0 2"
    using field16.write_back [of 0 ?h] len by simp
  have v: "slice ?h 2 2 = [PROTOCOL_VERSION, ?h ! 3]"
    using len magic slice_nth [of 2 ?h] slice_nth [of 3 ?h] slice_chain [of ?h 2 1 1]
    by (simp add: numeral_2_eq_2 numeral_3_eq_3)
  have "write_header h = slice ?h 0 2 @ slice ?h 2 2 @ slice ?h 4 16 @ slice ?h 20 4 @ slice ?h 24 4 @
      slice ?h 28 4 @ slice ?h 32 4 @ slice ?h 36 4 @ slice ?h 40 8 @ slice ?h 48 8 @ slice ?h 56 4"
    using assms(1) len
    by (auto simp: read_header_def Let_def FRAME_HEADER_SIZE_def write_header_def m v field_write_back
        split: if_splits)
  also have "\<dots> = slice ?h 0 60"
    using slice_chain [of ?h 0 2 58] slice_chain [of ?h 2 2 56] slice_chain [of ?h 4 16] slice_chain [of ?h 20 4]
      slice_chain [of ?h 24 4] slice_chain [of ?h 28 4] slice_chain [of ?h 32 4] slice_chain [of ?h 36 4]
      slice_chain [of ?h 40 8] slice_chain [of ?h 48 8] by (simp del: add_2_eq_Suc add_2_eq_Suc')
  finally show ?thesis by (simp add: slice_def)
qed

section \<open>The frame\<close>

text \<open>A frame whose sizes and checksums agree with its contents.\<close>

definition frame_valid :: "(bytes \<Rightarrow> u32) \<Rightarrow> frame \<Rightarrow> bool" where
  "frame_valid crc f \<longleftrightarrow>
     length (fr_payload f) = unat (fh_symbol_size (fr_header f)) \<and>
     fh_payload_crc32 (fr_header f) = crc (fr_payload f) \<and>
     fr_crc32 f = crc (write_header (fr_header f) @ fr_payload f)"

lemma frame_to_bytes_length:
  "frame_valid crc f \<Longrightarrow> length (frame_to_bytes f) = wire_size (fh_symbol_size (fr_header f))"
  by (simp add: frame_to_bytes_def wire_simps frame_valid_def wire_size_def FRAME_HEADER_SIZE_def FRAME_FOOTER_SIZE_def)

lemma from_to_bytes:
  assumes "frame_valid crc f"
  shows "frame_from_bytes crc (frame_to_bytes f) = Inr f"
proof -
  let ?bs = "frame_to_bytes f" and ?n = "unat (fh_symbol_size (fr_header f))"
  have h: "read_header ?bs = Inr (fr_header f)" by (simp add: frame_to_bytes_def read_write_header)
  have p: "slice ?bs 60 ?n = fr_payload f" "take (60 + ?n) ?bs = write_header (fr_header f) @ fr_payload f"
    "slice (drop (60 + ?n) ?bs) 0 4 = be_bytes 4 (fr_crc32 f)" "length ?bs = 64 + ?n"
    using assms by (simp_all add: frame_to_bytes_def wire_simps frame_valid_def)
  show ?thesis using assms
    by (simp add: frame_from_bytes_def FRAME_HEADER_SIZE_def FRAME_FOOTER_SIZE_def h p frame_valid_def
        Let_def field32.get_put)
qed

lemma from_bytes_valid:
  assumes "frame_from_bytes crc bs = Inr f"
  shows "frame_valid crc f \<and> bs = frame_to_bytes f"
proof -
  from assms obtain h where len: "64 \<le> length bs" and h: "read_header bs = Inr h"
    and s: "unat (fh_symbol_size h) = length bs - 64"
    and f: "f = \<lparr>fr_header = h, fr_payload = slice bs 60 (length bs - 64),
       fr_crc32 = be_word (slice bs (60 + (length bs - 64)) 4)\<rparr>"
    and c: "crc (slice bs 60 (length bs - 64)) = fh_payload_crc32 h"
      "crc (take (60 + (length bs - 64)) bs) = be_word (slice bs (60 + (length bs - 64)) 4)"
    by (auto simp: frame_from_bytes_def Let_def FRAME_HEADER_SIZE_def FRAME_FOOTER_SIZE_def slice_def
        split: if_splits)
  let ?n = "length bs - 64"
  have w: "write_header h = slice bs 0 60" using write_read_header [OF h] len by (simp add: slice_def)
  have t: "take (60 + ?n) bs = write_header h @ slice bs 60 ?n"
    using slice_chain [of bs 0 60 ?n] by (simp add: w) (simp add: slice_def)
  have "be_bytes 4 (be_word (slice bs (60 + ?n) 4) :: u32) = slice bs (60 + ?n) 4"
    using len by (intro field32.write_back) simp
  moreover have "slice bs 0 60 @ slice bs 60 ?n @ slice bs (60 + ?n) 4 = bs"
    using slice_chain [of bs 0 60 "?n + 4"] slice_chain [of bs 60 ?n 4] len by (simp add: slice_def)
  ultimately have "bs = frame_to_bytes f" by (simp add: frame_to_bytes_def f w)
  moreover have "frame_valid crc f" using len s c t by (simp add: frame_valid_def f length_slice)
  ultimately show ?thesis by simp
qed

interpretation frames: exact_format frame_to_bytes "frame_from_bytes crc" "frame_valid crc" for crc
  by unfold_locales (use from_to_bytes from_bytes_valid in blast)

lemma frame_build_valid:
  "length payload = unat symbol_size \<Longrightarrow>
   frame_valid crc (frame_build crc sid flags sbn esi tb ts symbol_size idx tms payload)"
  by (simp add: frame_build_def frame_valid_def Let_def)

text \<open>
  C39: \<open>Frame::from_bytes\<close> accepts a byte string exactly when it is the serialization of a
  frame with matching length and checksums, and then returns that frame: parsing inverts
  \<open>to_bytes\<close>, no frame has two encodings and trailing or missing bytes are refused.
\<close>

theorem frame_parse_exact:
  "frame_from_bytes crc bs = Inr f \<longleftrightarrow> frame_valid crc f \<and> bs = frame_to_bytes f"
  by (rule frames.dec_exact)

text \<open>
  A frame built by \<open>Frame::build\<close> survives the trip over the screen: every field and
  the payload come back, and the buffer has the advertised \<open>wire_size\<close>.
\<close>

lemma frame_build_roundtrip:
  assumes "length payload = unat symbol_size"
    and f_def: "f = frame_build crc sid flags sbn esi tb ts symbol_size idx tms payload"
  shows "frame_from_bytes crc (frame_to_bytes f) = Inr f \<and>
    length (frame_to_bytes f) = wire_size symbol_size \<and> fr_payload f = payload \<and>
    fh_session_id (fr_header f) = sid \<and> fh_flags (fr_header f) = flags \<and>
    fh_sbn (fr_header f) = sbn \<and> fh_esi (fr_header f) = esi \<and> fh_frame_index (fr_header f) = idx"
proof -
  have "frame_from_bytes crc (frame_to_bytes f) = Inr f"
    unfolding f_def by (intro frames.dec_enc frame_build_valid assms)
  then show ?thesis using assms(1)
    by (simp add: f_def frame_build_def Let_def frame_to_bytes_def wire_size_def FRAME_HEADER_SIZE_def
        FRAME_FOOTER_SIZE_def)
qed

lemma frame_build_roundtrip_witness:
  "frame_from_bytes (\<lambda>bs. of_nat (length bs))
     (frame_to_bytes (frame_build (\<lambda>bs. of_nat (length bs)) 7 0 0 5 1 1 2 9 3 [10, 11])) =
   Inr (frame_build (\<lambda>bs. of_nat (length bs)) 7 0 0 5 1 1 2 9 3 [10, 11])"
  using frame_build_roundtrip [of "[10, 11]" 2 _ "\<lambda>bs. of_nat (length bs)" 7 0 0 5 1 1 9 3, OF _ refl] by simp

text \<open>
  Every rejection names its cause, in the order the parser checks: too short for header
  and footer, wrong magic, wrong version, length other than the declared symbol size, payload
  checksum, frame checksum.
\<close>

lemma frame_parse_errors:
  "frame_from_bytes crc bs = Inl e \<longleftrightarrow>
    (let h = take 60 bs; n = length bs - 64; declared = unat (be_word (slice bs 36 4) :: u32);
         magic = be_word (slice bs 0 2) in
     if length bs < 64 then e = BufferTooShort 64 (length bs)
     else if magic \<noteq> MAGIC then e = BadMagic MAGIC magic
     else if bs ! 2 \<noteq> 1 then e = BadVersion (bs ! 2)
     else if declared \<noteq> n then e = LengthMismatch (declared + 64) (length bs)
     else if crc (slice bs 60 n) \<noteq> be_word (slice bs 56 4) then e = PayloadCrcMismatch
     else crc (take (60 + n) bs) \<noteq> be_word (slice bs (60 + n) 4) \<and> e = FrameCrcMismatch)"
  by (auto simp: frame_from_bytes_def read_header_def Let_def FRAME_HEADER_SIZE_def FRAME_FOOTER_SIZE_def
      PROTOCOL_VERSION_def slice_of_take slice_def [of "drop _ _"] drop_drop slice_def [symmetric] add.commute)

end
