(* ===== verification/Qr_Render.thy ===== *)
theory Qr_Render
  imports Frame
begin

text \<open>
  Choosing the QR version, \<open>core/qr-protocol/src/qr_render.rs\<close>: the capacity table at error
  correction level L, the smallest version that holds a frame, and the walk upward over the
  versions the symbol generator rejects.  The generator is the parameter \<open>build\<close>: the modules and
  the side length for some data at a version, or a refusal (\<open>Fast_Qr\<close> has the vendored one).
\<close>

definition QR_MAX_BYTES :: nat where "QR_MAX_BYTES = 2953"

definition QR_BYTE_CAPACITY_L :: "nat list" where
  "QR_BYTE_CAPACITY_L =
    [17, 32, 53, 78, 106, 134, 154, 192, 230, 271, 321, 367, 425, 458, 520, 586, 644, 718, 792, 858,
     929, 1003, 1091, 1171, 1273, 1367, 1465, 1528, 1628, 1732, 1840, 1952, 2068, 2188, 2303, 2431,
     2563, 2699, 2809, 2953]"

text \<open>\<open>fast_qr::Version\<close> is an enumeration with discriminants 0 to 39.\<close>

definition VERSIONS :: "nat list" where "VERSIONS = [0..<40]"

fun position :: "('a \<Rightarrow> bool) \<Rightarrow> 'a list \<Rightarrow> nat option" where
  "position P [] = None"
| "position P (x # xs) = (if P x then Some 0 else map_option Suc (position P xs))"

definition min_version_for :: "nat \<Rightarrow> u8 option" where
  "min_version_for len = map_option (\<lambda>i. of_nat (i + 1)) (position (\<lambda>cap. len \<le> cap) QR_BYTE_CAPACITY_L)"

record qr_matrix =
  qr_modules :: "bool list"
  qr_size :: nat

definition qr_get :: "qr_matrix \<Rightarrow> nat \<Rightarrow> nat \<Rightarrow> bool" where
  "qr_get m x y = qr_modules m ! (y * qr_size m + x)"

text \<open>The loop \<open>for v in start..=40\<close> over the remaining versions.\<close>

fun encode_walk :: "(bytes \<Rightarrow> nat \<Rightarrow> (bool list \<times> nat) option) \<Rightarrow> bytes \<Rightarrow> nat list \<Rightarrow> (qr_matrix, qr_error) result" where
  "encode_walk build data [] = Inl (BufferTooShort QR_MAX_BYTES (length data))"
| "encode_walk build data (v # vs) =
     (case build data (VERSIONS ! (v - 1)) of
        Some (modules, size1) \<Rightarrow> Inr \<lparr>qr_modules = take (size1 * size1) modules, qr_size = size1\<rparr>
      | None \<Rightarrow> encode_walk build data vs)"

definition qr_encode :: "(bytes \<Rightarrow> nat \<Rightarrow> (bool list \<times> nat) option) \<Rightarrow> bytes \<Rightarrow> (qr_matrix, qr_error) result" where
  "qr_encode build data =
     bind_result (ok_or (BufferTooShort QR_MAX_BYTES (length data)) (min_version_for (length data)))
       (\<lambda>start. encode_walk build data [unat start..<41])"

lemma position_Some:
  "position P xs = Some i \<longleftrightarrow> i < length xs \<and> P (xs ! i) \<and> (\<forall>j < i. \<not> P (xs ! j))"
proof (induction P xs arbitrary: i rule: position.induct)
  case (2 P x xs)
  then show ?case by (cases i) (auto simp: nth_Cons' less_Suc_eq_0_disj split: nat.splits)
qed simp

lemma position_None: "position P xs = None \<longleftrightarrow> (\<forall>x \<in> set xs. \<not> P x)"
  by (induction xs) auto

lemma capacity_length [simp]: "length QR_BYTE_CAPACITY_L = 40"
  by (simp add: QR_BYTE_CAPACITY_L_def)

lemma capacity_sorted: "sorted_wrt (<) QR_BYTE_CAPACITY_L"
  by (simp add: QR_BYTE_CAPACITY_L_def)

lemma capacity_le: "c \<in> set QR_BYTE_CAPACITY_L \<Longrightarrow> c \<le> 2953"
  by (auto simp: QR_BYTE_CAPACITY_L_def)

lemma min_version_Some:
  "min_version_for len = Some v \<longleftrightarrow>
     1 \<le> unat v \<and> unat v \<le> 40 \<and> len \<le> QR_BYTE_CAPACITY_L ! (unat v - 1) \<and>
     (\<forall>w. 1 \<le> w \<and> w < unat v \<longrightarrow> QR_BYTE_CAPACITY_L ! (w - 1) < len)" (is "?L \<longleftrightarrow> ?R")
proof
  assume ?L
  then obtain i where i: "position (\<lambda>cap. len \<le> cap) QR_BYTE_CAPACITY_L = Some i" and v: "v = of_nat (i + 1)"
    by (auto simp: min_version_for_def)
  from i have p: "i < 40" "len \<le> QR_BYTE_CAPACITY_L ! i" "\<forall>j < i. \<not> len \<le> QR_BYTE_CAPACITY_L ! j"
    by (auto simp: position_Some)
  have "unat v = i + 1" unfolding v using p by (intro unat_of_nat_len) simp
  with p show ?R by (auto simp: not_le)
next
  assume R: ?R
  have "\<forall>j < unat v - 1. \<not> len \<le> QR_BYTE_CAPACITY_L ! j"
  proof (intro allI impI)
    fix j assume "j < unat v - 1"
    with R show "\<not> len \<le> QR_BYTE_CAPACITY_L ! j" by (auto dest!: spec [of _ "Suc j"] simp: not_le)
  qed
  with R have "position (\<lambda>cap. len \<le> cap) QR_BYTE_CAPACITY_L = Some (unat v - 1)"
    by (auto simp: position_Some)
  moreover have "v = of_nat (unat v - 1 + 1)" using R by simp
  ultimately show ?L by (simp add: min_version_for_def)
qed

lemma min_version_None: "min_version_for len = None \<longleftrightarrow> 2953 < len"
proof -
  have "2953 \<in> set QR_BYTE_CAPACITY_L" by (simp add: QR_BYTE_CAPACITY_L_def)
  then show ?thesis using capacity_le by (fastforce simp: min_version_for_def position_None)
qed

lemma encode_walk_find:
  "set vs \<subseteq> {1..40} \<Longrightarrow> encode_walk build data vs =
     (case List.find (\<lambda>v. build data (v - 1) \<noteq> None) vs of
        None \<Rightarrow> Inl (BufferTooShort QR_MAX_BYTES (length data))
      | Some v \<Rightarrow> (case the (build data (v - 1)) of
          (modules, n) \<Rightarrow> Inr \<lparr>qr_modules = take (n * n) modules, qr_size = n\<rparr>))"
proof (induction vs)
  case (Cons v vs)
  then have "VERSIONS ! (v - 1) = v - 1" by (auto simp: VERSIONS_def)
  with Cons show ?case by (auto split: option.splits)
qed simp

lemma find_upt:
  "List.find P [a..<b] = Some v \<longleftrightarrow> a \<le> v \<and> v < b \<and> P v \<and> (\<forall>w. a \<le> w \<and> w < v \<longrightarrow> \<not> P w)"
proof (induction "b - a" arbitrary: a)
  case (Suc n)
  then have ab: "a < b" "n = b - Suc a" by simp_all
  show ?case
  proof (cases "P a")
    case True
    with ab show ?thesis by (auto simp: upt_conv_Cons intro: le_neq_implies_less)
  next
    case False
    with ab Suc.hyps(1) [of "Suc a"] show ?thesis
      by (auto simp: upt_conv_Cons Suc_le_eq dest: le_neq_implies_less)
  qed
qed simp

text \<open>
  \<open>min_version_for\<close> returns the smallest of the 40 versions whose capacity holds the
  frame, and none exactly when the frame exceeds 2953 bytes.
\<close>

lemma min_version_minimal:
  "(min_version_for len = None \<longleftrightarrow> QR_MAX_BYTES < len) \<and>
   (min_version_for len = Some v \<longleftrightarrow>
     1 \<le> unat v \<and> unat v \<le> 40 \<and> len \<le> QR_BYTE_CAPACITY_L ! (unat v - 1) \<and>
     (\<forall>w. \<not> (1 \<le> w \<and> w < unat v \<and> len \<le> QR_BYTE_CAPACITY_L ! (w - 1))))"
  unfolding min_version_Some min_version_None by (auto simp: QR_MAX_BYTES_def not_le Suc_le_eq)

text \<open>
  A rendered code is the generator's output at the first version from the table's
  suggestion upward that the generator accepts, cut to its square; rendering fails only when
  the frame is too long or every such version is refused.
\<close>

lemma qr_encode_first_accepted:
  "qr_encode build data = Inr m \<longleftrightarrow>
    (\<exists>start v modules. min_version_for (length data) = Some start \<and> unat start \<le> v \<and> v \<le> 40 \<and>
       build data (v - 1) = Some (modules, qr_size m) \<and>
       qr_modules m = take (qr_size m * qr_size m) modules \<and>
       (\<forall>w. \<not> (unat start \<le> w \<and> w < v \<and> build data (w - 1) \<noteq> None)))"
proof (cases "min_version_for (length data)")
  case None
  then show ?thesis by (simp add: qr_encode_def)
next
  case (Some start)
  then have s: "1 \<le> unat start" by (simp add: min_version_Some)
  have walk: "qr_encode build data = (case List.find (\<lambda>v. build data (v - 1) \<noteq> None) [unat start..<41] of
        None \<Rightarrow> Inl (BufferTooShort QR_MAX_BYTES (length data))
      | Some v \<Rightarrow> (case the (build data (v - 1)) of
          (modules, n) \<Rightarrow> Inr \<lparr>qr_modules = take (n * n) modules, qr_size = n\<rparr>))"
    using s by (simp add: qr_encode_def Some encode_walk_find subset_iff)
  show ?thesis
  proof
    assume "qr_encode build data = Inr m"
    then obtain v where f: "List.find (\<lambda>v. build data (v - 1) \<noteq> None) [unat start..<41] = Some v"
      and m: "(case the (build data (v - 1)) of
          (modules, n) \<Rightarrow> Inr \<lparr>qr_modules = take (n * n) modules, qr_size = n\<rparr>) = (Inr m :: (qr_matrix, qr_error) result)"
      by (auto simp: walk split: option.splits)
    have v: "unat start \<le> v" "v < 41" "build data (v - 1) \<noteq> None"
      "\<forall>w. unat start \<le> w \<and> w < v \<longrightarrow> build data (w - 1) = None"
      using f [unfolded find_upt] by blast+
    obtain modules n where b: "build data (v - 1) = Some (modules, n)" using v(3) by fast
    with m have "m = \<lparr>qr_modules = take (n * n) modules, qr_size = n\<rparr>" by simp
    with v b Some show "\<exists>start v modules. min_version_for (length data) = Some start \<and> unat start \<le> v \<and> v \<le> 40 \<and>
       build data (v - 1) = Some (modules, qr_size m) \<and>
       qr_modules m = take (qr_size m * qr_size m) modules \<and>
       (\<forall>w. \<not> (unat start \<le> w \<and> w < v \<and> build data (w - 1) \<noteq> None))"
      by (intro exI [of _ start] exI [of _ v] exI [of _ modules]) simp
  next
    assume "\<exists>start v modules. min_version_for (length data) = Some start \<and> unat start \<le> v \<and> v \<le> 40 \<and>
       build data (v - 1) = Some (modules, qr_size m) \<and>
       qr_modules m = take (qr_size m * qr_size m) modules \<and>
       (\<forall>w. \<not> (unat start \<le> w \<and> w < v \<and> build data (w - 1) \<noteq> None))"
    with Some obtain v modules where v: "unat start \<le> v" "v \<le> 40" "build data (v - 1) = Some (modules, qr_size m)"
      "qr_modules m = take (qr_size m * qr_size m) modules"
      "\<forall>w. \<not> (unat start \<le> w \<and> w < v \<and> build data (w - 1) \<noteq> None)" by auto
    then have "List.find (\<lambda>v. build data (v - 1) \<noteq> None) [unat start..<41] = Some v"
      unfolding find_upt by simp
    with v show "qr_encode build data = Inr m" by (simp add: walk)
  qed
qed

end
