(* ===== verification/Utf8.thy ===== *)
theory Utf8
  imports Prelude
begin

text \<open>
  Rust strings: byte strings with well-formed UTF-8, \<open>String::from_utf8\<close> and
  \<open>is_char_boundary\<close>.  Cutting a string at a character boundary leaves a string; this is
  what the descriptor writer relies on when it shortens a file name.
\<close>

definition continuation :: "u8 \<Rightarrow> bool" where
  "continuation b \<longleftrightarrow> 0x80 \<le> b \<and> b \<le> 0xBF"

text \<open>The number of bytes of the first scalar, or 0 when the string does not begin with one.\<close>

definition two_ok :: "u8 \<Rightarrow> u8 \<Rightarrow> bool" where
  "two_ok a b \<longleftrightarrow> 0xC2 \<le> a \<and> a \<le> 0xDF \<and> continuation b"

definition three_ok :: "u8 \<Rightarrow> u8 \<Rightarrow> u8 \<Rightarrow> bool" where
  "three_ok a b c \<longleftrightarrow> 0xE0 \<le> a \<and> a \<le> 0xEF \<and> continuation b \<and> continuation c \<and>
     \<not> (a = 0xE0 \<and> b < 0xA0) \<and> \<not> (a = 0xED \<and> 0x9F < b)"

definition four_ok :: "u8 \<Rightarrow> u8 \<Rightarrow> u8 \<Rightarrow> u8 \<Rightarrow> bool" where
  "four_ok a b c d \<longleftrightarrow> 0xF0 \<le> a \<and> a \<le> 0xF4 \<and> continuation b \<and> continuation c \<and> continuation d \<and>
     \<not> (a = 0xF0 \<and> b < 0x90) \<and> \<not> (a = 0xF4 \<and> 0x8F < b)"

definition scalar_len :: "bytes \<Rightarrow> nat" where
  "scalar_len bs =
     (if bs = [] then 0
      else if bs ! 0 < 0x80 then 1
      else if 2 \<le> length bs \<and> two_ok (bs ! 0) (bs ! 1) then 2
      else if 3 \<le> length bs \<and> three_ok (bs ! 0) (bs ! 1) (bs ! 2) then 3
      else if 4 \<le> length bs \<and> four_ok (bs ! 0) (bs ! 1) (bs ! 2) (bs ! 3) then 4
      else 0)"

function utf8_valid :: "bytes \<Rightarrow> bool" where
  "utf8_valid bs =
     (if bs = [] then True
      else if scalar_len bs = 0 then False
      else utf8_valid (drop (scalar_len bs) bs))"
  by auto
termination
  by (relation "measure length") auto

declare utf8_valid.simps [simp del]

definition is_char_boundary :: "bytes \<Rightarrow> nat \<Rightarrow> bool" where
  "is_char_boundary bs i \<longleftrightarrow>
     i = 0 \<or> i = length bs \<or> (i < length bs \<and> \<not> continuation (bs ! i))"

lemma utf8_valid_Nil [simp]: "utf8_valid []"
  by (subst utf8_valid.simps) simp

lemma scalar_len_le: "scalar_len bs \<le> length bs"
  by (auto simp: scalar_len_def Suc_le_eq)

lemma scalar_len_continuation: "0 < j \<Longrightarrow> j < scalar_len bs \<Longrightarrow> continuation (bs ! j)"
proof -
  have "continuation (bs ! 1)" if "two_ok (bs ! 0) (bs ! 1)" using that by (simp add: two_ok_def)
  moreover have "j = 1 \<or> j = 2 \<or> j = 3" if "0 < j" "j < 4" using that by auto
  moreover assume "0 < j" "j < scalar_len bs"
  ultimately show ?thesis
    by (auto simp: scalar_len_def three_ok_def four_ok_def less_Suc_eq numeral_eq_Suc split: if_splits)
qed

lemma scalar_len_take:
  assumes "scalar_len bs \<noteq> 0" "scalar_len bs \<le> m"
  shows "scalar_len (take m bs) = scalar_len bs"
proof -
  have l: "scalar_len bs \<le> length bs" by (rule scalar_len_le)
  consider "bs \<noteq> []" "bs ! 0 < 0x80" "scalar_len bs = 1"
    | "bs \<noteq> []" "\<not> bs ! 0 < 0x80" "2 \<le> length bs" "two_ok (bs ! 0) (bs ! 1)" "scalar_len bs = 2"
    | "bs \<noteq> []" "\<not> bs ! 0 < 0x80" "\<not> two_ok (bs ! 0) (bs ! 1)" "3 \<le> length bs"
      "three_ok (bs ! 0) (bs ! 1) (bs ! 2)" "scalar_len bs = 3"
    | "bs \<noteq> []" "\<not> bs ! 0 < 0x80" "\<not> two_ok (bs ! 0) (bs ! 1)" "\<not> three_ok (bs ! 0) (bs ! 1) (bs ! 2)"
      "4 \<le> length bs" "four_ok (bs ! 0) (bs ! 1) (bs ! 2) (bs ! 3)" "scalar_len bs = 4"
    using assms(1) by (auto simp: scalar_len_def split: if_splits)
  then show ?thesis by cases (use assms(2) in \<open>simp_all add: scalar_len_def\<close>)
qed

lemma utf8_valid_take:
  "utf8_valid bs \<Longrightarrow> is_char_boundary bs i \<Longrightarrow> utf8_valid (take i bs)"
proof (induction "length bs" arbitrary: bs i rule: less_induct)
  case less
  show ?case
  proof (cases "bs = [] \<or> i = 0 \<or> length bs \<le> i")
    case True
    with less.prems show ?thesis by auto
  next
    case False
    let ?n = "scalar_len bs"
    from False less.prems have n: "?n \<noteq> 0" "utf8_valid (drop ?n bs)" "?n \<le> length bs"
      using utf8_valid.simps [of bs] scalar_len_le by (auto split: if_splits)
    have ni: "?n \<le> i"
    proof (rule ccontr)
      assume "\<not> ?n \<le> i"
      then have "continuation (bs ! i)" using False by (intro scalar_len_continuation) auto
      with less.prems False show False by (simp add: is_char_boundary_def)
    qed
    have "is_char_boundary (drop ?n bs) (i - ?n)"
      using less.prems False n ni by (auto simp: is_char_boundary_def)
    then have "utf8_valid (take (i - ?n) (drop ?n bs))"
      using False n by (intro less.hyps) auto
    then have "utf8_valid (drop ?n (take i bs))" by (simp add: drop_take)
    then show ?thesis
      using n(1) ni by (subst utf8_valid.simps) (simp add: scalar_len_take)
  qed
qed

text \<open>Walking back to a boundary, as in \<open>while !s.is_char_boundary(n) { n -= 1 }\<close>.\<close>

fun floor_boundary :: "bytes \<Rightarrow> nat \<Rightarrow> nat" where
  "floor_boundary bs 0 = 0"
| "floor_boundary bs (Suc n) = (if is_char_boundary bs (Suc n) then Suc n else floor_boundary bs n)"

lemma floor_boundary_le: "floor_boundary bs n \<le> n"
  by (induction n) auto

lemma floor_boundary_is: "is_char_boundary bs (floor_boundary bs n)"
  by (induction n) (auto simp: is_char_boundary_def)

lemma floor_boundary_fix: "is_char_boundary bs n \<Longrightarrow> floor_boundary bs n = n"
  by (cases n) auto

lemma floor_boundary_greatest: "is_char_boundary bs k \<Longrightarrow> k \<le> n \<Longrightarrow> k \<le> floor_boundary bs n"
proof (induction n)
  case (Suc n)
  then show ?case by (cases "k = Suc n") auto
qed simp

section \<open>Lossy decoding\<close>

text \<open>
  \<open>String::from_utf8_lossy\<close>: every maximal invalid piece becomes U+FFFD.  \<open>bad_len\<close> is the length
  of that piece, when no scalar begins here: the longest prefix of a scalar, at least one byte.
\<close>

definition bad_len :: "bytes \<Rightarrow> nat" where
  "bad_len bs =
     (if 3 \<le> length bs \<and> four_ok (bs ! 0) (bs ! 1) (bs ! 2) 0x80 then 3
      else if 2 \<le> length bs \<and> (three_ok (bs ! 0) (bs ! 1) 0x80 \<or> four_ok (bs ! 0) (bs ! 1) 0x80 0x80) then 2
      else 1)"

function utf8_lossy :: "bytes \<Rightarrow> bytes" where
  "utf8_lossy bs =
     (if bs = [] then []
      else if scalar_len bs = 0 then [0xEF, 0xBF, 0xBD] @ utf8_lossy (drop (bad_len bs) bs)
      else take (scalar_len bs) bs @ utf8_lossy (drop (scalar_len bs) bs))"
  by auto
termination
  by (relation "measure length") (auto simp: bad_len_def)

declare utf8_lossy.simps [simp del]

lemma utf8_lossy_valid: "utf8_valid bs \<Longrightarrow> utf8_lossy bs = bs"
proof (induction bs rule: utf8_valid.induct)
  case (1 bs)
  then show ?case
    by (subst utf8_lossy.simps) (use 1 utf8_valid.simps [of bs] in \<open>simp split: if_splits\<close>)
qed

end
