(* ===== verification/Compress.thy ===== *)
theory Compress
  imports Frame
begin

text \<open>
  The compression interface of \<open>core/qr-protocol/src/compress.rs\<close> on native targets: the
  algorithm tags, the capped in-memory decoder and the streaming decoder that writes a file.
  The zstd and xz libraries, the two hash crates and the file system are parameters.  A
  decoder is what reading it gives: the chunks it produces and the error it may end in.
\<close>

section \<open>Decoders and tags\<close>

record reader =
  rd_chunks :: "bytes list"
  rd_end :: "string option"

record codecs =
  zstd_decoder_new :: "nat \<Rightarrow> bytes \<Rightarrow> (reader, string) result"
    \<comment> \<open>window log limit, compressed input\<close>
  zstd_encode :: "int \<Rightarrow> nat \<Rightarrow> bytes \<Rightarrow> (bytes, string) result"
    \<comment> \<open>level, window log, input\<close>
  xz_decoder_new :: "u64 \<Rightarrow> bytes \<Rightarrow> (reader, string) result"
    \<comment> \<open>memory limit, compressed input\<close>
  xz_decoder_plain :: "bytes \<Rightarrow> reader"
  xz_encode :: "u32 \<Rightarrow> bytes \<Rightarrow> (bytes, string) result"
  crc32_of :: "bytes \<Rightarrow> u32"
  sha256_of :: "bytes \<Rightarrow> bytes"

definition DEFAULT_LEVEL :: int where "DEFAULT_LEVEL = 22"
definition COMPRESSION_NONE :: u8 where "COMPRESSION_NONE = 0"
definition COMPRESSION_ZSTD :: u8 where "COMPRESSION_ZSTD = 1"
definition COMPRESSION_XZ :: u8 where "COMPRESSION_XZ = 2"
definition LZMA_PRESET_EXTREME :: u32 where "LZMA_PRESET_EXTREME = 0x80000000"
definition XZ_PRESET :: u32 where "XZ_PRESET = 6 OR LZMA_PRESET_EXTREME"
definition XZ_DECODER_MEMORY_LIMIT :: u64 where "XZ_DECODER_MEMORY_LIMIT = 128 * 1024 * 1024"
definition ZSTD_WINDOW_LOG_MAX :: nat where "ZSTD_WINDOW_LOG_MAX = 23"

definition is_known_compression_tag :: "u8 \<Rightarrow> bool" where
  "is_known_compression_tag tag \<longleftrightarrow>
     tag = COMPRESSION_NONE \<or> tag = COMPRESSION_ZSTD \<or> tag = COMPRESSION_XZ"

definition read_to_end :: "reader \<Rightarrow> (bytes, qr_error) result" where
  "read_to_end r = (case rd_end r of None \<Rightarrow> Inr (concat (rd_chunks r)) | Some e \<Rightarrow> Inl (CompressError e))"

section \<open>In memory\<close>

definition compress :: "codecs \<Rightarrow> bytes \<Rightarrow> int \<Rightarrow> (bytes, qr_error) result" where
  "compress cx data level = map_err CompressError (zstd_encode cx level ZSTD_WINDOW_LOG_MAX data)"

definition decompress :: "codecs \<Rightarrow> bytes \<Rightarrow> (bytes, qr_error) result" where
  "decompress cx data =
     bind_result (map_err CompressError (zstd_decoder_new cx ZSTD_WINDOW_LOG_MAX data)) read_to_end"

definition xz_compress :: "codecs \<Rightarrow> bytes \<Rightarrow> (bytes, qr_error) result" where
  "xz_compress cx data = map_err CompressError (xz_encode cx XZ_PRESET data)"

definition xz_decompress :: "codecs \<Rightarrow> bytes \<Rightarrow> (bytes, qr_error) result" where
  "xz_decompress cx data = read_to_end (xz_decoder_plain cx data)"

definition compress_with :: "codecs \<Rightarrow> bytes \<Rightarrow> u8 \<Rightarrow> (bytes, qr_error) result" where
  "compress_with cx data compression =
     (if compression = COMPRESSION_ZSTD then compress cx data DEFAULT_LEVEL
      else if compression = COMPRESSION_XZ then xz_compress cx data
      else Inr data)"

definition decompress_with :: "codecs \<Rightarrow> bytes \<Rightarrow> u8 \<Rightarrow> (bytes, qr_error) result" where
  "decompress_with cx data compression =
     (if compression = COMPRESSION_ZSTD then decompress cx data
      else if compression = COMPRESSION_XZ then xz_decompress cx data
      else Inr data)"

text \<open>
  \<open>r.take(limit).read_to_end\<close>: at most \<open>limit\<close> bytes, and the decoder's error only when the
  limit was not reached first.  The limit saturates at the largest \<open>u64\<close>.
\<close>

definition read_capped :: "reader \<Rightarrow> nat \<Rightarrow> (bytes, qr_error) result" where
  "read_capped r max_output =
     (let limit = min (max_output + 1) (2 ^ 64 - 1);
          all = concat (rd_chunks r)
      in if length all < limit \<and> rd_end r \<noteq> None then Inl (CompressError (the (rd_end r)))
         else if max_output < length (take limit all)
         then Inl (CompressError ''decompressed output exceeds expected size'')
         else Inr (take limit all))"

fun show_nat :: "nat \<Rightarrow> string" where
  "show_nat n = (if n < 10 then [char_of (48 + n)] else show_nat (n div 10) @ [char_of (48 + n mod 10)])"

declare show_nat.simps [simp del]

definition unknown_tag :: "u8 \<Rightarrow> qr_error" where
  "unknown_tag tag = CompressError (''unknown compression algorithm tag '' @ show_nat (unat tag))"

text \<open>The stand-ins on wasm32, where the compression libraries are missing: compressed data is an error.\<close>

definition unavailable :: "u8 \<Rightarrow> qr_error" where
  "unavailable tag = CompressError (''decompression is not available on wasm32 for compression tag '' @
     show_nat (unat tag) @ ''; use assemble_raw + JS-side decompression'')"

definition decompress_with_limit_wasm32 :: "bytes \<Rightarrow> u8 \<Rightarrow> nat \<Rightarrow> (bytes, qr_error) result" where
  "decompress_with_limit_wasm32 data compression max_output =
     (if compression = COMPRESSION_NONE then Inr data else Inl (unavailable compression))"

definition decompress_with_wasm32 :: "bytes \<Rightarrow> u8 \<Rightarrow> (bytes, qr_error) result" where
  "decompress_with_wasm32 data compression =
     (if compression = COMPRESSION_NONE then Inr data else Inl (unavailable compression))"

definition decompress_with_limit :: "codecs \<Rightarrow> bytes \<Rightarrow> u8 \<Rightarrow> nat \<Rightarrow> (bytes, qr_error) result" where
  "decompress_with_limit cx data compression max_output =
     (if compression = COMPRESSION_ZSTD then
        bind_result (map_err CompressError (zstd_decoder_new cx ZSTD_WINDOW_LOG_MAX data))
          (\<lambda>dec. read_capped dec max_output)
      else if compression = COMPRESSION_XZ then
        bind_result (map_err CompressError (xz_decoder_new cx XZ_DECODER_MEMORY_LIMIT data))
          (\<lambda>dec. read_capped dec max_output)
      else if \<not> is_known_compression_tag compression \<and> data \<noteq> [] then Inl (unknown_tag compression)
      else if max_output < length data then Inl (CompressError ''payload exceeds size limit'')
      else Inr data)"

lemma read_capped_Inr:
  assumes "max_output < 2 ^ 64 - 1"
  shows "read_capped r max_output = Inr out \<longleftrightarrow>
     rd_end r = None \<and> out = concat (rd_chunks r) \<and> length out \<le> max_output"
proof -
  have m: "min (max_output + 1) (2 ^ 64 - 1) = max_output + 1" using assms by simp
  show ?thesis unfolding read_capped_def Let_def m by (auto simp: min_def split: if_splits)
qed

text \<open>The decoder that a known tag stands for; no compression is the input itself.\<close>

definition decoder_for :: "codecs \<Rightarrow> u8 \<Rightarrow> bytes \<Rightarrow> (reader, string) result" where
  "decoder_for cx tag data =
     (if tag = COMPRESSION_ZSTD then zstd_decoder_new cx ZSTD_WINDOW_LOG_MAX data
      else if tag = COMPRESSION_XZ then xz_decoder_new cx XZ_DECODER_MEMORY_LIMIT data
      else Inr \<lparr>rd_chunks = [data], rd_end = None\<rparr>)"

lemma decompress_capped:
  assumes "max_output < 2 ^ 64 - 1"
  shows "decompress_with_limit cx data tag max_output = Inr out \<longleftrightarrow>
     (is_known_compression_tag tag \<or> data = []) \<and> length out \<le> max_output \<and>
     (\<exists>r. decoder_for cx tag data = Inr r \<and> rd_end r = None \<and> out = concat (rd_chunks r))"
proof (cases "tag = COMPRESSION_ZSTD \<or> tag = COMPRESSION_XZ")
  case True
  then show ?thesis
    by (auto simp: decompress_with_limit_def decoder_for_def is_known_compression_tag_def
        read_capped_Inr [OF assms])
next
  case False
  then show ?thesis by (auto simp: decompress_with_limit_def decoder_for_def not_less)
qed

text \<open>
  The capped decoder succeeds exactly when the stream decodes without error to at most
  \<open>max_output\<close> bytes, and then returns all of them: no output is truncated, none exceeds the
  cap, and an unknown tag is refused unless the payload is empty.
\<close>

lemma decompress_with_limit_exact:
  assumes "max_output < 2 ^ 64 - 1"
  shows "decompress_with_limit cx data tag max_output = Inr out \<longleftrightarrow>
     (is_known_compression_tag tag \<or> data = []) \<and> length out \<le> max_output \<and>
     (\<exists>r. decoder_for cx tag data = Inr r \<and> rd_end r = None \<and> out = concat (rd_chunks r))"
  using assms by (rule decompress_capped)

lemma decompress_with_limit_exact_witness:
  "decompress_with_limit \<lparr>zstd_decoder_new = \<lambda>w bs. Inr \<lparr>rd_chunks = [bs, bs], rd_end = None\<rparr>,
     zstd_encode = \<lambda>l w bs. Inr bs, xz_decoder_new = \<lambda>m bs. Inl ''bad'',
     xz_decoder_plain = \<lambda>bs. \<lparr>rd_chunks = [], rd_end = Some ''bad''\<rparr>, xz_encode = \<lambda>p bs. Inr bs,
     crc32_of = \<lambda>bs. 0, sha256_of = \<lambda>bs. []\<rparr> [1, 2] 1 4 = Inr [1, 2, 1, 2]"
  using decompress_with_limit_exact [of 4 _ "[1, 2]" 1 "[1, 2, 1, 2]"]
  by (simp add: is_known_compression_tag_def decoder_for_def COMPRESSION_ZSTD_def)

section \<open>Streaming to a file\<close>

text \<open>
  What the file system answers: whether the files open, the input's reader and reported
  length, which chunk writes succeed (given the bytes written before), flush, and removal;
  \<open>io_left\<close> is what the output holds once a buffered writer that was handed these bytes has been
  dropped on an error (it writes out what it can of its buffer and reports nothing).
\<close>

record file_io =
  io_open :: "string option"
  io_create :: "string option"
  io_input :: bytes
  io_input_reader :: reader
  io_input_len :: "nat option"
  io_write :: "bytes \<Rightarrow> bytes \<Rightarrow> string option"
  io_flush :: "string option"
  io_removable :: bool
  io_left :: "bytes \<Rightarrow> bytes"

record stream_state =
  ss_written :: u64
  ss_hashed :: bytes
  ss_file :: bytes

record stream_outcome =
  so_output_size :: u64
  so_crc32 :: u32
  so_sha256 :: bytes

text \<open>
  The copy loop over \<open>reader.take(limit)\<close>: \<open>limit\<close> is what \<open>take\<close> has left, a chunk of no
  bytes is the end of the stream, and the flag reports a breach of the cap.  An error comes with
  what is left in the output file when the writer is dropped.
\<close>

fun copy_loop ::
  "file_io \<Rightarrow> u64 \<Rightarrow> nat \<Rightarrow> bytes list \<Rightarrow> string option \<Rightarrow> stream_state \<Rightarrow>
   (stream_state \<times> bool, qr_error \<times> bytes) result" where
  "copy_loop io max_output limit [] e st =
     (if limit = 0 then Inr (st, False)
      else case e of
          None \<Rightarrow> Inr (st, False)
        | Some m \<Rightarrow> Inl (CompressError (''read: '' @ m), io_left io (ss_file st)))"
| "copy_loop io max_output limit (c # cs) e st =
     (if limit = 0 \<or> c = [] then Inr (st, False)
      else let buf = take limit c;
               written = saturating_add (ss_written st) (of_nat (length buf))
        in if max_output < written then Inr (st\<lparr>ss_written := written\<rparr>, True)
           else case io_write io (ss_file st) buf of
             Some m \<Rightarrow> Inl (CompressError (''write: '' @ m), io_left io (ss_file st @ buf))
           | None \<Rightarrow> copy_loop io max_output (limit - length buf) cs e
                       \<lparr>ss_written = written, ss_hashed = ss_hashed st @ buf, ss_file = ss_file st @ buf\<rparr>)"

definition decode_into :: "file_io \<Rightarrow> u64 \<Rightarrow> reader \<Rightarrow> (stream_state \<times> bool, qr_error \<times> bytes) result" where
  "decode_into io max_output r =
     copy_loop io max_output (unat (saturating_add max_output 1)) (rd_chunks r) (rd_end r)
       \<lparr>ss_written = 0, ss_hashed = [], ss_file = []\<rparr>"

text \<open>The result and the contents of the output path afterwards (\<open>old\<close> before the call).\<close>

definition decompress_stream_to_file ::
  "codecs \<Rightarrow> file_io \<Rightarrow> bytes option \<Rightarrow> u8 \<Rightarrow> u64 \<Rightarrow> (stream_outcome, qr_error) result \<times> bytes option" where
  "decompress_stream_to_file cx io old compression max_output =
     (case io_open io of Some m \<Rightarrow> (Inl (CompressError (''open input: '' @ m)), old) | None \<Rightarrow>
      case io_create io of Some m \<Rightarrow> (Inl (CompressError (''create output: '' @ m)), old) | None \<Rightarrow>
      let removed = (\<lambda>left. if io_removable io then None else Some left);
          result =
            (if compression = COMPRESSION_ZSTD then
               bind_result (map_err (\<lambda>m. (CompressError m, []))
                   (zstd_decoder_new cx ZSTD_WINDOW_LOG_MAX (io_input io)))
                 (decode_into io max_output)
             else if compression = COMPRESSION_XZ then
               bind_result (map_err (\<lambda>m. (CompressError m, []))
                   (xz_decoder_new cx XZ_DECODER_MEMORY_LIMIT (io_input io)))
                 (decode_into io max_output)
             else if is_known_compression_tag compression \<or> io_input_len io = Some 0
             then decode_into io max_output (io_input_reader io)
             else Inl (unknown_tag compression, []))
      in case result of
           Inl (e, left) \<Rightarrow> (Inl e, removed left)
         | Inr (st, over) \<Rightarrow>
             if over
             then (Inl (CompressError ''decompressed output exceeds expected size''),
                   removed (io_left io (ss_file st)))
             else (case io_flush io of
                     Some m \<Rightarrow> (Inl (CompressError (''flush: '' @ m)), removed (io_left io (ss_file st)))
                   | None \<Rightarrow> (Inr \<lparr>so_output_size = ss_written st, so_crc32 = crc32_of cx (ss_hashed st),
                                   so_sha256 = sha256_of cx (ss_hashed st)\<rparr>, Some (ss_file st))))"

text \<open>The bytes a reader delivers before its end of stream.\<close>

definition delivered :: "reader \<Rightarrow> bytes" where
  "delivered r = concat (takeWhile (\<lambda>c. c \<noteq> []) (rd_chunks r))"

lemma unat_saturating_succ: "unat (saturating_add m 1 :: u64) = min (unat m + 1) 18446744073709551615"
  using unat_lt [of m] by (simp add: saturating_add_def unat_word_ariths unsigned_minus_1_eq_mask mask_eq_exp_minus_1 min_def)

text \<open>
  The copy loop, whatever the cap: a loop that ends without a breach has copied what the reader
  delivers up to the cap, and stopped at the reader's own end or at the largest cap there is.
\<close>

lemma copy_loop_done:
  assumes "copy_loop io m limit cs e st = Inr (st', False)"
    and "unat (ss_written st) + limit = unat (saturating_add m 1)" "unat (ss_written st) \<le> unat m"
    and "unat (ss_written st) = length (ss_file st)" "ss_hashed st = ss_file st"
  shows "ss_file st' = ss_file st @ take limit (concat (takeWhile (\<lambda>c. c \<noteq> []) cs)) \<and> ss_hashed st' = ss_file st' \<and>
     unat (ss_written st') = length (ss_file st') \<and> unat (ss_written st') \<le> unat m \<and>
     ((\<forall>c \<in> set cs. c \<noteq> []) \<longrightarrow> e = None \<or> unat (ss_written st') = unat (saturating_add m 1))"
  using assms
proof (induction cs arbitrary: st limit)
  case Nil
  then show ?case by (auto split: option.splits if_splits)
next
  case (Cons c cs)
  show ?case
  proof (cases "c = [] \<or> limit = 0")
    case True
    with Cons.prems show ?thesis by auto
  next
    case False
    let ?buf = "take limit c"
    define w where "w = saturating_add (ss_written st) (of_nat (length ?buf))"
    have lt: "unat (saturating_add m 1) < 2 ^ 64" by (simp add: unat_saturating_succ)
    have bl: "unat (of_nat (length ?buf) :: u64) = length ?buf"
      using Cons.prems(2) lt by (intro unat_of_nat_len) simp
    have "unat (ss_written st) + length ?buf < 2 ^ 64" using Cons.prems(2) lt by simp
    then have w: "unat w = unat (ss_written st) + length ?buf"
      using bl by (simp add: w_def saturating_add_def unat_word_ariths)
    have le: "w \<le> m" and rest: "copy_loop io m (limit - length ?buf) cs e
        \<lparr>ss_written = w, ss_hashed = ss_hashed st @ ?buf, ss_file = ss_file st @ ?buf\<rparr> = Inr (st', False)"
      using Cons.prems(1) False
      by (auto simp: Let_def w_def not_less split: if_splits option.splits)
    have cut: "limit - length ?buf = limit - length c" by simp
    let ?st = "\<lparr>ss_written = w, ss_hashed = ss_hashed st @ ?buf, ss_file = ss_file st @ ?buf\<rparr> :: stream_state"
    have "unat (ss_written ?st) + (limit - length ?buf) = unat (saturating_add m 1)"
      "unat (ss_written ?st) \<le> unat m" "unat (ss_written ?st) = length (ss_file ?st)" "ss_hashed ?st = ss_file ?st"
      using w le Cons.prems(2,4,5) by (simp_all add: word_le_nat_alt)
    note R = Cons.IH [OF rest this, unfolded cut]
    have eq: "take limit (concat (takeWhile (\<lambda>c. c \<noteq> []) (c # cs))) =
        ?buf @ take (limit - length c) (concat (takeWhile (\<lambda>c. c \<noteq> []) cs))" using False by simp
    from R have "ss_file st' = ss_file st @ take limit (concat (takeWhile (\<lambda>c. c \<noteq> []) (c # cs)))"
      unfolding eq by (elim conjE) (simp only: stream_state.select_convs append_assoc)
    moreover from R have "(\<forall>c \<in> set (c # cs). c \<noteq> []) \<longrightarrow> e = None \<or> unat (ss_written st') = unat (saturating_add m 1)"
      by (elim conjE) (auto simp only: list.set)
    ultimately show ?thesis using R by blast
  qed
qed

text \<open>A loop over chunks that fit the cap and are all written ends without a breach.\<close>

lemma copy_loop_ok:
  assumes "\<And>a b. io_write io a b = None" "([] \<in> set cs) \<or> e = None"
    and "unat (ss_written st) + limit = unat (saturating_add m 1)"
    and "unat (ss_written st) + length (concat (takeWhile (\<lambda>c. c \<noteq> []) cs)) \<le> unat m"
  shows "\<exists>st'. copy_loop io m limit cs e st = Inr (st', False)"
  using assms(2-)
proof (induction cs arbitrary: st limit)
  case (Cons c cs)
  show ?case
  proof (cases "c = [] \<or> limit = 0")
    case False
    have m: "unat m \<le> unat (saturating_add m 1)" using unat_lt [of m] by (simp add: unat_saturating_succ)
    have fit: "length c \<le> limit" "unat (ss_written st) + length c \<le> unat m" using Cons.prems False m by auto
    then have bl: "unat (of_nat (length c) :: u64) = length c"
      using unat_lt [of m] by (intro unat_of_nat_len) simp
    have "unat (ss_written st) + length c < 2 ^ 64" using fit(2) unat_lt [of m] by simp
    then have w: "unat (saturating_add (ss_written st) (of_nat (length c))) = unat (ss_written st) + length c"
      using bl by (simp add: saturating_add_def unat_word_ariths)
    then have "\<not> m < saturating_add (ss_written st) (of_nat (length c))"
      using fit(2) by (simp add: word_less_nat_alt)
    moreover have "\<exists>st'. copy_loop io m (limit - length c) cs e
        \<lparr>ss_written = saturating_add (ss_written st) (of_nat (length c)), ss_hashed = ss_hashed st @ c,
         ss_file = ss_file st @ c\<rparr> = Inr (st', False)"
      using Cons.prems False fit w by (intro Cons.IH) auto
    ultimately show ?thesis using False fit(1) assms(1) by (simp add: Let_def)
  qed auto
qed auto

text \<open>The reader the call copies from, and when the reading part works at all.\<close>

definition stream_reader :: "codecs \<Rightarrow> file_io \<Rightarrow> u8 \<Rightarrow> reader option" where
  "stream_reader cx io tag =
     (if tag = COMPRESSION_ZSTD \<or> tag = COMPRESSION_XZ
      then (case decoder_for cx tag (io_input io) of Inl _ \<Rightarrow> None | Inr r \<Rightarrow> Some r)
      else if is_known_compression_tag tag \<or> io_input_len io = Some 0 then Some (io_input_reader io)
      else None)"

text \<open>
  What the streaming decoder promises.  A success means that the output file holds exactly what
  the reader delivered, at most \<open>max_output\<close> bytes, up to the reader's end, with the size,
  the CRC and the digest of these very bytes; a failure leaves the output path as it was if a
  file could not be opened or created, and otherwise leaves no file, or one that cannot be removed.
\<close>

definition stream_promise ::
  "codecs \<Rightarrow> file_io \<Rightarrow> bytes option \<Rightarrow> u8 \<Rightarrow> u64 \<Rightarrow> (stream_outcome, qr_error) result \<Rightarrow> bytes option \<Rightarrow> bool" where
  "stream_promise cx io old tag max_output res file \<longleftrightarrow>
     (case res of
        Inl e \<Rightarrow>
          if io_open io \<noteq> None \<or> io_create io \<noteq> None then file = old
          else if io_removable io then file = None else file \<noteq> None
      | Inr o1 \<Rightarrow> io_open io = None \<and> io_create io = None \<and> (\<exists>r. stream_reader cx io tag = Some r \<and>
          file = Some (take (unat max_output) (delivered r)) \<and>
          so_output_size o1 = of_nat (length (the file)) \<and> length (the file) \<le> unat max_output \<and>
          so_crc32 o1 = crc32_of cx (the file) \<and> so_sha256 o1 = sha256_of cx (the file) \<and>
          (unat max_output + 1 < 2 ^ 64 \<longrightarrow> the file = delivered r \<and> ([] \<in> set (rd_chunks r) \<or> rd_end r = None))))"

lemma decode_into_done:
  assumes "decode_into io m r = Inr (st, False)"
  shows "ss_file st = take (unat m) (delivered r) \<and> ss_hashed st = ss_file st \<and>
    unat (ss_written st) = length (ss_file st) \<and> length (ss_file st) \<le> unat m \<and>
    (unat m + 1 < 2 ^ 64 \<longrightarrow> ss_file st = delivered r \<and> ([] \<in> set (rd_chunks r) \<or> rd_end r = None))"
proof -
  let ?L = "unat (saturating_add m 1)"
  let ?s0 = "\<lparr>ss_written = 0, ss_hashed = [], ss_file = []\<rparr> :: stream_state"
  have D: "ss_file st = ss_file ?s0 @ take ?L (concat (takeWhile (\<lambda>c. c \<noteq> []) (rd_chunks r))) \<and> ss_hashed st = ss_file st \<and>
     unat (ss_written st) = length (ss_file st) \<and> unat (ss_written st) \<le> unat m \<and>
     ((\<forall>c \<in> set (rd_chunks r). c \<noteq> []) \<longrightarrow> rd_end r = None \<or> unat (ss_written st) = ?L)"
    by (rule copy_loop_done [OF assms [unfolded decode_into_def]]) auto
  then have f: "ss_file st = take ?L (delivered r)" and le: "length (ss_file st) \<le> unat m"
    unfolding delivered_def stream_state.select_convs append_Nil by metis+
  have L: "unat m \<le> ?L" "unat m + 1 < 2 ^ 64 \<Longrightarrow> ?L = unat m + 1"
    using unat_lt [of m] by (auto simp: unat_saturating_succ)
  have "ss_file st = take (unat m) (delivered r)"
    using le L(1) unfolding f by (simp add: min_def split: if_splits)
  moreover have "ss_file st = delivered r" if "unat m + 1 < 2 ^ 64"
    using le L(2) [OF that] unfolding f by (simp add: min_def split: if_splits)
  moreover have "[] \<in> set (rd_chunks r) \<or> rd_end r = None" if "unat m + 1 < 2 ^ 64"
    using D L(2) [OF that] by auto
  moreover from D have "ss_hashed st = ss_file st" "unat (ss_written st) = length (ss_file st)" by blast+
  ultimately show ?thesis using le by simp
qed

lemma stream_exact:
  assumes "decompress_stream_to_file cx io old tag max_output = (res, file)"
  shows "stream_promise cx io old tag max_output res file"
proof (cases res)
  case (Inl e)
  with assms show ?thesis
    by (auto simp: stream_promise_def decompress_stream_to_file_def Let_def
        split: sum.splits prod.splits if_splits option.splits)
next
  case (Inr o1)
  with assms obtain r st where r: "stream_reader cx io tag = Some r" and io: "io_open io = None" "io_create io = None"
    and d: "decode_into io max_output r = Inr (st, False)"
    and o1: "o1 = \<lparr>so_output_size = ss_written st, so_crc32 = crc32_of cx (ss_hashed st),
                   so_sha256 = sha256_of cx (ss_hashed st)\<rparr>" "file = Some (ss_file st)"
    by (auto simp: decompress_stream_to_file_def Let_def decoder_for_def stream_reader_def
        split: sum.splits prod.splits if_splits option.splits)
  note D = decode_into_done [OF d]
  then have "ss_written st = of_nat (length (ss_file st))" by (intro word_eq_of_nat) blast
  then have "so_output_size o1 = of_nat (length (the file))" "so_crc32 o1 = crc32_of cx (the file)"
    "so_sha256 o1 = sha256_of cx (the file)" "the file = ss_file st" using D by (simp_all add: o1)
  with D show ?thesis using r io o1(2) unfolding stream_promise_def Inr sum.case by metis
qed

text \<open>Nothing else makes it fail: readers, writes and flush that work give the result.\<close>

lemma stream_succeeds:
  assumes "io_open io = None" "io_create io = None" "stream_reader cx io tag = Some r"
    and "[] \<in> set (rd_chunks r) \<or> rd_end r = None" "\<And>a b. io_write io a b = None" "io_flush io = None"
    and "length (delivered r) \<le> unat max_output"
  shows "\<exists>o1. decompress_stream_to_file cx io old tag max_output = (Inr o1, Some (delivered r)) \<and>
    so_output_size o1 = of_nat (length (delivered r)) \<and> so_crc32 o1 = crc32_of cx (delivered r) \<and>
    so_sha256 o1 = sha256_of cx (delivered r)"
proof -
  obtain st where d: "decode_into io max_output r = Inr (st, False)"
    using copy_loop_ok [of io "rd_chunks r" "rd_end r" "\<lparr>ss_written = 0, ss_hashed = [], ss_file = []\<rparr>"
        "unat (saturating_add max_output 1)" max_output] assms(4,5,7)
    by (auto simp: decode_into_def delivered_def)
  note D = decode_into_done [OF d]
  then have f: "ss_file st = delivered r" "ss_hashed st = delivered r" using assms(7) by simp_all
  have w: "ss_written st = of_nat (length (delivered r))"
    using D f(1) by (intro word_eq_of_nat) simp
  show ?thesis
    using assms(1-3,6) d f w
    by (auto simp: decompress_stream_to_file_def stream_reader_def decoder_for_def Let_def
        split: sum.splits if_splits)
qed

text \<open>A store-only codec and a file system where everything works: the input of the witness.\<close>

definition demo_codecs :: codecs where
  "demo_codecs = \<lparr>zstd_decoder_new = \<lambda>w bs. Inr \<lparr>rd_chunks = [bs], rd_end = None\<rparr>,
     zstd_encode = \<lambda>l w bs. Inr bs, xz_decoder_new = \<lambda>m bs. Inr \<lparr>rd_chunks = [bs, bs], rd_end = None\<rparr>,
     xz_decoder_plain = \<lambda>bs. \<lparr>rd_chunks = [bs, bs], rd_end = None\<rparr>, xz_encode = \<lambda>p bs. Inr bs,
     crc32_of = \<lambda>bs. of_nat (length bs), sha256_of = \<lambda>bs. replicate 32 0\<rparr>"

definition demo_io :: file_io where
  "demo_io = \<lparr>io_open = None, io_create = None, io_input = [5, 6],
     io_input_reader = \<lparr>rd_chunks = [[5, 6]], rd_end = None\<rparr>, io_input_len = Some 2,
     io_write = \<lambda>old new. None, io_flush = None, io_removable = True, io_left = \<lambda>bs. bs\<rparr>"

end
