(* ===== verification/Session_Id.thy ===== *)
theory Session_Id
  imports Prelude
begin

text \<open>
  Session identifiers, \<open>core/qr-protocol/src/session.rs\<close>: FNV-1a in 128 bits over the file's
  identity, the child identifiers of the segments of a large transfer, and the 64-bit
  content fingerprint.  Hashes wrap at their width.  The segments of one transfer are told
  apart by these identifiers alone, so their injectivity is what the demultiplexer rests on.
\<close>

section \<open>The hashes\<close>

definition FNV_OFFSET_128 :: u128 where "FNV_OFFSET_128 = 0x6c62272e07bb01426b82175983ad0b58"
definition FNV_PRIME_128 :: u128 where "FNV_PRIME_128 = 0x0000000001000000000000000000013b"
definition FNV_OFFSET_64 :: u64 where "FNV_OFFSET_64 = 0xcbf29ce484222325"
definition FNV_PRIME_64 :: u64 where "FNV_PRIME_64 = 0x100000001b3"

definition fnv128_byte :: "u128 \<Rightarrow> u8 \<Rightarrow> u128" where
  "fnv128_byte h b = (h XOR ucast b) * FNV_PRIME_128"

definition fnv64_byte :: "u64 \<Rightarrow> u8 \<Rightarrow> u64" where
  "fnv64_byte h b = (h XOR ucast b) * FNV_PRIME_64"

text \<open>\<open>name\<close> is the UTF-8 encoding of the file name.\<close>

definition derive :: "bytes \<Rightarrow> u64 \<Rightarrow> u64 \<Rightarrow> bytes \<Rightarrow> u128" where
  "derive name fsize mtime_ms fingerprint =
     foldl fnv128_byte
       (foldl fnv128_byte
         (foldl fnv128_byte
           (foldl fnv128_byte FNV_OFFSET_128 name)
           (le_bytes 8 fsize))
         (le_bytes 8 mtime_ms))
       fingerprint"

definition SEGMENT_DOMAIN :: bytes where
  "SEGMENT_DOMAIN = map (\<lambda>c. of_nat (of_char c)) ''AirFerry.segment.v1''"

definition derive_segment :: "u128 \<Rightarrow> u32 \<Rightarrow> u128" where
  "derive_segment root segment_index =
     foldl fnv128_byte FNV_OFFSET_128
       (SEGMENT_DOMAIN @ be_bytes 16 root @ be_bytes 4 segment_index)"

definition content_fingerprint :: "bytes \<Rightarrow> bytes \<Rightarrow> bytes" where
  "content_fingerprint head tail =
     le_bytes 8 (foldl fnv64_byte (foldl fnv64_byte FNV_OFFSET_64 head) tail)"

section \<open>Byte absorption as an interface\<close>

text \<open>
  A hash step that loses nothing: it is injective in the state for every byte and in the
  byte for every state.  Hence changing one byte of the input always changes the result.
\<close>

locale absorbing =
  fixes absorb :: "'h \<Rightarrow> 'b \<Rightarrow> 'h"
  assumes state_inj: "absorb h b = absorb h' b \<longleftrightarrow> h = h'"
    and byte_inj: "absorb h b = absorb h b' \<longleftrightarrow> b = b'"
begin

lemma run_inj: "foldl absorb h xs = foldl absorb h' xs \<longleftrightarrow> h = h'"
  by (induction xs arbitrary: h h') (simp_all add: state_inj)

lemma one_byte_detected:
  "foldl absorb h (pre @ b # post) = foldl absorb h (pre @ b' # post) \<longleftrightarrow> b = b'"
  by (simp add: run_inj byte_inj)

lemma prefix_detected:
  "length xs = length ys \<Longrightarrow> foldl absorb h (xs @ zs) = foldl absorb h (ys @ zs) \<longleftrightarrow>
     foldl absorb h xs = foldl absorb h ys"
  by (simp add: run_inj)

end

lemma mult_word_inj:
  fixes p q :: "'a::len word"
  assumes "p * q = 1"
  shows "a * p = b * p \<longleftrightarrow> a = b"
  by (metis assms mult.assoc mult.right_neutral)

lemma xor_word_inj: "(a :: 'a::len word) XOR x = a XOR y \<longleftrightarrow> x = y" "x XOR a = y XOR a \<longleftrightarrow> x = y"
  by (auto simp: bit_eq_iff bit_simps)

lemma ucast_byte_inj:
  assumes "8 \<le> LENGTH('a)"
  shows "(ucast (b :: u8) :: 'a::len word) = ucast b' \<longleftrightarrow> b = b'"
  using assms unat_ucast_up [of b, where 'b = 'a] unat_ucast_up [of b', where 'b = 'a]
  by (auto simp: word_unat_eq_iff)

lemma fnv_inverse:
  "FNV_PRIME_128 * 235294668448601749631651150104872562675 = 1"
  "FNV_PRIME_64 * 14886173955864302971 = 1"
  by (simp_all add: FNV_PRIME_128_def FNV_PRIME_64_def)

interpretation fnv128: absorbing fnv128_byte
proof unfold_locales
  fix h h' :: u128 and b b' :: u8
  show "fnv128_byte h b = fnv128_byte h' b \<longleftrightarrow> h = h'"
    by (simp add: fnv128_byte_def mult_word_inj [OF fnv_inverse(1)] xor_word_inj)
  show "fnv128_byte h b = fnv128_byte h b' \<longleftrightarrow> b = b'"
    by (simp add: fnv128_byte_def mult_word_inj [OF fnv_inverse(1)] xor_word_inj ucast_byte_inj)
qed

interpretation fnv64: absorbing fnv64_byte
proof unfold_locales
  fix h h' :: u64 and b b' :: u8
  show "fnv64_byte h b = fnv64_byte h' b \<longleftrightarrow> h = h'"
    by (simp add: fnv64_byte_def mult_word_inj [OF fnv_inverse(2)] xor_word_inj)
  show "fnv64_byte h b = fnv64_byte h b' \<longleftrightarrow> b = b'"
    by (simp add: fnv64_byte_def mult_word_inj [OF fnv_inverse(2)] xor_word_inj ucast_byte_inj)
qed

section \<open>Child identifiers do not collide\<close>

text \<open>
  The four index bytes are the last input.  The difference of two runs is followed as an
  integer: a byte moves the state by less than 256, a step multiplies the difference by the
  prime \<open>2 ^ 88 + 315\<close>.  After four bytes the difference modulo \<open>2 ^ 128\<close> splits at bit 88
  into two parts too small to wrap, and these have no common zero but the trivial one.
\<close>

definition apart :: "u128 \<Rightarrow> u128 \<Rightarrow> int \<Rightarrow> bool" where
  "apart x y d \<longleftrightarrow> 2 ^ 128 dvd uint x - uint y - d"

lemma xor_byte_small:
  obtains e where "uint (x XOR ucast (b :: u8) :: u128) = uint x + e" "\<bar>e\<bar> \<le> 255"
proof -
  define y where "y = (x XOR ucast b :: u128)"
  have "drop_bit 8 y = drop_bit 8 x"
  proof (rule bit_word_eqI)
    fix n assume "n < LENGTH(128)"
    have "\<not> bit b (8 + n)" using bit_imp_le_length [of b "8 + n"] by auto
    then show "bit (drop_bit 8 y) n \<longleftrightarrow> bit (drop_bit 8 x) n" by (simp add: bit_simps y_def)
  qed
  then have "uint (drop_bit 8 y) = uint (drop_bit 8 x)" by simp
  then have "uint y div 256 = uint x div 256" by (simp add: drop_bit_eq_div uint_div)
  then have "uint y - uint x = uint y mod 256 - uint x mod 256"
    using div_mult_mod_eq [of "uint y" 256] div_mult_mod_eq [of "uint x" 256] by linarith
  moreover have "0 \<le> uint y mod 256" "uint y mod 256 < 256" "0 \<le> uint x mod 256" "uint x mod 256 < 256"
    by simp_all
  ultimately show ?thesis by (intro that [of "uint y - uint x"]) (auto simp: y_def [symmetric])
qed

lemma apart_step:
  assumes "apart x y d"
  obtains e where "\<bar>e\<bar> \<le> 510"
    "apart (fnv128_byte x b) (fnv128_byte y b') ((2 ^ 88 + 315) * (d + e))"
    "x = y \<Longrightarrow> e = 0 \<Longrightarrow> b = b'"
proof -
  let ?x = "x XOR ucast b :: u128" and ?y = "y XOR ucast b' :: u128"
  let ?e = "(uint ?x - uint x) - (uint ?y - uint y)" and ?P = "2 ^ 88 + 315 :: int"
  have "\<bar>?e\<bar> \<le> 510"
    using xor_byte_small [of x b] xor_byte_small [of y b'] by (smt (verit, best))
  moreover have "2 ^ 128 dvd uint (fnv128_byte x b) - uint (fnv128_byte y b') - ?P * (d + ?e)"
  proof -
    have "(2 ^ 128 :: int) dvd uint (fnv128_byte x b) - uint ?x * ?P" "(2 ^ 128 :: int) dvd uint (fnv128_byte y b') - uint ?y * ?P"
      by (simp_all add: fnv128_byte_def uint_word_ariths FNV_PRIME_128_def mod_eq_dvd_iff [symmetric])
    note step = this
    have "(2 ^ 128 :: int) dvd ?P * (uint x - uint y - d)"
      using assms unfolding apart_def by (rule dvd_mult)
    then have "(2 ^ 128 :: int) dvd (uint (fnv128_byte x b) - uint ?x * ?P) -
        (uint (fnv128_byte y b') - uint ?y * ?P) + ?P * (uint x - uint y - d)"
      using step by (intro dvd_add [OF dvd_diff])
    then show ?thesis by (simp add: algebra_simps)
  qed
  moreover have "b = b'" if "x = y" "?e = 0"
  proof -
    from that have "uint ?x = uint ?y" by simp
    then have "?x = ?y" by (simp only: word_uint_eq_iff)
    with that show ?thesis by (simp add: xor_word_inj ucast_byte_inj)
  qed
  ultimately show ?thesis using that [of ?e] by (auto simp: apart_def)
qed

text \<open>The arithmetic core: two small combinations that vanish together are trivial.\<close>

lemma small_multiple_zero: "(m :: int) dvd x \<Longrightarrow> \<bar>x\<bar> < m \<Longrightarrow> x = 0"
  using zdvd_imp_le [of m "\<bar>x\<bar>"] by auto

lemma four_steps_zero:
  fixes a b c d :: int
  assumes "2 ^ 128 dvd (2 ^ 88 + 315) * ((2 ^ 88 + 315) * ((2 ^ 88 + 315) * a + b) + c) + d"
    and bounds: "\<bar>a\<bar> \<le> 510" "\<bar>b\<bar> \<le> 510" "\<bar>c\<bar> \<le> 510" "\<bar>d\<bar> \<le> 510"
  shows "a = 0 \<and> b = 0 \<and> c = 0 \<and> d = 0"
proof -
  let ?H = "297675 * a + 630 * b + c" and ?L = "31255875 * a + 99225 * b + 315 * c + d"
  have "(2 ^ 88 + 315) * ((2 ^ 88 + 315) * ((2 ^ 88 + 315) * a + b) + c) + d =
      2 ^ 128 * (2 ^ 136 * a + 2 ^ 48 * 945 * a + 2 ^ 48 * b) + (2 ^ 88 * ?H + ?L)"
    by (simp add: algebra_simps)
  with assms(1) have dvd: "2 ^ 128 dvd 2 ^ 88 * ?H + ?L" by (metis dvd_add_right_iff dvd_triv_left)
  then have "2 ^ 88 dvd 2 ^ 88 * ?H + ?L" by (rule dvd_trans [rotated]) (simp add: le_imp_power_dvd)
  then have "2 ^ 88 dvd ?L" by (metis dvd_add_right_iff dvd_triv_left)
  moreover have "\<bar>?L\<bar> < 2 ^ 88" using bounds by simp
  ultimately have L: "?L = 0" by (rule small_multiple_zero)
  with dvd have "2 ^ 88 * 2 ^ 40 dvd 2 ^ 88 * ?H" by (simp flip: power_add)
  then have "2 ^ 40 dvd ?H" by (simp only: dvd_mult_cancel_left) simp
  moreover have "\<bar>?H\<bar> < 2 ^ 40" using bounds by simp
  ultimately have H: "?H = 0" by (rule small_multiple_zero)
  from H have c: "c = - (297675 * a + 630 * b)" by linarith
  from L have "d = 99225 * (630 * a + b)" unfolding c by (simp add: algebra_simps)
  then have "99225 dvd d" by simp
  then have d0: "d = 0" by (rule small_multiple_zero) (use bounds in simp)
  with \<open>d = 99225 * (630 * a + b)\<close> have z: "b = 630 * (- a)" by simp
  then have "630 dvd b" by simp
  then have "b = 0" by (rule small_multiple_zero) (use bounds in simp)
  with z d0 L H show ?thesis by simp
qed

lemma apart_refl: "apart x x 0"
  by (simp add: apart_def)

lemma fnv128_four_bytes_inj:
  assumes "foldl fnv128_byte h [a, b, c, d] = foldl fnv128_byte h [a', b', c', d']"
  shows "a = a' \<and> b = b' \<and> c = c' \<and> d = d'"
proof -
  define x1 where "x1 = fnv128_byte h a"
  define y1 where "y1 = fnv128_byte h a'"
  define x2 where "x2 = fnv128_byte x1 b"
  define y2 where "y2 = fnv128_byte y1 b'"
  define x3 where "x3 = fnv128_byte x2 c"
  define y3 where "y3 = fnv128_byte y2 c'"
  let ?P = "2 ^ 88 + 315 :: int"
  obtain e1 where e1: "\<bar>e1\<bar> \<le> 510" "apart x1 y1 (?P * e1)" "e1 = 0 \<Longrightarrow> a = a'"
    using apart_step [OF apart_refl, of h a a'] unfolding x1_def y1_def by (metis add_0)
  obtain e2 where e2: "\<bar>e2\<bar> \<le> 510" "apart x2 y2 (?P * (?P * e1 + e2))" "x1 = y1 \<Longrightarrow> e2 = 0 \<Longrightarrow> b = b'"
    using apart_step [OF e1(2)] unfolding x2_def y2_def by metis
  obtain e3 where e3: "\<bar>e3\<bar> \<le> 510" "apart x3 y3 (?P * (?P * (?P * e1 + e2) + e3))" "x2 = y2 \<Longrightarrow> e3 = 0 \<Longrightarrow> c = c'"
    using apart_step [OF e2(2)] unfolding x3_def y3_def by metis
  obtain e4 where e4: "\<bar>e4\<bar> \<le> 510"
    "apart (fnv128_byte x3 d) (fnv128_byte y3 d') (?P * (?P * (?P * (?P * e1 + e2) + e3) + e4))"
    "x3 = y3 \<Longrightarrow> e4 = 0 \<Longrightarrow> d = d'"
    using apart_step [OF e3(2), of d d'] by metis
  have "fnv128_byte x3 d = fnv128_byte y3 d'"
    using assms by (simp add: x1_def x2_def x3_def y1_def y2_def y3_def)
  with e4(2) have "2 ^ 128 dvd ?P * (?P * (?P * (?P * e1 + e2) + e3) + e4)"
    by (simp only: apart_def diff_self diff_0 dvd_minus_iff)
  moreover have "coprime (2 ^ 128) ?P"
    by (simp only: coprime_power_left_iff coprime_left_2_iff_odd) simp
  ultimately have "2 ^ 128 dvd ?P * (?P * (?P * e1 + e2) + e3) + e4"
    using coprime_dvd_mult_right_iff by blast
  then have "e1 = 0 \<and> e2 = 0 \<and> e3 = 0 \<and> e4 = 0"
    using e1(1) e2(1) e3(1) e4(1) by (rule four_steps_zero)
  then show ?thesis using e1(3) e2(3) e3(3) e4(3) by (simp add: x1_def x2_def x3_def y1_def y2_def y3_def)
qed

lemma derive_segment_inj: "derive_segment root i = derive_segment root j \<longleftrightarrow> i = j"
proof
  assume eq: "derive_segment root i = derive_segment root j"
  let ?h = "foldl fnv128_byte (foldl fnv128_byte FNV_OFFSET_128 SEGMENT_DOMAIN) (be_bytes 16 root)"
  have split: "be_bytes 4 w = [be_bytes 4 w ! 0, be_bytes 4 w ! 1, be_bytes 4 w ! 2, be_bytes 4 w ! 3]" for w :: u32
    by (simp add: numeral_eq_Suc)
  have "foldl fnv128_byte ?h (be_bytes 4 i) = foldl fnv128_byte ?h (be_bytes 4 j)"
    using eq by (simp add: derive_segment_def)
  then have "be_bytes 4 i = be_bytes 4 j"
    using fnv128_four_bytes_inj by (subst (asm) (1 2) split) (subst (1 2) split, blast)
  then show "i = j" by (simp add: field32.put_inj)
qed simp

text \<open>
  Within one transfer no two segments share a session identifier: for every root, the
  derivation is injective over all \<open>2 ^ 32\<close> segment indices, although the hash is not
  cryptographic and wraps at 128 bits.
\<close>

lemma derive_segment_injective: "derive_segment root i = derive_segment root j \<longleftrightarrow> i = j"
  by (rule derive_segment_inj)

text \<open>
  Replacing any one byte of the fingerprinted head or tail by another changes the
  content fingerprint, and so does it change a session identifier derived from it, all
  other inputs equal.
\<close>

lemma fingerprint_detects_byte:
  "(content_fingerprint (pre @ b # post) tail = content_fingerprint (pre @ b' # post) tail \<longleftrightarrow> b = b') \<and>
  (content_fingerprint head (pre @ b # post) = content_fingerprint head (pre @ b' # post) \<longleftrightarrow> b = b') \<and>
  (derive name fsize mtime (pre @ b # post) = derive name fsize mtime (pre @ b' # post) \<longleftrightarrow> b = b')"
proof -
  have le: "le_bytes 8 x = le_bytes 8 y \<longleftrightarrow> x = y" for x y :: u64
    by (simp add: le_bytes_def field64.put_inj)
  have "content_fingerprint (pre @ b # post) tail = content_fingerprint (pre @ b' # post) tail \<longleftrightarrow> b = b'"
    by (simp add: content_fingerprint_def le fnv64.run_inj fnv64.byte_inj)
  moreover
  have "content_fingerprint head (pre @ b # post) = content_fingerprint head (pre @ b' # post) \<longleftrightarrow> b = b'"
    by (simp add: content_fingerprint_def le fnv64.run_inj fnv64.byte_inj)
  moreover
  have "derive name fsize mtime (pre @ b # post) = derive name fsize mtime (pre @ b' # post) \<longleftrightarrow> b = b'"
    by (simp add: derive_def fnv128.run_inj fnv128.byte_inj)
  ultimately show ?thesis by blast
qed

end
