(* ===== verification/Segment.thy ===== *)
theory Segment
  imports Utf8 Frame Compress Object_Meta Session_Id
begin

text \<open>
  File metadata and large-transfer segments: \<open>FileMeta\<close> of \<open>descriptor.rs\<close>, the engine's error
  type (\<open>lib.rs\<close>) and \<open>core/transfer-engine/src/segment.rs\<close>.  A file name is the byte string of
  a Rust \<open>String\<close>.  Validation of the segment coordinates is shown equivalent to a
  specification on natural numbers, and the accepted ranges to tile the compressed stream.
\<close>

datatype te_error =
  Raptorq rq_error
| Protocol qr_error
| NoPayload
| NotInitialized
| SessionMismatch u128 u128
| AlreadyComplete
| InvalidRedundancy u8
| TeCompress string
| SymbolIdSpaceExhausted
| InvalidResume string
| InvalidSegment string

record file_meta =
  fm_filename :: bytes
  fm_original_size :: u64
  fm_crc32 :: u32
  fm_compression :: u8
  fm_compressed_size :: u64
  fm_compressed_size_known :: bool
  fm_crc32_known :: bool

definition file_meta_default :: file_meta where
  "file_meta_default = \<lparr>fm_filename = [], fm_original_size = 0, fm_crc32 = 0,
     fm_compression = COMPRESSION_NONE, fm_compressed_size = 0, fm_compressed_size_known = False,
     fm_crc32_known = False\<rparr>"

definition SEGMENT_RAW_BYTES :: u64 where
  "SEGMENT_RAW_BYTES = MAX_OBJECT_BYTES - ucast MAX_SYMBOL_SIZE"

definition MAX_SEGMENT_COUNT :: u32 where "MAX_SEGMENT_COUNT = 131072"

record segment_meta =
  sg_root_session_id :: u128
  sg_segment_index :: u32
  sg_segment_count :: u32
  sg_original_offset :: u64
  sg_root_original_size :: u64
  sg_root_sha256 :: bytes
  sg_raw_sha256 :: bytes

definition segment_validate :: "segment_meta \<Rightarrow> u128 \<Rightarrow> file_meta \<Rightarrow> (unit, string) result" where
  "segment_validate s child_session_id fm =
     (if sg_segment_count s = 0 \<or> MAX_SEGMENT_COUNT < sg_segment_count s
      then Inl ''segment count out of range''
      else if sg_segment_count s \<le> sg_segment_index s then Inl ''segment index out of range''
      else if sg_root_original_size s = 0 then Inl ''root compressed size must be non-zero''
      else bind_result (ok_or ''segment count overflow''
             (Option.bind (Option.bind (checked_sub (sg_root_original_size s) 1)
                (\<lambda>n. checked_div n SEGMENT_RAW_BYTES)) (\<lambda>n. checked_add n 1)))
        (\<lambda>expected_count_u64.
           bind_result (ok_or ''segment count exceeds protocol budget'' (try_from expected_count_u64))
        (\<lambda>expected_count.
           if expected_count \<noteq> sg_segment_count s
           then Inl ''segment count inconsistent with compressed root size''
           else bind_result (ok_or ''segment offset overflow''
                  (checked_mul (ucast (sg_segment_index s)) SEGMENT_RAW_BYTES))
        (\<lambda>expected_offset.
           if sg_original_offset s \<noteq> expected_offset then Inl ''segment offset is not canonical''
           else bind_result (ok_or ''segment offset exceeds compressed root size''
                  (checked_sub (sg_root_original_size s) expected_offset))
        (\<lambda>remaining.
           let canonical_len = min remaining SEGMENT_RAW_BYTES in
           if \<not> fm_compressed_size_known fm \<or> fm_compressed_size fm = 0
           then Inl ''segment compressed size missing or empty''
           else if canonical_len < fm_compressed_size fm
           then Inl ''segment compressed length exceeds canonical compressed range''
           else if derive_segment (sg_root_session_id s) (sg_segment_index s) \<noteq> child_session_id
           then Inl ''segment child session id mismatch''
           else Inr ())))))"

section \<open>The specification of a segment table\<close>

definition seg_bytes :: nat where "seg_bytes = 33488904"

text \<open>A stream of \<open>n\<close> bytes has \<open>seg_count n\<close> segments; segment \<open>i\<close> covers \<open>seg_len n i\<close> bytes.\<close>

definition seg_count :: "nat \<Rightarrow> nat" where "seg_count n = (n - 1) div seg_bytes + 1"
definition seg_len :: "nat \<Rightarrow> nat \<Rightarrow> nat" where "seg_len n i = min seg_bytes (n - i * seg_bytes)"

definition segment_ok :: "segment_meta \<Rightarrow> u128 \<Rightarrow> file_meta \<Rightarrow> bool" where
  "segment_ok s child fm \<longleftrightarrow>
     (let n = unat (sg_root_original_size s); i = unat (sg_segment_index s) in
      0 < n \<and> unat (sg_segment_count s) = seg_count n \<and> seg_count n \<le> 131072 \<and> i < seg_count n \<and>
      unat (sg_original_offset s) = i * seg_bytes \<and>
      fm_compressed_size_known fm \<and> 0 < unat (fm_compressed_size fm) \<and>
      unat (fm_compressed_size fm) \<le> seg_len n i \<and>
      child = derive_segment (sg_root_session_id s) (sg_segment_index s))"

lemma SEGMENT_RAW_BYTES_unat [simp]: "unat SEGMENT_RAW_BYTES = seg_bytes"
  by (simp add: SEGMENT_RAW_BYTES_def MAX_OBJECT_BYTES_def MAX_SYMBOL_SIZE_def seg_bytes_def)

lemma seg_bytes_pos [simp]: "0 < seg_bytes"
  by (simp add: seg_bytes_def)

lemma seg_index_in: "0 < n \<Longrightarrow> i < seg_count n \<longleftrightarrow> i * seg_bytes < n"
proof -
  assume n: "0 < n"
  have "i < seg_count n \<longleftrightarrow> i \<le> (n - 1) div seg_bytes" by (auto simp: seg_count_def)
  also have "\<dots> \<longleftrightarrow> i * seg_bytes \<le> n - 1" by (rule less_eq_div_iff_mult_less_eq) simp
  also have "\<dots> \<longleftrightarrow> i * seg_bytes < n" using n by auto
  finally show ?thesis .
qed

lemma seg_len_pos: "0 < n \<Longrightarrow> i < seg_count n \<Longrightarrow> 0 < seg_len n i"
  by (simp add: seg_index_in seg_len_def)

text \<open>The segments are consecutive and their lengths add up to the stream.\<close>

lemma seg_len_sum: "0 < n \<Longrightarrow> k \<le> seg_count n \<Longrightarrow> sum_list (map (seg_len n) [0..<k]) = min n (k * seg_bytes)"
proof (induction k)
  case (Suc k)
  then have "k * seg_bytes < n" by (simp flip: seg_index_in)
  with Suc show ?case by (simp add: seg_len_def)
qed simp

lemma seg_len_total: "0 < n \<Longrightarrow> sum_list (map (seg_len n) [0..<seg_count n]) = n"
proof -
  assume n: "0 < n"
  have "\<not> seg_count n < seg_count n" by simp
  then have "n \<le> seg_count n * seg_bytes" using n seg_index_in [of n "seg_count n"] by simp
  with n show ?thesis by (simp add: seg_len_sum)
qed

lemma segment_validate_ok: "segment_validate s child fm = Inr () \<longleftrightarrow> segment_ok s child fm"
proof (cases "0 < unat (sg_root_original_size s)")
  case False
  then show ?thesis by (simp add: segment_validate_def segment_ok_def word_unat_eq_iff)
next
  case n: True
  let ?n = "unat (sg_root_original_size s)" and ?i = "unat (sg_segment_index s)"
  have n0: "sg_root_original_size s \<noteq> 0" using n by auto
  define e where "e = (of_nat (seg_count ?n) :: u64)"
  define q where "q = (of_nat ((?n - 1) div seg_bytes) :: u64)"
  have nlt: "?n < 2 ^ 64" using unat_lt [of "sg_root_original_size s"] by simp
  have qle: "(?n - 1) div seg_bytes < 2 ^ 63"
    using div_le_mono [of "?n - 1" "2 ^ 64 - 2" seg_bytes] nlt by (simp add: seg_bytes_def)
  have q: "unat q = (?n - 1) div seg_bytes" unfolding q_def using qle by (intro unat_of_nat_len) simp
  have e: "unat e = seg_count ?n" unfolding e_def using qle by (intro unat_of_nat_len) (simp add: seg_count_def)
  have d: "checked_sub (sg_root_original_size s) 1 = Some (sg_root_original_size s - 1)"
    using n by (simp add: checked_sub_Some unat_sub word_le_nat_alt)
  have dv: "checked_div (sg_root_original_size s - 1) SEGMENT_RAW_BYTES = Some q"
    using n by (simp add: checked_div_Some q unat_sub word_le_nat_alt)
  have ad: "checked_add q 1 = Some e" by (simp add: checked_add_Some q e seg_count_def)
  show ?thesis
  proof (cases "unat (sg_segment_count s) = seg_count ?n \<and> seg_count ?n \<le> 131072 \<and> ?i < seg_count ?n")
    case False
    have "segment_validate s child fm \<noteq> Inr ()"
    proof
      assume v: "segment_validate s child fm = Inr ()"
      then obtain ec :: u32 where "try_from e = Some ec" "ec = sg_segment_count s"
        "sg_segment_index s < sg_segment_count s" "sg_segment_count s \<le> MAX_SEGMENT_COUNT"
        by (auto simp: segment_validate_def n0 d dv ad not_le not_less split: if_splits)
      with e False show False
        by (simp add: try_from_Some MAX_SEGMENT_COUNT_def word_less_nat_alt word_le_nat_alt)
    qed
    with False show ?thesis by (auto simp: segment_ok_def Let_def)
  next
    case True
    then have c: "(try_from e :: u32 option) = Some (sg_segment_count s)" by (simp add: try_from_Some e)
    define off where "off = (of_nat (?i * seg_bytes) :: u64)"
    have i: "?i * seg_bytes < ?n" using True n by (simp add: seg_index_in)
    have off: "unat off = ?i * seg_bytes" unfolding off_def using i nlt by (intro unat_of_nat_len) simp
    have mul: "checked_mul (ucast (sg_segment_index s)) SEGMENT_RAW_BYTES = Some off"
      by (simp add: checked_mul_Some off)
    define rem where "rem = sg_root_original_size s - off"
    have rem: "unat rem = ?n - ?i * seg_bytes" using i off by (simp add: rem_def unat_sub word_le_nat_alt)
    have sub: "checked_sub (sg_root_original_size s) off = Some rem"
      using i off rem by (simp add: checked_sub_Some)
    have can: "unat (min rem SEGMENT_RAW_BYTES) = seg_len ?n ?i"
      using rem by (auto simp: min_def word_le_nat_alt seg_len_def)
    have pos: "sg_segment_count s \<noteq> 0" "\<not> MAX_SEGMENT_COUNT < sg_segment_count s"
      "\<not> sg_segment_count s \<le> sg_segment_index s"
      using True by (auto simp: word_le_nat_alt word_less_nat_alt MAX_SEGMENT_COUNT_def)
    have "segment_validate s child fm = Inr () \<longleftrightarrow>
       sg_original_offset s = off \<and> fm_compressed_size_known fm \<and> fm_compressed_size fm \<noteq> 0 \<and>
       \<not> min rem SEGMENT_RAW_BYTES < fm_compressed_size fm \<and>
       derive_segment (sg_root_session_id s) (sg_segment_index s) = child"
      using pos by (simp add: segment_validate_def n0 d dv ad c mul sub Let_def del: min_less_iff_conj not_less not_le)
    also have "sg_original_offset s = off \<longleftrightarrow> unat (sg_original_offset s) = ?i * seg_bytes"
      by (simp only: word_unat_eq_iff off)
    also have "fm_compressed_size fm \<noteq> 0 \<longleftrightarrow> 0 < unat (fm_compressed_size fm)" by (simp add: unat_gt_0)
    also have "\<not> min rem SEGMENT_RAW_BYTES < fm_compressed_size fm \<longleftrightarrow> unat (fm_compressed_size fm) \<le> seg_len ?n ?i"
      by (simp only: word_less_nat_alt can not_less)
    also have "(unat (sg_original_offset s) = ?i * seg_bytes \<and> fm_compressed_size_known fm \<and>
        0 < unat (fm_compressed_size fm) \<and> unat (fm_compressed_size fm) \<le> seg_len ?n ?i \<and>
        derive_segment (sg_root_session_id s) (sg_segment_index s) = child) \<longleftrightarrow> segment_ok s child fm"
      using True n unfolding segment_ok_def Let_def by blast
    finally show ?thesis .
  qed
qed

text \<open>
  \<open>SegmentMeta::validate\<close> accepts exactly the coordinates of the specification: the
  segment count and offset that the size of the compressed stream dictates, a compressed
  length inside the canonical range, and the child session derived for the index.
\<close>

lemma segment_validate_exact: "segment_validate s child fm = Inr () \<longleftrightarrow> segment_ok s child fm"
  by (rule segment_validate_ok)

text \<open>
  Two accepted segments of the same root either are the same segment or cover disjoint
  ranges of the compressed stream, and every accepted range lies inside the stream; which of
  the two it is can be read off the child session identifiers.
\<close>

lemma accepted_segments_disjoint:
  assumes "segment_validate s c fm = Inr ()" "segment_validate s' c' fm' = Inr ()"
    and "sg_root_session_id s = sg_root_session_id s'" "sg_root_original_size s = sg_root_original_size s'"
    and "off = unat (sg_original_offset s)" "len = unat (fm_compressed_size fm)"
    and "off' = unat (sg_original_offset s')" "len' = unat (fm_compressed_size fm')"
  shows "off + len \<le> unat (sg_root_original_size s) \<and>
    (if c = c' then sg_segment_index s = sg_segment_index s' \<and> off = off'
     else off + len \<le> off' \<or> off' + len' \<le> off)"
proof -
  let ?n = "unat (sg_root_original_size s)"
  let ?i = "unat (sg_segment_index s)" and ?j = "unat (sg_segment_index s')"
  from assms have s: "segment_ok s c fm" "segment_ok s' c' fm'" by (simp_all add: segment_validate_ok)
  with assms have o1: "off = ?i * seg_bytes" "off' = ?j * seg_bytes" "len \<le> seg_len ?n ?i" "len' \<le> seg_len ?n ?j"
    and c: "c = c' \<longleftrightarrow> sg_segment_index s = sg_segment_index s'"
    and i: "?i * seg_bytes < ?n"
    by (auto simp: segment_ok_def Let_def derive_segment_inj simp flip: seg_index_in)
  have "off + len \<le> off'" if "?i < ?j"
  proof -
    have "Suc ?i * seg_bytes \<le> ?j * seg_bytes" using that by (intro mult_le_mono1) simp
    with o1 show ?thesis by (simp add: seg_len_def)
  qed
  moreover have "off' + len' \<le> off" if "?j < ?i"
  proof -
    have "Suc ?j * seg_bytes \<le> ?i * seg_bytes" using that by (intro mult_le_mono1) simp
    with o1 show ?thesis by (simp add: seg_len_def)
  qed
  moreover have "c \<noteq> c' \<Longrightarrow> ?i < ?j \<or> ?j < ?i" using c by (metis nat_neq_iff word_unat_eq_iff)
  moreover have "off + len \<le> ?n"
  proof -
    have "len \<le> ?n - ?i * seg_bytes" using o1(3) by (simp add: seg_len_def)
    with o1(1) i show ?thesis by linarith
  qed
  ultimately show ?thesis using c o1 by auto
qed

definition demo_segment :: "u32 \<Rightarrow> u64 \<Rightarrow> segment_meta" where
  "demo_segment i off = \<lparr>sg_root_session_id = 7, sg_segment_index = i, sg_segment_count = 2,
     sg_original_offset = off, sg_root_original_size = 33488909, sg_root_sha256 = replicate 32 0,
     sg_raw_sha256 = replicate 32 1\<rparr>"

definition demo_segment_file :: "u64 \<Rightarrow> file_meta" where
  "demo_segment_file n = file_meta_default\<lparr>fm_compressed_size := n, fm_compressed_size_known := True\<rparr>"

lemma accepted_segments_disjoint_witness:
  "segment_validate (demo_segment 0 0) (derive_segment 7 0) (demo_segment_file 33488904) = Inr () \<and>
   segment_validate (demo_segment 1 33488904) (derive_segment 7 1) (demo_segment_file 5) = Inr () \<and>
   (33488904 + 5 :: nat) \<le> unat (sg_root_original_size (demo_segment 1 33488904))"
proof -
  have v: "segment_validate (demo_segment 0 0) (derive_segment 7 0) (demo_segment_file 33488904) = Inr ()"
    "segment_validate (demo_segment 1 33488904) (derive_segment 7 1) (demo_segment_file 5) = Inr ()"
    unfolding segment_validate_ok
    by (simp_all add: segment_ok_def demo_segment_def demo_segment_file_def file_meta_default_def Let_def
        seg_count_def seg_len_def seg_bytes_def)
  have "unat (sg_original_offset (demo_segment 1 33488904)) + unat (fm_compressed_size (demo_segment_file 5))
      \<le> unat (sg_root_original_size (demo_segment 1 33488904))"
    by (rule accepted_segments_disjoint [OF v(2,1) _ _ refl refl refl refl, THEN conjunct1])
      (simp_all add: demo_segment_def)
  with v show ?thesis by (simp add: demo_segment_def demo_segment_file_def)
qed

end
