(* ===== verification/Descriptor.thy ===== *)
theory Descriptor
  imports Segment
begin

text \<open>
  Descriptor frames, \<open>core/transfer-engine/src/descriptor.rs\<close>: the writer that fits object
  metadata, file metadata and segment coordinates into one symbol, and the version-gated
  parser.  Writing through a zeroed buffer at consecutive offsets is concatenation followed
  by zero padding.  The parser is shown to invert the writer, to reject the versions it must,
  and to read only bytes of its input.
\<close>

record descriptor_info =
  di_meta :: object_meta
  di_file_meta :: file_meta
  di_segment :: "segment_meta option"

definition DESC_MAGIC :: u8 where "DESC_MAGIC = 0xD5"
definition DESC_VERSION :: u8 where "DESC_VERSION = 5"
definition DESC_LEGACY_V4 :: u8 where "DESC_LEGACY_V4 = 4"
definition DESC_V3_VERSION :: u8 where "DESC_V3_VERSION = 3"
definition DESC_FIXED_OVERHEAD :: nat where "DESC_FIXED_OVERHEAD = 28"
definition DESC_V2_TAIL_FIXED :: nat where "DESC_V2_TAIL_FIXED = 13"
definition DESC_V3_TAIL_FIXED :: nat where "DESC_V3_TAIL_FIXED = 9"
definition DESC_SEGMENT_TAIL_FIXED :: nat where "DESC_SEGMENT_TAIL_FIXED = 16 + 4 + 4 + 8 + 8 + 32 + 32"

section \<open>Writing\<close>

definition block_bytes :: "source_block_meta \<Rightarrow> bytes" where
  "block_bytes b = be_bytes 4 (b_sbn b) @ be_bytes 4 (b_num_source_symbols b) @ be_bytes 8 (b_block_length b)"

definition segment_bytes :: "segment_meta \<Rightarrow> bytes" where
  "segment_bytes s =
     be_bytes 16 (sg_root_session_id s) @ be_bytes 4 (sg_segment_index s) @
     be_bytes 4 (sg_segment_count s) @ be_bytes 8 (sg_original_offset s) @
     be_bytes 8 (sg_root_original_size s) @ sg_root_sha256 s @ sg_raw_sha256 s"

definition filename_len :: "object_meta \<Rightarrow> file_meta \<Rightarrow> segment_meta option \<Rightarrow> nat" where
  "filename_len meta fm seg =
     (let segment_tail = (if seg \<noteq> None then DESC_SEGMENT_TAIL_FIXED else 0);
          available = unat (m_symbol_size meta) -
            (DESC_FIXED_OVERHEAD + length (m_blocks meta) * 16 + DESC_V2_TAIL_FIXED +
             DESC_V3_TAIL_FIXED + segment_tail)
      in floor_boundary (fm_filename fm) (min (min (length (fm_filename fm)) available) 255))"

definition build_payload_inner ::
  "object_meta \<Rightarrow> file_meta \<Rightarrow> segment_meta option \<Rightarrow> (bytes, te_error) result" where
  "build_payload_inner meta fm seg =
     (let symbol_size = unat (m_symbol_size meta);
          blocks_len = length (m_blocks meta) * 16;
          segment_tail = (if seg \<noteq> None then DESC_SEGMENT_TAIL_FIXED else 0);
          fn_len = filename_len meta fm seg;
          body_len = DESC_FIXED_OVERHEAD + blocks_len + 1 + fn_len + DESC_V2_TAIL_FIXED - 1 +
            DESC_V3_TAIL_FIXED + segment_tail
      in if symbol_size < body_len then Inl (Protocol (BufferTooShort body_len symbol_size))
         else let body =
             DESC_MAGIC # (if seg \<noteq> None then DESC_VERSION else DESC_V3_VERSION) #
             be_bytes 2 (of_nat (length (m_blocks meta)) :: u16) @
             be_bytes 8 (m_transfer_length meta) @ be_bytes 4 (m_symbol_size meta) @ m_oti_bytes meta @
             concat (map block_bytes (m_blocks meta)) @
             of_nat fn_len # take fn_len (fm_filename fm) @
             be_bytes 8 (fm_original_size fm) @ be_bytes 4 (fm_crc32 fm) @
             fm_compression fm # be_bytes 8 (fm_compressed_size fm) @
             (case seg of None \<Rightarrow> [] | Some s \<Rightarrow> segment_bytes s)
           in Inr (body @ replicate (symbol_size - length body) 0))"

definition build_payload :: "object_meta \<Rightarrow> file_meta \<Rightarrow> (bytes, te_error) result" where
  "build_payload meta fm = build_payload_inner meta fm None"

definition build_segment_payload :: "object_meta \<Rightarrow> file_meta \<Rightarrow> segment_meta \<Rightarrow> (bytes, te_error) result" where
  "build_segment_payload meta fm seg = build_payload_inner meta fm (Some seg)"

text \<open>The \<open>u32\<close> sum over the block table, which wraps.\<close>

definition total_symbols :: "object_meta \<Rightarrow> u32" where
  "total_symbols meta = foldl (+) 0 (map b_num_source_symbols (m_blocks meta))"

definition build_frame ::
  "(bytes \<Rightarrow> u32) \<Rightarrow> object_meta \<Rightarrow> file_meta \<Rightarrow> u128 \<Rightarrow> u64 \<Rightarrow> u64 \<Rightarrow> (frame, te_error) result" where
  "build_frame crc meta fm session_id frame_index timestamp_ms =
     bind_result (build_payload meta fm) (\<lambda>payload.
       Inr (frame_build crc session_id FLAG_DESCRIPTOR 0 0 (of_nat (length (m_blocks meta)))
              (total_symbols meta) (m_symbol_size meta) frame_index timestamp_ms payload))"

definition build_segment_frame ::
  "(bytes \<Rightarrow> u32) \<Rightarrow> object_meta \<Rightarrow> file_meta \<Rightarrow> segment_meta \<Rightarrow> u128 \<Rightarrow> u64 \<Rightarrow> u64 \<Rightarrow> (frame, te_error) result" where
  "build_segment_frame crc meta fm seg child_session_id frame_index timestamp_ms =
     bind_result (map_err InvalidSegment (segment_validate seg child_session_id fm)) (\<lambda>_.
     bind_result (build_segment_payload meta fm seg) (\<lambda>payload.
       Inr (frame_build crc child_session_id FLAG_DESCRIPTOR 0 0 (of_nat (length (m_blocks meta)))
              (total_symbols meta) (m_symbol_size meta) frame_index timestamp_ms payload)))"

section \<open>Parsing\<close>

fun parse_blocks :: "bytes \<Rightarrow> nat \<Rightarrow> nat \<Rightarrow> source_block_meta list" where
  "parse_blocks p off 0 = []"
| "parse_blocks p off (Suc n) =
     \<lparr>b_sbn = be_word (slice p off 4), b_num_source_symbols = be_word (slice p (off + 4) 4),
      b_block_length = be_word (slice p (off + 8) 8)\<rparr> # parse_blocks p (off + 16) n"

text \<open>The file metadata from offset \<open>off\<close>, with the offset behind it.\<close>

definition parse_file_meta :: "u8 \<Rightarrow> bytes \<Rightarrow> nat \<Rightarrow> (file_meta \<times> nat) option" where
  "parse_file_meta version p off =
     (if version = 1 then Some (file_meta_default, off)
      else if length p \<le> off then None
      else let fn_len = unat (p ! off); o1 = off + 1 in
        if length p < o1 + fn_len + 12 then None
        else let filename = slice p o1 fn_len; o2 = o1 + fn_len in
          if \<not> utf8_valid filename then None
          else let original_size = be_word (slice p o2 8); crc = be_word (slice p (o2 + 8) 4);
                   o3 = o2 + 12 in
            if DESC_V3_VERSION \<le> version then
              (if length p < o3 + DESC_V3_TAIL_FIXED then None
               else Some (\<lparr>fm_filename = filename, fm_original_size = original_size, fm_crc32 = crc,
                     fm_compression = p ! o3, fm_compressed_size = be_word (slice p (o3 + 1) 8),
                     fm_compressed_size_known = True, fm_crc32_known = True\<rparr>, o3 + 9))
            else Some (\<lparr>fm_filename = filename, fm_original_size = original_size, fm_crc32 = crc,
                   fm_compression = COMPRESSION_NONE, fm_compressed_size = original_size,
                   fm_compressed_size_known = True, fm_crc32_known = True\<rparr>, o3))"

definition parse_segment :: "bytes \<Rightarrow> nat \<Rightarrow> segment_meta" where
  "parse_segment p off =
     \<lparr>sg_root_session_id = be_word (slice p off 16),
      sg_segment_index = be_word (slice p (off + 16) 4),
      sg_segment_count = be_word (slice p (off + 20) 4),
      sg_original_offset = be_word (slice p (off + 24) 8),
      sg_root_original_size = be_word (slice p (off + 32) 8),
      sg_root_sha256 = slice p (off + 40) 32,
      sg_raw_sha256 = slice p (off + 72) 32\<rparr>"

definition parse_payload :: "bytes \<Rightarrow> descriptor_info option" where
  "parse_payload p =
     (if length p < DESC_FIXED_OVERHEAD \<or> p ! 0 \<noteq> DESC_MAGIC then None
      else let version = p ! 1 in
        if \<not> (1 \<le> version \<and> version \<le> DESC_VERSION) then None
        else if version = DESC_LEGACY_V4 then None
        else let num_blocks = unat (be_word (slice p 2 2) :: u16);
                 blocks_end = DESC_FIXED_OVERHEAD + num_blocks * 16 in
          if length p < blocks_end then None
          else let meta = \<lparr>m_transfer_length = be_word (slice p 4 8), m_symbol_size = be_word (slice p 12 4),
                          m_oti_bytes = slice p 16 12,
                          m_blocks = parse_blocks p DESC_FIXED_OVERHEAD num_blocks\<rparr> in
            (case parse_file_meta version p blocks_end of
               None \<Rightarrow> None
             | Some (fm, off) \<Rightarrow>
                 if version = DESC_VERSION then
                   (if length p < off + DESC_SEGMENT_TAIL_FIXED then None
                    else Some \<lparr>di_meta = meta, di_file_meta = fm, di_segment = Some (parse_segment p off)\<rparr>)
                 else Some \<lparr>di_meta = meta, di_file_meta = fm, di_segment = None\<rparr>))"

lemmas desc_consts = DESC_MAGIC_def DESC_VERSION_def DESC_LEGACY_V4_def DESC_V3_VERSION_def
  DESC_FIXED_OVERHEAD_def DESC_V2_TAIL_FIXED_def DESC_V3_TAIL_FIXED_def DESC_SEGMENT_TAIL_FIXED_def

section \<open>Round trip\<close>

text \<open>What the Rust types guarantee: the fixed-size arrays and a well-formed file name.\<close>

definition desc_wf :: "object_meta \<Rightarrow> file_meta \<Rightarrow> segment_meta option \<Rightarrow> bool" where
  "desc_wf meta fm seg \<longleftrightarrow>
     length (m_oti_bytes meta) = 12 \<and> length (m_blocks meta) < 65536 \<and> utf8_valid (fm_filename fm) \<and>
     (\<forall>s. seg = Some s \<longrightarrow> length (sg_root_sha256 s) = 32 \<and> length (sg_raw_sha256 s) = 32)"

text \<open>The room the fixed fields need.\<close>

definition desc_fixed_len :: "object_meta \<Rightarrow> segment_meta option \<Rightarrow> nat" where
  "desc_fixed_len meta seg = 50 + 16 * length (m_blocks meta) + (if seg = None then 0 else 104)"

lemma length_block_bytes [simp, wire_simps]: "length (block_bytes b) = 16"
  by (simp add: block_bytes_def)

lemma length_concat_blocks [simp, wire_simps]: "length (concat (map block_bytes bs)) = 16 * length bs"
  by (induction bs) simp_all

lemma length_segment_bytes:
  "length (sg_root_sha256 s) = 32 \<Longrightarrow> length (sg_raw_sha256 s) = 32 \<Longrightarrow> length (segment_bytes s) = 104"
  by (simp add: segment_bytes_def)

lemma parse_blocks_append:
  "length pre = off \<Longrightarrow> parse_blocks (pre @ concat (map block_bytes bs) @ rest) off (length bs) = bs"
proof (induction bs arbitrary: pre off)
  case (Cons b bs)
  have "parse_blocks (pre @ block_bytes b @ concat (map block_bytes bs) @ rest) (off + 16) (length bs) = bs"
    using Cons.IH [of "pre @ block_bytes b" "off + 16"] Cons.prems by simp
  moreover have "slice (pre @ block_bytes b @ r) off 4 = be_bytes 4 (b_sbn b)"
    "slice (pre @ block_bytes b @ r) (off + 4) 4 = be_bytes 4 (b_num_source_symbols b)"
    "slice (pre @ block_bytes b @ r) (off + 8) 8 = be_bytes 8 (b_block_length b)" for r
    using Cons.prems by (simp_all add: block_bytes_def wire_simps)
  ultimately show ?case by (simp add: field_get_put)
qed simp

lemma parse_segment_append:
  assumes "length pre = off" "length (sg_root_sha256 s) = 32" "length (sg_raw_sha256 s) = 32"
  shows "parse_segment (pre @ segment_bytes s @ rest) off = s"
  using assms by (simp add: parse_segment_def segment_bytes_def wire_simps)

lemma filename_len_bound:
  "filename_len meta fm seg \<le> min (min (length (fm_filename fm))
     (unat (m_symbol_size meta) - desc_fixed_len meta seg)) 255"
proof -
  have "DESC_FIXED_OVERHEAD + length (m_blocks meta) * 16 + DESC_V2_TAIL_FIXED + DESC_V3_TAIL_FIXED +
      (if seg \<noteq> None then DESC_SEGMENT_TAIL_FIXED else 0) = desc_fixed_len meta seg"
    by (simp add: desc_consts desc_fixed_len_def)
  then show ?thesis unfolding filename_len_def Let_def by (simp only: floor_boundary_le)
qed

lemma build_payload_fails:
  "(\<exists>e. build_payload_inner meta fm seg = Inl e) \<longleftrightarrow> unat (m_symbol_size meta) < desc_fixed_len meta seg"
  using filename_len_bound [of meta fm seg]
  by (cases seg) (auto simp: build_payload_inner_def Let_def desc_consts desc_fixed_len_def)

text \<open>The body of a descriptor that fits, before padding.\<close>

definition desc_body :: "object_meta \<Rightarrow> file_meta \<Rightarrow> segment_meta option \<Rightarrow> bytes" where
  "desc_body meta fm seg =
     DESC_MAGIC # (if seg \<noteq> None then DESC_VERSION else DESC_V3_VERSION) #
     be_bytes 2 (of_nat (length (m_blocks meta)) :: u16) @
     be_bytes 8 (m_transfer_length meta) @ be_bytes 4 (m_symbol_size meta) @ m_oti_bytes meta @
     concat (map block_bytes (m_blocks meta)) @
     of_nat (filename_len meta fm seg) # take (filename_len meta fm seg) (fm_filename fm) @
     be_bytes 8 (fm_original_size fm) @ be_bytes 4 (fm_crc32 fm) @
     fm_compression fm # be_bytes 8 (fm_compressed_size fm) @
     (case seg of None \<Rightarrow> [] | Some s \<Rightarrow> segment_bytes s)"

lemma length_desc_body:
  assumes "desc_wf meta fm seg"
  shows "length (desc_body meta fm seg) = desc_fixed_len meta seg + filename_len meta fm seg"
  using assms filename_len_bound [of meta fm seg]
  by (auto simp: desc_body_def desc_wf_def desc_fixed_len_def length_segment_bytes split: option.splits)

lemma build_payload_Inr:
  assumes "desc_wf meta fm seg" "build_payload_inner meta fm seg = Inr p"
  shows "p = desc_body meta fm seg @ replicate (unat (m_symbol_size meta) - length (desc_body meta fm seg)) 0"
    "length p = unat (m_symbol_size meta)"
proof -
  have body: "desc_fixed_len meta seg + filename_len meta fm seg \<le> unat (m_symbol_size meta)"
    using assms(2) filename_len_bound [of meta fm seg]
    by (auto simp: build_payload_inner_def Let_def desc_consts desc_fixed_len_def split: if_splits)
  show p: "p = desc_body meta fm seg @ replicate (unat (m_symbol_size meta) - length (desc_body meta fm seg)) 0"
    using assms(2) by (simp add: build_payload_inner_def Let_def desc_body_def split: if_splits)
  show "length p = unat (m_symbol_size meta)"
    unfolding p using body length_desc_body [OF assms(1)] by simp
qed

text \<open>The file metadata as it comes back: a shortened name, and both runtime flags set.\<close>

definition sent_file_meta :: "object_meta \<Rightarrow> file_meta \<Rightarrow> segment_meta option \<Rightarrow> file_meta" where
  "sent_file_meta meta fm seg = fm\<lparr>fm_filename := take (filename_len meta fm seg) (fm_filename fm),
     fm_compressed_size_known := True, fm_crc32_known := True\<rparr>"

lemma parse_file_meta_append:
  assumes "length pre = off" "n \<le> 255" "n \<le> length (fm_filename fm)" "utf8_valid (take n (fm_filename fm))"
    "3 \<le> version"
  shows "parse_file_meta version (pre @ of_nat n # take n (fm_filename fm) @ be_bytes 8 (fm_original_size fm) @
      be_bytes 4 (fm_crc32 fm) @ fm_compression fm # be_bytes 8 (fm_compressed_size fm) @ rest) off =
    Some (fm\<lparr>fm_filename := take n (fm_filename fm), fm_compressed_size_known := True, fm_crc32_known := True\<rparr>,
      off + 22 + n)"
proof -
  have n: "unat (of_nat n :: u8) = n" using assms(2) by (intro unat_of_nat_len) simp
  have v: "version \<noteq> 1" using assms(5) by (auto simp: word_le_nat_alt)
  show ?thesis using assms n v
    by (simp add: parse_file_meta_def Let_def wire_simps nth_append desc_consts)
qed

lemma parse_build:
  assumes wf: "desc_wf meta fm seg" and "build_payload_inner meta fm seg = Inr p"
  shows "parse_payload p = Some \<lparr>di_meta = meta, di_file_meta = sent_file_meta meta fm seg, di_segment = seg\<rparr>"
proof -
  define n where "n = filename_len meta fm seg"
  define z where "z = replicate (unat (m_symbol_size meta) - length (desc_body meta fm seg)) (0 :: u8)"
  define tail where "tail = (case seg of None \<Rightarrow> [] | Some s \<Rightarrow> segment_bytes s)"
  define ver where "ver = (if seg \<noteq> None then DESC_VERSION else DESC_V3_VERSION)"
  define pre where "pre = DESC_MAGIC # ver # be_bytes 2 (of_nat (length (m_blocks meta)) :: u16) @
     be_bytes 8 (m_transfer_length meta) @ be_bytes 4 (m_symbol_size meta) @ m_oti_bytes meta"
  define bl where "bl = concat (map block_bytes (m_blocks meta))"
  define mid where "mid = of_nat n # take n (fm_filename fm) @ be_bytes 8 (fm_original_size fm) @
     be_bytes 4 (fm_crc32 fm) @ fm_compression fm # be_bytes 8 (fm_compressed_size fm)"
  have p: "p = pre @ bl @ mid @ tail @ z"
    using build_payload_Inr(1) [OF assms]
    by (simp add: desc_body_def n_def z_def tail_def pre_def bl_def mid_def ver_def)
  have n: "n \<le> 255" "n \<le> length (fm_filename fm)" using filename_len_bound [of meta fm seg] by (simp_all add: n_def)
  have lens: "length pre = 28" "length bl = 16 * length (m_blocks meta)" "length mid = 22 + n"
    using wf n by (simp_all add: pre_def bl_def mid_def desc_wf_def)
  have "is_char_boundary (fm_filename fm) n" by (simp add: n_def filename_len_def Let_def floor_boundary_is)
  then have utf: "utf8_valid (take n (fm_filename fm))" using wf by (simp add: desc_wf_def utf8_valid_take)
  have nb: "unat (of_nat (length (m_blocks meta)) :: u16) = length (m_blocks meta)"
    using wf by (intro unat_of_nat_len) (simp add: desc_wf_def)
  have head: "p ! 0 = DESC_MAGIC" "p ! Suc 0 = ver" "be_word (slice p 2 2) = (of_nat (length (m_blocks meta)) :: u16)"
    "be_word (slice p 4 8) = m_transfer_length meta" "be_word (slice p 12 4) = m_symbol_size meta"
    "slice p 16 12 = m_oti_bytes meta"
    using wf by (simp_all add: p pre_def desc_wf_def wire_simps)
  have blocks: "parse_blocks p 28 (length (m_blocks meta)) = m_blocks meta"
    unfolding p bl_def by (rule parse_blocks_append) (rule lens)
  have fmeta: "parse_file_meta ver p (28 + length (m_blocks meta) * 16) =
      Some (sent_file_meta meta fm seg, 28 + length (m_blocks meta) * 16 + 22 + n)"
    using parse_file_meta_append [of "pre @ bl" "28 + length (m_blocks meta) * 16" n fm ver "tail @ z"] lens n utf
    by (simp add: p mid_def sent_file_meta_def n_def [symmetric]) (simp add: ver_def desc_consts)
  have seg: "parse_segment p (28 + length (m_blocks meta) * 16 + 22 + n) = s" if "seg = Some s" for s
    using that wf parse_segment_append [of "pre @ bl @ mid" "28 + length (m_blocks meta) * 16 + 22 + n" s z] lens
    by (simp add: p tail_def desc_wf_def)
  have len: "length p = 28 + length (m_blocks meta) * 16 + 22 + n + length tail + length z"
    using lens by (simp add: p)
  have tl: "length tail = 104" if "seg = Some s" for s
    using that wf by (simp add: tail_def desc_wf_def length_segment_bytes)
  have ver: "1 \<le> ver" "ver \<le> DESC_VERSION" "ver \<noteq> DESC_LEGACY_V4" "ver = DESC_VERSION \<longleftrightarrow> seg \<noteq> None"
    by (simp_all add: ver_def desc_consts)
  have "\<not> length p < 28 + length (m_blocks meta) * 16" "\<not> length p < 28" using len by simp_all
  then show ?thesis
    using len ver seg tl fmeta
    by (cases seg) (simp_all add: parse_payload_def Let_def head nb blocks fmeta DESC_FIXED_OVERHEAD_def
        DESC_SEGMENT_TAIL_FIXED_def)
qed

lemma filename_len_greatest:
  assumes "is_char_boundary (fm_filename fm) k" "k \<le> length (fm_filename fm)" "k \<le> 255"
    "desc_fixed_len meta seg + k \<le> unat (m_symbol_size meta)"
  shows "k \<le> filename_len meta fm seg"
proof -
  have "DESC_FIXED_OVERHEAD + length (m_blocks meta) * 16 + DESC_V2_TAIL_FIXED + DESC_V3_TAIL_FIXED +
      (if seg \<noteq> None then DESC_SEGMENT_TAIL_FIXED else 0) = desc_fixed_len meta seg"
    by (simp add: desc_consts desc_fixed_len_def)
  then show ?thesis using assms
    unfolding filename_len_def Let_def by (simp only:) (auto intro!: floor_boundary_greatest)
qed

text \<open>
  C38: a descriptor that is written is one symbol long and parses back to the same object
  metadata, the same segment coordinates and the same file metadata, with the file name cut
  to its longest prefix of whole characters that fits the symbol and 255 bytes.
\<close>

theorem descriptor_roundtrip:
  assumes "desc_wf meta fm seg" "build_payload_inner meta fm seg = Inr p"
  shows "length p = unat (m_symbol_size meta) \<and>
    (\<exists>n. parse_payload p = Some \<lparr>di_meta = meta,
       di_file_meta = fm\<lparr>fm_filename := take n (fm_filename fm), fm_compressed_size_known := True,
         fm_crc32_known := True\<rparr>, di_segment = seg\<rparr> \<and>
     n \<le> length (fm_filename fm) \<and> utf8_valid (take n (fm_filename fm)) \<and>
     (\<forall>k \<le> length (fm_filename fm). is_char_boundary (fm_filename fm) k \<and> k \<le> 255 \<and>
        desc_fixed_len meta seg + k \<le> unat (m_symbol_size meta) \<longrightarrow> k \<le> n))"
proof -
  let ?n = "filename_len meta fm seg"
  have "is_char_boundary (fm_filename fm) ?n" by (simp add: filename_len_def Let_def floor_boundary_is)
  then have "utf8_valid (take ?n (fm_filename fm))" using assms(1) by (simp add: desc_wf_def utf8_valid_take)
  then show ?thesis
    using parse_build [OF assms] build_payload_Inr(2) [OF assms] filename_len_bound [of meta fm seg]
      filename_len_greatest [of fm _ meta seg]
    by (auto simp: sent_file_meta_def intro!: exI [of _ ?n])
qed

text \<open>
  A descriptor is refused exactly when its fixed fields do not fit one symbol: 50 bytes,
  16 per source block and 104 for segment coordinates.  In particular no session with the
  smallest accepted symbol size of 64 bytes can emit one.
\<close>

lemma descriptor_fails_iff:
  "((\<exists>e. build_payload_inner meta fm seg = Inl e) \<longleftrightarrow>
      unat (m_symbol_size meta) < 50 + 16 * length (m_blocks meta) + (if seg = None then 0 else 104)) \<and>
   \<not> (m_symbol_size meta = MIN_SYMBOL_SIZE \<and> m_blocks meta \<noteq> [] \<and>
        build_payload_inner meta fm seg = Inr p)"
proof -
  have "\<exists>e. build_payload_inner meta fm seg = Inl e"
    if "m_symbol_size meta = MIN_SYMBOL_SIZE" "m_blocks meta \<noteq> []"
    unfolding build_payload_fails using that by (cases "m_blocks meta") (simp_all add: MIN_SYMBOL_SIZE_def desc_fixed_len_def)
  then show ?thesis using build_payload_fails [of meta fm seg] by (auto simp: desc_fixed_len_def)
qed

section \<open>What the parser refuses and what it reads\<close>

lemma slice_extend: "off + n \<le> length p \<Longrightarrow> slice (p @ q) off n = slice p off n"
  by (simp add: slice_def)

lemma parse_blocks_extend: "off + n * 16 \<le> length p \<Longrightarrow> parse_blocks (p @ q) off n = parse_blocks p off n"
  by (induction n arbitrary: off) (simp_all add: slice_extend)

lemma parse_file_meta_extend:
  assumes "parse_file_meta version p off = Some (fm, off')" "off \<le> length p"
  shows "parse_file_meta version (p @ q) off = Some (fm, off') \<and> off' \<le> length p"
proof (cases "version = 1")
  case True
  then show ?thesis using assms by (simp add: parse_file_meta_def)
next
  case False
  let ?n = "unat (p ! off)"
  from False assms(1) have l: "off < length p" "off + 1 + ?n + 12 \<le> length p"
    "DESC_V3_VERSION \<le> version \<Longrightarrow> off + 1 + ?n + 12 + 9 \<le> length p"
    by (auto simp: parse_file_meta_def Let_def desc_consts split: if_splits)
  have e: "slice (p @ q) (off + 1) ?n = slice p (off + 1) ?n"
    "slice (p @ q) (off + 1 + ?n) 8 = slice p (off + 1 + ?n) 8"
    "slice (p @ q) (off + 1 + ?n + 8) 4 = slice p (off + 1 + ?n + 8) 4" "(p @ q) ! off = p ! off"
    using l by (simp_all add: slice_extend nth_append)
  have e3: "(p @ q) ! (off + 1 + ?n + 12) = p ! (off + 1 + ?n + 12)"
    "slice (p @ q) (off + 1 + ?n + 12 + 1) 8 = slice p (off + 1 + ?n + 12 + 1) 8"
    if "DESC_V3_VERSION \<le> version"
    using l(3) [OF that] by (simp_all add: slice_extend nth_append)
  have len: "\<not> length (p @ q) < off + 1 + ?n + 12" "\<not> length (p @ q) \<le> off" using l by simp_all
  show ?thesis
  proof (cases "DESC_V3_VERSION \<le> version")
    case True
    then have "\<not> length (p @ q) < off + 1 + ?n + 12 + DESC_V3_TAIL_FIXED"
      using l(3) by (simp add: desc_consts)
    with assms(1) False True l e e3 [OF True] len show ?thesis
      by (simp add: parse_file_meta_def Let_def DESC_V3_TAIL_FIXED_def split: if_splits)
  next
    case v2: False
    with assms(1) False l e len show ?thesis
      by (simp add: parse_file_meta_def Let_def split: if_splits)
  qed
qed

lemma parse_segment_extend:
  "off + 104 \<le> length p \<Longrightarrow> parse_segment (p @ q) off = parse_segment p off"
  by (simp add: parse_segment_def slice_extend)

text \<open>
  The parser never reads past its input: whatever follows an accepted descriptor, the
  result stays the same.
\<close>

lemma parse_reads_inside:
  assumes "parse_payload p = Some d"
  shows "parse_payload (p @ q) = Some d"
proof -
  let ?v = "p ! 1" and ?nb = "unat (be_word (slice p 2 2) :: u16)"
  from assms have h: "28 \<le> length p" "p ! 0 = DESC_MAGIC" "1 \<le> ?v" "?v \<le> DESC_VERSION" "?v \<noteq> DESC_LEGACY_V4"
    "28 + ?nb * 16 \<le> length p"
    by (auto simp: parse_payload_def Let_def DESC_FIXED_OVERHEAD_def split: if_splits)
  then obtain fm off where f: "parse_file_meta ?v p (28 + ?nb * 16) = Some (fm, off)"
    using assms by (auto simp: parse_payload_def Let_def DESC_FIXED_OVERHEAD_def split: option.splits)
  have seg: "off + 104 \<le> length p" if "?v = DESC_VERSION"
    using assms that f h
    by (auto simp: parse_payload_def Let_def DESC_FIXED_OVERHEAD_def DESC_SEGMENT_TAIL_FIXED_def split: if_splits)
  have f': "parse_file_meta ?v (p @ q) (28 + ?nb * 16) = Some (fm, off)"
    using parse_file_meta_extend [OF f h(6)] by simp
  have e: "(p @ q) ! 0 = p ! 0" "(p @ q) ! 1 = p ! 1" "slice (p @ q) 2 2 = slice p 2 2"
    "slice (p @ q) 4 8 = slice p 4 8" "slice (p @ q) 12 4 = slice p 12 4" "slice (p @ q) 16 12 = slice p 16 12"
    "parse_blocks (p @ q) 28 ?nb = parse_blocks p 28 ?nb"
    using h by (auto simp: nth_append slice_extend parse_blocks_extend)
  show ?thesis
  proof (cases "?v = DESC_VERSION")
    case True
    with assms h f f' e seg [OF True] show ?thesis
      by (simp add: parse_payload_def Let_def DESC_FIXED_OVERHEAD_def DESC_SEGMENT_TAIL_FIXED_def
          parse_segment_extend)
  next
    case False
    with assms h f f' e show ?thesis
      by (simp add: parse_payload_def Let_def DESC_FIXED_OVERHEAD_def)
  qed
qed

text \<open>
  The version byte gates the parser: nothing but versions 1, 2, 3 and 5 is read (the
  withdrawn version 4 is refused), segment coordinates come from version 5 and only from
  version 5, and version 1 carries no file metadata.
\<close>

lemma parse_version_gate:
  assumes "parse_payload p = Some d"
  shows "p ! 0 = 0xD5 \<and> p ! 1 \<in> {1, 2, 3, 5} \<and> (di_segment d \<noteq> None \<longleftrightarrow> p ! 1 = 5) \<and>
    (p ! 1 = 1 \<longrightarrow> di_file_meta d = file_meta_default) \<and>
    (p ! 1 = 2 \<longrightarrow> fm_compression (di_file_meta d) = COMPRESSION_NONE \<and>
       fm_compressed_size (di_file_meta d) = fm_original_size (di_file_meta d))"
proof -
  let ?v = "p ! 1"
  from assms have h: "p ! 0 = DESC_MAGIC" "1 \<le> ?v" "?v \<le> DESC_VERSION" "?v \<noteq> DESC_LEGACY_V4"
    by (auto simp: parse_payload_def Let_def split: if_splits)
  from h have "unat ?v \<in> {1, 2, 3, 5}"
    by (auto simp: desc_consts word_le_nat_alt word_unat_eq_iff)
  then have v: "?v \<in> {1, 2, 3, 5}" by (auto simp: word_unat_eq_iff)
  from assms obtain n fm off where f: "parse_file_meta ?v p n = Some (fm, off)" "di_file_meta d = fm"
    and s: "di_segment d \<noteq> None \<longleftrightarrow> ?v = DESC_VERSION"
    by (auto simp: parse_payload_def Let_def split: if_splits option.splits)
  have "fm = file_meta_default" if "?v = 1" using f that by (simp add: parse_file_meta_def)
  moreover have "fm_compression fm = COMPRESSION_NONE \<and> fm_compressed_size fm = fm_original_size fm" if "?v = 2"
    using f(1) that by (auto simp: parse_file_meta_def Let_def DESC_V3_VERSION_def split: if_splits)
  ultimately show ?thesis using h(1) v f(2) s by (auto simp: desc_consts)
qed

section \<open>Witnesses\<close>

definition demo_desc_meta :: object_meta where
  "demo_desc_meta = \<lparr>m_transfer_length = 72, m_symbol_size = 72,
     m_oti_bytes = [0, 0, 0, 0, 72, 0, 0, 72, 1, 0, 1, 8],
     m_blocks = [\<lparr>b_sbn = 0, b_num_source_symbols = 1, b_block_length = 72\<rparr>]\<rparr>"

text \<open>Seven bytes of name, of which six fit: the two-byte scalar at the end is dropped whole.\<close>

definition demo_file :: file_meta where
  "demo_file = \<lparr>fm_filename = [97, 98, 99, 100, 101, 0xC3, 0xA9], fm_original_size = 3, fm_crc32 = 9,
     fm_compression = 0, fm_compressed_size = 3, fm_compressed_size_known = True, fm_crc32_known = True\<rparr>"

lemma demo_desc_wf: "desc_wf demo_desc_meta demo_file None"
  by (simp add: desc_wf_def demo_desc_meta_def demo_file_def utf8_valid.simps scalar_len_def two_ok_def
      continuation_def)

lemma demo_filename_len: "filename_len demo_desc_meta demo_file None = 5"
proof -
  have "filename_len demo_desc_meta demo_file None = floor_boundary (fm_filename demo_file) 6"
    by (simp add: filename_len_def demo_desc_meta_def demo_file_def desc_consts Let_def)
  then show ?thesis
    by (simp add: demo_file_def numeral_eq_Suc is_char_boundary_def) (simp add: continuation_def)
qed

lemma demo_payload:
  obtains p where "build_payload_inner demo_desc_meta demo_file None = Inr p"
  using build_payload_fails [of demo_desc_meta demo_file None]
  by (cases "build_payload_inner demo_desc_meta demo_file None") (auto simp: desc_fixed_len_def demo_desc_meta_def)

lemma descriptor_roundtrip_witness:
  "\<exists>p d. build_payload_inner demo_desc_meta demo_file None = Inr p \<and> length p = 72 \<and>
     parse_payload p = Some d \<and> fm_filename (di_file_meta d) = [97, 98, 99, 100, 101]"
proof -
  obtain p where p: "build_payload_inner demo_desc_meta demo_file None = Inr p" by (rule demo_payload)
  have "take 5 (fm_filename demo_file) = [97, 98, 99, 100, 101]" by (simp add: demo_file_def)
  with p show ?thesis
    using descriptor_roundtrip [OF demo_desc_wf p] parse_build [OF demo_desc_wf p]
    by (simp add: demo_filename_len sent_file_meta_def) (simp add: demo_desc_meta_def)
qed

lemma parse_reads_inside_witness:
  "\<exists>p d. build_payload_inner demo_desc_meta demo_file None = Inr p \<and> parse_payload p = Some d \<and>
     parse_payload (p @ [1, 2, 3]) = Some d"
proof -
  obtain p where p: "build_payload_inner demo_desc_meta demo_file None = Inr p" by (rule demo_payload)
  then show ?thesis using parse_reads_inside [OF parse_build [OF demo_desc_wf p], of "[1, 2, 3]"]
    parse_build [OF demo_desc_wf p] by blast
qed

lemma parse_version_gate_witness:
  "\<exists>p. build_payload_inner demo_desc_meta demo_file None = Inr p \<and> p ! 1 \<in> {1, 2, 3, 5}"
proof -
  obtain p where p: "build_payload_inner demo_desc_meta demo_file None = Inr p" by (rule demo_payload)
  then show ?thesis using parse_version_gate [OF parse_build [OF demo_desc_wf p]] by blast
qed

end
