(* ===== verification/Chunker.thy ===== *)
theory Chunker
  imports Object_Meta
begin

text \<open>
  Symbol padding, \<open>core/qr-protocol/src/chunker.rs\<close>: a payload is zero-padded to whole symbols
  before it is encoded.
\<close>

definition pad_to_symbols :: "bytes \<Rightarrow> config \<Rightarrow> bytes" where
  "pad_to_symbols data config =
     (let t = unat (cfg_symbol_size config); rem = length data mod t in
      if rem = 0 then data else data @ replicate (t - rem) 0)"

lemma pad_to_symbols_append: "\<exists>n. pad_to_symbols data config = data @ replicate n 0"
  by (auto simp: pad_to_symbols_def Let_def intro: exI [of _ 0])

lemma take_pad [simp]: "take (length data) (pad_to_symbols data config) = data"
  using pad_to_symbols_append [of data config] by auto

lemma length_pad_ge: "length data \<le> length (pad_to_symbols data config)"
  using pad_to_symbols_append [of data config] by auto

lemma length_pad:
  assumes t: "0 < unat (cfg_symbol_size config)"
  shows "unat (cfg_symbol_size config) dvd length (pad_to_symbols data config)"
    "length (pad_to_symbols data config) < length data + unat (cfg_symbol_size config)"
proof -
  let ?t = "unat (cfg_symbol_size config)" and ?r = "length data mod unat (cfg_symbol_size config)"
  have "?r < ?t" using t by simp
  then have "length data + (?t - ?r) = ?t * (length data div ?t) + ?t"
    using mult_div_mod_eq [of ?t "length data"] by linarith
  then show "?t dvd length (pad_to_symbols data config)"
    by (auto simp: pad_to_symbols_def Let_def)
  show "length (pad_to_symbols data config) < length data + ?t"
    using t \<open>?r < ?t\<close> by (auto simp: pad_to_symbols_def Let_def)
qed

text \<open>
  Padding keeps the payload as a prefix, reaches a whole number of symbols, adds less than
  one symbol, and leaves whole symbols alone; so a segment cut at 33488904 bytes never
  outgrows the 32 MiB object limit, whatever symbol size the sender picks.
\<close>

lemma pad_to_symbols_minimal:
  assumes "config_new s = Inr config"
  shows "take (length data) (pad_to_symbols data config) = data
    \<and> unat s dvd length (pad_to_symbols data config)
    \<and> length (pad_to_symbols data config) < length data + unat s
    \<and> pad_to_symbols (pad_to_symbols data config) config = pad_to_symbols data config
    \<and> (length data \<le> 33488904 \<longrightarrow> length (pad_to_symbols data config) \<le> 33554432)"
proof -
  from assms have t: "0 < unat (cfg_symbol_size config)" "cfg_symbol_size config = s" "unat s \<le> 65528"
    by (auto simp: config_new_Inr)
  have "pad_to_symbols xs config = xs" if "unat s dvd length xs" for xs
    using that t by (simp add: pad_to_symbols_def Let_def)
  then show ?thesis using length_pad [OF t(1), of data] t by auto
qed

lemma pad_to_symbols_minimal_witness:
  "take 3 (pad_to_symbols [1, 2, 3] \<lparr>cfg_symbol_size = 64\<rparr>) = [1, 2, 3] \<and>
   length (pad_to_symbols [1, 2, 3] \<lparr>cfg_symbol_size = 64\<rparr>) = 64"
proof -
  have "config_new 64 = Inr \<lparr>cfg_symbol_size = 64\<rparr>" by (simp add: config_new_Inr)
  from pad_to_symbols_minimal [OF this, of "[1, 2, 3]"] show ?thesis
    by (simp add: pad_to_symbols_def)
qed

end
