(* ===== verification/Progress.thy ===== *)
theory Progress
  imports Prelude
begin

text \<open>
  Statistics and progress, \<open>core/transfer-engine/src/progress.rs\<close>: the sliding window of rate
  samples with its two evictions, the integer rates over it, and the receiver's progress
  record.  The clock is an argument.  The floating-point rates and ratios derived from these
  integers are in \<open>Rates\<close>.
\<close>

definition STATS_WINDOW_MS :: u64 where "STATS_WINDOW_MS = 3000"
definition STATS_MAX_SAMPLES :: nat where "STATS_MAX_SAMPLES = 4096"

record rate_sample =
  rs_t_ms :: u64
  rs_bytes :: u64

record stats =
  st_bytes :: u64
  st_frames :: u64
  st_elapsed_ms :: u64
  st_window :: "rate_sample list"

definition stats_default :: stats where
  "stats_default = \<lparr>st_bytes = 0, st_frames = 0, st_elapsed_ms = 0, st_window = []\<rparr>"

text \<open>The two eviction loops, over the window with its oldest sample first.\<close>

fun evict_old :: "u64 \<Rightarrow> rate_sample list \<Rightarrow> rate_sample list" where
  "evict_old cutoff [] = []"
| "evict_old cutoff (s # w) =
     (if 2 < length (s # w) \<and> rs_t_ms s < cutoff then evict_old cutoff w else s # w)"

fun evict_excess :: "rate_sample list \<Rightarrow> rate_sample list" where
  "evict_excess [] = []"
| "evict_excess (s # w) = (if STATS_MAX_SAMPLES < length (s # w) then evict_excess w else s # w)"

definition push_sample_at :: "stats \<Rightarrow> u64 \<Rightarrow> u64 \<Rightarrow> stats" where
  "push_sample_at st t_ms bytes1 =
     (let w = st_window st @ [\<lparr>rs_t_ms = t_ms, rs_bytes = bytes1\<rparr>];
          cutoff = saturating_sub t_ms STATS_WINDOW_MS
      in st\<lparr>st_window := evict_excess (evict_old cutoff w)\<rparr>)"

definition record_sent :: "stats \<Rightarrow> u64 \<Rightarrow> u64 \<Rightarrow> stats" where
  "record_sent st now payload_bytes =
     push_sample_at (st\<lparr>st_bytes := st_bytes st + payload_bytes, st_frames := st_frames st + 1\<rparr>)
       now payload_bytes"

definition record_received :: "stats \<Rightarrow> u64 \<Rightarrow> u64 \<Rightarrow> bool \<Rightarrow> stats" where
  "record_received st now payload_bytes unique =
     (let counted = (if unique then payload_bytes else 0);
          st1 = (if unique then st\<lparr>st_bytes := st_bytes st + payload_bytes\<rparr> else st)
      in push_sample_at (st1\<lparr>st_frames := st_frames st1 + 1\<rparr>) now counted)"

text \<open>One iteration of the loop over the window: first and last time, frames, bytes.\<close>

definition rate_step ::
  "u64 \<Rightarrow> u64 option \<times> u64 option \<times> u64 \<times> u64 \<Rightarrow> rate_sample \<Rightarrow> u64 option \<times> u64 option \<times> u64 \<times> u64" where
  "rate_step cutoff acc s =
     (case acc of (first, last1, frames, bytes1) \<Rightarrow>
        if rs_t_ms s < cutoff then acc
        else (if first = None then Some (rs_t_ms s) else first, Some (rs_t_ms s), frames + 1,
              bytes1 + rs_bytes s))"

definition window_rates :: "stats \<Rightarrow> u64 \<Rightarrow> u64 \<times> u64 \<times> u64" where
  "window_rates st now =
     (let cutoff = saturating_sub now STATS_WINDOW_MS in
      case foldl (rate_step cutoff) (None, None, 0, 0) (st_window st) of
        (first, last1, frames, bytes1) \<Rightarrow>
          let span = (case (first, last1) of
                        (Some f, Some l) \<Rightarrow> if f < l then l - f else 0
                      | _ \<Rightarrow> 0)
          in (span, frames, bytes1))"

record progress =
  pg_decoded_symbols :: u32
  pg_total_symbols :: u32
  pg_symbol_size :: u32
  pg_received_symbols :: u32
  pg_frames_seen :: u64
  pg_frames_duplicate :: u64
  pg_frames_corrupt :: u64
  pg_decoded_blocks :: u32
  pg_total_blocks :: u32
  pg_meta_confirmed :: bool
  pg_session_mismatch_streak :: u32

definition progress_default :: progress where
  "progress_default = \<lparr>pg_decoded_symbols = 0, pg_total_symbols = 0, pg_symbol_size = 0,
     pg_received_symbols = 0, pg_frames_seen = 0, pg_frames_duplicate = 0, pg_frames_corrupt = 0,
     pg_decoded_blocks = 0, pg_total_blocks = 0, pg_meta_confirmed = False,
     pg_session_mismatch_streak = 0\<rparr>"

definition progress_is_complete :: "progress \<Rightarrow> bool" where
  "progress_is_complete p \<longleftrightarrow> 0 < pg_total_blocks p \<and> pg_decoded_blocks p = pg_total_blocks p"

section \<open>The window against the whole history\<close>

text \<open>
  The specification keeps every sample ever recorded; the window may only forget samples that
  are too old for any later query, or that are not among the last 4096.
\<close>

definition last_samples :: "'a list \<Rightarrow> 'a list" where
  "last_samples h = drop (length h - STATS_MAX_SAMPLES) h"

definition window_ok :: "rate_sample list \<Rightarrow> u64 \<Rightarrow> rate_sample list \<Rightarrow> bool" where
  "window_ok h now w \<longleftrightarrow>
     length w \<le> STATS_MAX_SAMPLES \<and>
     (\<exists>pre. h = pre @ w \<and>
        (\<forall>i < length pre. rs_t_ms (pre ! i) < saturating_sub now STATS_WINDOW_MS \<or>
           i + STATS_MAX_SAMPLES < length h))"

lemma evict_old_suffix: "\<exists>pre. w = pre @ evict_old c w \<and> (\<forall>s \<in> set pre. rs_t_ms s < c)"
proof (induction c w rule: evict_old.induct)
  case (2 c s w)
  show ?case
  proof (cases "2 < length (s # w) \<and> rs_t_ms s < c")
    case True
    with 2 obtain pre where "w = pre @ evict_old c w" "\<forall>s \<in> set pre. rs_t_ms s < c" by auto
    with True show ?thesis by (intro exI [of _ "s # pre"]) auto
  qed auto
qed simp

lemma evict_excess_drop: "evict_excess w = drop (length w - STATS_MAX_SAMPLES) w"
  by (induction w rule: evict_excess.induct) (auto simp: Suc_diff_le)

lemma saturating_sub_mono: "x \<le> y \<Longrightarrow> saturating_sub x z \<le> saturating_sub y z"
  by (simp add: word_le_nat_alt diff_le_mono)

lemma window_ok_push:
  assumes "window_ok h t w" "t \<le> t'"
  shows "window_ok (h @ [\<lparr>rs_t_ms = t', rs_bytes = b\<rparr>]) t'
    (evict_excess (evict_old (saturating_sub t' STATS_WINDOW_MS) (w @ [\<lparr>rs_t_ms = t', rs_bytes = b\<rparr>])))"
proof -
  let ?s = "\<lparr>rs_t_ms = t', rs_bytes = b\<rparr>" and ?c = "saturating_sub t' STATS_WINDOW_MS"
  obtain p1 where h: "h = p1 @ w"
    and p1: "\<And>i. i < length p1 \<Longrightarrow> rs_t_ms (p1 ! i) < saturating_sub t STATS_WINDOW_MS \<or> i + STATS_MAX_SAMPLES < length h"
    using assms(1) by (auto simp: window_ok_def)
  obtain p2 where p2: "w @ [?s] = p2 @ evict_old ?c (w @ [?s])" "\<forall>x \<in> set p2. rs_t_ms x < ?c"
    using evict_old_suffix by blast
  define v where "v = evict_old ?c (w @ [?s])"
  define n where "n = length v - STATS_MAX_SAMPLES"
  have all: "h @ [?s] = p1 @ p2 @ v" using h p2(1) by (simp add: v_def)
  then have all': "h @ [?s] = (p1 @ p2 @ take n v) @ drop n v" by simp
  have c: "saturating_sub t STATS_WINDOW_MS \<le> ?c" using assms(2) by (rule saturating_sub_mono)
  have "rs_t_ms ((p1 @ p2 @ take n v) ! i) < ?c \<or> i + STATS_MAX_SAMPLES < length (h @ [?s])"
    if i: "i < length (p1 @ p2 @ take n v)" for i
  proof -
    consider "i < length p1" | "length p1 \<le> i" "i < length p1 + length p2" | "length p1 + length p2 \<le> i"
      by linarith
    then show ?thesis
    proof cases
      case 1
      then show ?thesis using p1 [OF 1] c by (auto simp: nth_append)
    next
      case 2
      then have "p2 ! (i - length p1) \<in> set p2" by simp
      with 2 p2(2) show ?thesis by (auto simp: nth_append)
    next
      case 3
      have "length (h @ [?s]) = length p1 + length p2 + length v" unfolding all by simp
      with 3 i show ?thesis by (auto simp: n_def)
    qed
  qed
  moreover have "length (drop n v) \<le> STATS_MAX_SAMPLES" by (simp add: n_def)
  ultimately show ?thesis
    using all' unfolding window_ok_def evict_excess_drop v_def [symmetric] n_def [symmetric] by blast
qed

definition recent :: "u64 \<Rightarrow> rate_sample list \<Rightarrow> rate_sample list" where
  "recent now h = filter (\<lambda>s. \<not> rs_t_ms s < saturating_sub now STATS_WINDOW_MS) h"

lemma window_ok_recent:
  assumes "window_ok h t w" "t \<le> now"
  shows "recent now w = recent now (last_samples h)"
proof -
  obtain pre where h: "h = pre @ w" and w: "length w \<le> STATS_MAX_SAMPLES"
    and pre: "\<And>i. i < length pre \<Longrightarrow> rs_t_ms (pre ! i) < saturating_sub t STATS_WINDOW_MS \<or> i + STATS_MAX_SAMPLES < length h"
    using assms(1) by (auto simp: window_ok_def)
  let ?k = "length h - STATS_MAX_SAMPLES"
  have c: "saturating_sub t STATS_WINDOW_MS \<le> saturating_sub now STATS_WINDOW_MS"
    using assms(2) by (rule saturating_sub_mono)
  have "?k \<le> length pre" using h w by simp
  then have last: "last_samples h = drop ?k pre @ w" unfolding last_samples_def h by simp
  have "rs_t_ms s < saturating_sub now STATS_WINDOW_MS" if s: "s \<in> set (drop ?k pre)" for s
  proof -
    from s obtain j where j: "j < length pre - ?k" "s = pre ! (?k + j)" by (auto simp: in_set_conv_nth)
    then have "\<not> ?k + j + STATS_MAX_SAMPLES < length h" by simp
    moreover from j(1) have "?k + j < length pre" by linarith
    ultimately have "rs_t_ms s < saturating_sub t STATS_WINDOW_MS" using pre [of "?k + j"] j(2) by blast
    then show ?thesis using c by (rule less_le_trans)
  qed
  then have "recent now (drop ?k pre) = []" by (auto simp: recent_def filter_empty_conv)
  then show ?thesis by (simp add: last recent_def)
qed

text \<open>The rates of a list of samples, as a specification.\<close>

definition rates_of :: "rate_sample list \<Rightarrow> u64 \<times> u64 \<times> u64" where
  "rates_of l =
     ((if l \<noteq> [] \<and> rs_t_ms (hd l) < rs_t_ms (last l) then rs_t_ms (last l) - rs_t_ms (hd l) else 0),
      of_nat (length l), sum_list (map rs_bytes l))"

lemma foldl_rate_filter:
  "foldl (rate_step c) acc w = foldl (rate_step c) acc (filter (\<lambda>s. \<not> rs_t_ms s < c) w)"
  by (induction w arbitrary: acc) (auto simp: rate_step_def split: prod.splits)

lemma foldl_rate_all:
  assumes "\<forall>s \<in> set l. \<not> rs_t_ms s < c"
  shows "foldl (rate_step c) (None, None, 0, 0) l =
    ((if l = [] then None else Some (rs_t_ms (hd l))), (if l = [] then None else Some (rs_t_ms (last l))),
     of_nat (length l), sum_list (map rs_bytes l))"
  using assms
proof (induction l rule: rev_induct)
  case (snoc s l)
  then show ?case by (auto simp: rate_step_def hd_append add.commute)
qed simp

lemma window_rates_recent: "window_rates st now = rates_of (recent now (st_window st))"
proof -
  let ?c = "saturating_sub now STATS_WINDOW_MS"
  have "foldl (rate_step ?c) (None, None, 0, 0) (st_window st) =
      foldl (rate_step ?c) (None, None, 0, 0) (recent now (st_window st))"
    unfolding recent_def by (rule foldl_rate_filter)
  also have "\<dots> = ((if recent now (st_window st) = [] then None else Some (rs_t_ms (hd (recent now (st_window st))))),
      (if recent now (st_window st) = [] then None else Some (rs_t_ms (last (recent now (st_window st))))),
      of_nat (length (recent now (st_window st))), sum_list (map rs_bytes (recent now (st_window st))))"
    by (rule foldl_rate_all) (simp add: recent_def)
  finally show ?thesis by (simp add: window_rates_def rates_of_def)
qed

text \<open>A session: the sizes and clock readings of the frames sent, in order.\<close>

definition record_run :: "(u64 \<times> u64) list \<Rightarrow> stats" where
  "record_run recs = foldl (\<lambda>st (now, n). record_sent st now n) stats_default recs"

definition samples_of :: "(u64 \<times> u64) list \<Rightarrow> rate_sample list" where
  "samples_of recs = map (\<lambda>(now, n). \<lparr>rs_t_ms = now, rs_bytes = n\<rparr>) recs"

lemma record_run_window:
  "sorted (map fst recs) \<Longrightarrow> recs \<noteq> [] \<Longrightarrow> window_ok (samples_of recs) (fst (last recs)) (st_window (record_run recs))"
proof (induction recs rule: rev_induct)
  case (snoc r recs)
  obtain now n where r: "r = (now, n)" by (cases r)
  show ?case
  proof (cases "recs = []")
    case True
    have "window_ok [] now []" by (simp add: window_ok_def)
    from window_ok_push [OF this order_refl, of n] True show ?thesis
      by (simp add: r record_run_def record_sent_def push_sample_at_def stats_default_def samples_of_def Let_def)
  next
    case False
    with snoc.prems have "fst (last recs) \<le> now" by (auto simp: sorted_append r)
    then show ?thesis
      using window_ok_push [OF snoc.IH, of now n] snoc.prems False
      by (simp add: r record_run_def record_sent_def push_sample_at_def samples_of_def Let_def sorted_append)
  qed
qed simp

text \<open>
  With a clock that does not run backwards, the reported window rates are those of the
  complete history restricted to the last 3 seconds and the last 4096 frames, although the
  code keeps only a bounded queue; and the queue never exceeds 4096 samples.
\<close>

lemma window_rates_exact:
  assumes "sorted (map fst recs)" "recs \<noteq> []" "fst (last recs) \<le> now"
  shows "window_rates (record_run recs) now = rates_of (recent now (last_samples (samples_of recs))) \<and>
    length (st_window (record_run recs)) \<le> STATS_MAX_SAMPLES"
  using record_run_window [OF assms(1,2)] window_ok_recent [OF record_run_window [OF assms(1,2)] assms(3)]
  by (simp add: window_rates_recent window_ok_def)

lemma window_rates_exact_witness:
  "window_rates (record_run [(0, 5), (1000, 7), (4500, 9), (5000, 1)]) 5000 = (500, 2, 10)"
proof -
  have "recent 5000 (last_samples (samples_of [(0, 5), (1000, 7), (4500, 9), (5000, 1)])) =
      [\<lparr>rs_t_ms = 4500, rs_bytes = 9\<rparr>, \<lparr>rs_t_ms = 5000, rs_bytes = 1\<rparr>]"
    by (simp add: recent_def last_samples_def samples_of_def STATS_MAX_SAMPLES_def STATS_WINDOW_MS_def
        saturating_sub_def)
  then show ?thesis
    using window_rates_exact [of "[(0, 5), (1000, 7), (4500, 9), (5000, 1)]" 5000]
    by (simp add: rates_of_def)
qed

end
