(* ===== verification/Sender.thy ===== *)
theory Sender
  imports Descriptor Chunker Progress Raptor_Codec
begin

text \<open>
  The sender session, \<open>core/transfer-engine/src/sender.rs\<close>: construction, the source plan, the
  fresh repair phase, and \<open>next_frame\<close> with its descriptor cadence.  Mutation is a returned
  session; an error keeps the mutations made before it.  The clock readings of a call are its
  arguments, in the order the code takes them.
\<close>

section \<open>Configuration and state\<close>

record sender_config =
  sc_codec :: config
  sc_redundancy_pct :: u8

definition sender_config_default :: sender_config where
  "sender_config_default = \<lparr>sc_codec = config_default, sc_redundancy_pct = 25\<rparr>"

definition sender_config_validate :: "sender_config \<Rightarrow> (unit, te_error) result" where
  "sender_config_validate c =
     (if \<not> (5 \<le> sc_redundancy_pct c \<and> sc_redundancy_pct c \<le> 50)
      then Inl (InvalidRedundancy (sc_redundancy_pct c)) else Inr ())"

record 'e sender =
  sn_config :: sender_config
  sn_session_id :: u128
  sn_encoder :: "'e encoder"
  sn_meta :: object_meta
  sn_file_meta :: file_meta
  sn_segment_meta :: "segment_meta option"
  sn_total_k :: u32
  sn_source_plan :: "(u32 \<times> u32) list"
  sn_source_cursor :: nat
  sn_repair_cursor :: u64
  sn_frame_index :: u64
  sn_descriptor_interval :: u32
  sn_started :: bool
  sn_start_ms :: u64
  sn_stats :: stats

text \<open>Every source symbol once, encoding id by encoding id over the blocks.\<close>

definition max_k :: "object_meta \<Rightarrow> nat" where
  "max_k meta = foldr max (map (\<lambda>b. unat (b_num_source_symbols b)) (m_blocks meta)) 0"

definition build_source_plan :: "object_meta \<Rightarrow> (u32 \<times> u32) list" where
  "build_source_plan meta =
     concat (map (\<lambda>esi. map (\<lambda>b. (b_sbn b, of_nat esi))
                    (filter (\<lambda>b. esi < unat (b_num_source_symbols b)) (m_blocks meta)))
              [0..<max_k meta])"

text \<open>Callers guarantee that \<open>blocks\<close> is not empty; the code would divide by zero otherwise.\<close>

definition repair_symbol_id :: "source_block_meta list \<Rightarrow> u64 \<Rightarrow> (u32 \<times> u32) option" where
  "repair_symbol_id blocks cursor =
     (let nblocks = of_nat (length blocks) :: u64;
          bi = unat (cursor mod nblocks)
      in Option.bind (try_from (cursor div nblocks)) (\<lambda>offset.
           let b = blocks ! bi in
           Option.bind (checked_add (b_num_source_symbols b) offset) (\<lambda>esi.
             if esi < push_bit 24 1 then Some (b_sbn b, esi) else None)))"

section \<open>Operations\<close>

definition sender_new_inner ::
  "('e, 'd) raptorq \<Rightarrow> bytes \<Rightarrow> u128 \<Rightarrow> sender_config \<Rightarrow> file_meta \<Rightarrow> segment_meta option \<Rightarrow>
   ('e sender, te_error) result" where
  "sender_new_inner rq compressed_payload session_id cfg fm seg =
     bind_result (sender_config_validate cfg) (\<lambda>_.
     let padded = pad_to_symbols compressed_payload (sc_codec cfg) in
     bind_result (map_err Raptorq (encoder_new rq padded (sc_codec cfg))) (\<lambda>enc.
     let meta = enc_meta enc in
     bind_result (build_payload_inner meta fm seg) (\<lambda>_.
       Inr \<lparr>sn_config = cfg, sn_session_id = session_id, sn_encoder = enc, sn_meta = meta,
            sn_file_meta = fm, sn_segment_meta = seg, sn_total_k = total_symbols meta,
            sn_source_plan = build_source_plan meta, sn_source_cursor = 0, sn_repair_cursor = 0,
            sn_frame_index = 0, sn_descriptor_interval = 17, sn_started = False, sn_start_ms = 0,
            sn_stats = stats_default\<rparr>)))"

definition sender_new ::
  "('e, 'd) raptorq \<Rightarrow> bytes \<Rightarrow> u128 \<Rightarrow> sender_config \<Rightarrow> file_meta \<Rightarrow> ('e sender, te_error) result" where
  "sender_new rq compressed_payload session_id cfg fm =
     sender_new_inner rq compressed_payload session_id cfg fm None"

definition sender_new_segment ::
  "('e, 'd) raptorq \<Rightarrow> bytes \<Rightarrow> u128 \<Rightarrow> sender_config \<Rightarrow> file_meta \<Rightarrow> segment_meta \<Rightarrow>
   ('e sender, te_error) result" where
  "sender_new_segment rq compressed_payload child_session_id cfg fm seg =
     (if fm_compressed_size fm \<noteq> of_nat (length compressed_payload) \<or> \<not> fm_compressed_size_known fm
      then Inl (InvalidSegment ''segment compressed size does not match payload'')
      else bind_result (map_err InvalidSegment (segment_validate seg child_session_id fm)) (\<lambda>_.
           sender_new_inner rq compressed_payload child_session_id cfg fm (Some seg)))"

definition set_descriptor_interval :: "'e sender \<Rightarrow> u32 \<Rightarrow> 'e sender" where
  "set_descriptor_interval s interval = s\<lparr>sn_descriptor_interval := max interval 1\<rparr>"

definition next_symbol_id :: "'e sender \<Rightarrow> 'e sender \<times> (u32 \<times> u32, te_error) result" where
  "next_symbol_id s =
     (if sn_source_cursor s < length (sn_source_plan s)
      then (s\<lparr>sn_source_cursor := sn_source_cursor s + 1\<rparr>, Inr (sn_source_plan s ! sn_source_cursor s))
      else case repair_symbol_id (m_blocks (sn_meta s)) (sn_repair_cursor s) of
             None \<Rightarrow> (s, Inl SymbolIdSpaceExhausted)
           | Some i \<Rightarrow>
               (case checked_add (sn_repair_cursor s) 1 of
                  None \<Rightarrow> (s, Inl SymbolIdSpaceExhausted)
                | Some c \<Rightarrow> (s\<lparr>sn_repair_cursor := c\<rparr>, Inr i)))"

definition fetch_symbol :: "('e, 'd) raptorq \<Rightarrow> 'e sender \<Rightarrow> u32 \<Rightarrow> u32 \<Rightarrow> (symbol, te_error) result" where
  "fetch_symbol rq s sbn esi =
     (let k = b_num_source_symbols (m_blocks (sn_meta s) ! unat sbn) in
      if esi < k then map_err Raptorq (source_symbol (sn_encoder s) sbn esi)
      else bind_result (map_err Raptorq (repair_symbols rq (sn_encoder s) sbn (esi - k) 1))
             (\<lambda>syms. Inr (hd syms)))"

text \<open>The branches of \<open>next_frame\<close>: the clock start, the cadence, a descriptor, a data frame.\<close>

definition start_clock :: "u64 \<Rightarrow> 'e sender \<Rightarrow> 'e sender" where
  "start_clock now s = (if \<not> sn_started s then s\<lparr>sn_start_ms := now, sn_started := True\<rparr> else s)"

definition descriptor_due :: "'e sender \<Rightarrow> bool" where
  "descriptor_due s \<longleftrightarrow>
     (let interval = ucast (max (sn_descriptor_interval s) 1) :: u64 in
      sn_frame_index s = 0 \<or> (0 < sn_frame_index s \<and> sn_frame_index s mod interval = 0))"

definition descriptor_frame :: "(bytes \<Rightarrow> u32) \<Rightarrow> u64 \<Rightarrow> 'e sender \<Rightarrow> (frame, te_error) result" where
  "descriptor_frame crc now s =
     (case sn_segment_meta s of
        Some seg \<Rightarrow> build_segment_frame crc (sn_meta s) (sn_file_meta s) seg (sn_session_id s)
                      (sn_frame_index s) now
      | None \<Rightarrow> build_frame crc (sn_meta s) (sn_file_meta s) (sn_session_id s) (sn_frame_index s) now)"

definition emit_descriptor ::
  "(bytes \<Rightarrow> u32) \<Rightarrow> u64 \<Rightarrow> u64 \<Rightarrow> 'e sender \<Rightarrow> 'e sender \<times> (frame, te_error) result" where
  "emit_descriptor crc now t_stats s0 =
     (let s = s0\<lparr>sn_frame_index := sn_frame_index s0 + 1\<rparr> in
      case descriptor_frame crc now s of
        Inl e \<Rightarrow> (s, Inl e)
      | Inr f \<Rightarrow> (s\<lparr>sn_stats := record_sent (sn_stats s) t_stats (of_nat (length (fr_payload f)))\<rparr>, Inr f))"

definition data_frame :: "(bytes \<Rightarrow> u32) \<Rightarrow> u64 \<Rightarrow> 'e sender \<Rightarrow> u32 \<Rightarrow> u32 \<Rightarrow> bytes \<Rightarrow> frame" where
  "data_frame crc now s sbn esi payload =
     frame_build crc (sn_session_id s) 0 sbn esi (of_nat (length (m_blocks (sn_meta s)))) (sn_total_k s)
       (cfg_symbol_size (sc_codec (sn_config s))) (sn_frame_index s) now payload"

definition emit_data ::
  "('e, 'd) raptorq \<Rightarrow> (bytes \<Rightarrow> u32) \<Rightarrow> u64 \<Rightarrow> u64 \<Rightarrow> 'e sender \<Rightarrow> 'e sender \<times> (frame, te_error) result" where
  "emit_data rq crc now t_stats s0 =
     (case next_symbol_id s0 of
        (s, Inl e) \<Rightarrow> (s, Inl e)
      | (s, Inr (sbn, esi)) \<Rightarrow>
          (case fetch_symbol rq s sbn esi of
             Inl e \<Rightarrow> (s, Inl e)
           | Inr symb \<Rightarrow>
               (let s2 = s\<lparr>sn_frame_index := sn_frame_index s + 1,
                      sn_stats := record_sent (sn_stats s) t_stats (of_nat (length (sym_data symb)))\<rparr>
                in (s2, Inr (data_frame crc now s2 sbn esi (sym_data symb))))))"

definition next_frame ::
  "('e, 'd) raptorq \<Rightarrow> (bytes \<Rightarrow> u32) \<Rightarrow> u64 \<times> u64 \<times> u64 \<Rightarrow> 'e sender \<Rightarrow>
   'e sender \<times> (frame, te_error) result" where
  "next_frame rq crc clock s0 =
     (case clock of (t_start, now, t_stats) \<Rightarrow>
      if sn_source_plan s0 = [] then (s0, Inl NoPayload)
      else let s = start_clock t_start s0 in
        if descriptor_due s then emit_descriptor crc now t_stats s
        else emit_data rq crc now t_stats s)"

definition sender_stats :: "'e sender \<Rightarrow> u64 \<Rightarrow> stats" where
  "sender_stats s now =
     (if sn_started s then (sn_stats s)\<lparr>st_elapsed_ms := saturating_sub now (sn_start_ms s)\<rparr> else sn_stats s)"

section \<open>The source plan\<close>

text \<open>The block table of an accepted object: canonical numbers, 24-bit symbol counts.\<close>

definition plan_ok :: "source_block_meta list \<Rightarrow> bool" where
  "plan_ok bs \<longleftrightarrow> length bs \<le> 255 \<and>
     (\<forall>i < length bs. b_sbn (bs ! i) = of_nat i \<and> 0 < unat (b_num_source_symbols (bs ! i)) \<and>
        unat (b_num_source_symbols (bs ! i)) \<le> 56403)"

lemma plan_ok_meta: "blocks_ok ss 0 bs \<Longrightarrow> length bs \<le> 255 \<Longrightarrow> plan_ok bs"
  using blocks_ok_nth [of ss 0 bs] by (auto simp: plan_ok_def block_ok_def)

lemma plan_ok_sbn: "plan_ok bs \<Longrightarrow> i < length bs \<Longrightarrow> unat (b_sbn (bs ! i)) = i"
  by (simp add: plan_ok_def unat_of_nat_len)

lemma plan_ok_inj: "plan_ok bs \<Longrightarrow> inj_on b_sbn (set bs) \<and> distinct bs"
proof -
  assume ok: "plan_ok bs"
  have *: "i = j" if "i < length bs" "j < length bs" "b_sbn (bs ! i) = b_sbn (bs ! j)" for i j
    using that plan_ok_sbn [OF ok] by metis
  then show ?thesis by (auto simp: inj_on_def in_set_conv_nth distinct_conv_nth) metis+
qed

lemma max_k_ge: "b \<in> set (m_blocks meta) \<Longrightarrow> unat (b_num_source_symbols b) \<le> max_k meta"
proof -
  have "b \<in> set bs \<Longrightarrow> unat (b_num_source_symbols b) \<le> foldr max (map (\<lambda>b. unat (b_num_source_symbols b)) bs) 0" for bs
    by (induction bs) auto
  then show "b \<in> set (m_blocks meta) \<Longrightarrow> ?thesis" by (simp add: max_k_def)
qed

lemma max_k_le:
  assumes "\<And>b. b \<in> set (m_blocks meta) \<Longrightarrow> unat (b_num_source_symbols b) \<le> n"
  shows "max_k meta \<le> n"
proof -
  have "\<forall>b \<in> set bs. unat (b_num_source_symbols b) \<le> n \<Longrightarrow>
      foldr max (map (\<lambda>b. unat (b_num_source_symbols b)) bs) 0 \<le> n" for bs
    by (induction bs) auto
  with assms show ?thesis unfolding max_k_def by blast
qed

lemma source_plan_set:
  assumes "plan_ok (m_blocks meta)"
  shows "set (build_source_plan meta) =
    {(sbn, esi). unat sbn < length (m_blocks meta) \<and>
       unat esi < unat (b_num_source_symbols (m_blocks meta ! unat sbn))}" (is "?L = ?R")
proof
  have mk: "max_k meta \<le> 56403"
    using assms by (intro max_k_le) (auto simp: plan_ok_def in_set_conv_nth)
  show "?L \<subseteq> ?R"
  proof
    fix p assume "p \<in> ?L"
    then obtain e i where p: "p = (b_sbn (m_blocks meta ! i), of_nat e)" and i: "i < length (m_blocks meta)"
      and e: "e < unat (b_num_source_symbols (m_blocks meta ! i))" "e < max_k meta"
      by (auto simp: build_source_plan_def in_set_conv_nth)
    have "unat (of_nat e :: u32) = e" using e mk by (intro unat_of_nat_len) simp
    then show "p \<in> ?R" using p i e plan_ok_sbn [OF assms i] by simp
  qed
  show "?R \<subseteq> ?L"
  proof
    fix p assume "p \<in> ?R"
    then obtain sbn esi where p: "p = (sbn, esi)" and i: "unat sbn < length (m_blocks meta)"
      and e: "unat esi < unat (b_num_source_symbols (m_blocks meta ! unat sbn))" by auto
    let ?b = "m_blocks meta ! unat sbn"
    have "b_sbn ?b = sbn" using plan_ok_sbn [OF assms i] by (simp add: word_unat_eq_iff)
    moreover have "unat esi < max_k meta" using e max_k_ge [of ?b meta] i by simp
    ultimately show "p \<in> ?L"
      using p i e by (auto simp: build_source_plan_def intro!: bexI [of _ "unat esi"] image_eqI [of _ _ ?b])
  qed
qed

lemma source_plan_distinct:
  assumes "plan_ok (m_blocks meta)"
  shows "distinct (build_source_plan meta)"
proof -
  have mk: "max_k meta \<le> 56403"
    using assms by (intro max_k_le) (auto simp: plan_ok_def in_set_conv_nth)
  have inj: "(of_nat e :: u32) = of_nat e' \<longleftrightarrow> e = e'" if "e < max_k meta" "e' < max_k meta" for e e'
  proof -
    have "unat (of_nat e :: u32) = e" "unat (of_nat e' :: u32) = e'"
      using that mk by (simp_all add: unat_of_nat_len)
    then show ?thesis by metis
  qed
  let ?row = "\<lambda>esi. map (\<lambda>b. (b_sbn b, of_nat esi :: u32))
      (filter (\<lambda>b. esi < unat (b_num_source_symbols b)) (m_blocks meta))"
  have row: "distinct (?row e)" for e
    unfolding distinct_map
  proof
    show "distinct (filter (\<lambda>b. e < unat (b_num_source_symbols b)) (m_blocks meta))"
      using plan_ok_inj [OF assms] by simp
    show "inj_on (\<lambda>b. (b_sbn b, of_nat e :: u32)) (set (filter (\<lambda>b. e < unat (b_num_source_symbols b)) (m_blocks meta)))"
      using plan_ok_inj [OF assms] by (intro inj_onI) (auto dest: inj_onD)
  qed
  have "distinct (concat (map ?row [0..<n]))" if "n \<le> max_k meta" for n
    using that
  proof (induction n)
    case (Suc n)
    have "set (concat (map ?row [0..<n])) \<inter> set (?row n) = {}"
    proof (rule ccontr)
      assume "set (concat (map ?row [0..<n])) \<inter> set (?row n) \<noteq> {}"
      then obtain p where p: "p \<in> set (concat (map ?row [0..<n]))" "p \<in> set (?row n)" by blast
      from p(1) obtain e where "e < n" "snd p = of_nat e" by auto
      moreover from p(2) have "snd p = of_nat n" by auto
      ultimately show False using inj [of e n] Suc.prems by auto
    qed
    with Suc row show ?case by simp
  qed simp
  then show ?thesis by (simp add: build_source_plan_def)
qed

lemma sorted_rows:
  "sorted (map (\<lambda>p. unat (snd p)) (concat (map (\<lambda>e. map (\<lambda>b. (f b, of_nat e :: u32)) (g e)) [0..<n])))"
  if "n \<le> 2 ^ 32"
  using that
proof (induction n)
  case (Suc n)
  have "unat (snd p) \<le> n" if p: "p \<in> set (concat (map (\<lambda>e. map (\<lambda>b. (f b, of_nat e :: u32)) (g e)) [0..<n]))" for p
  proof -
    from p obtain e where "e < n" "snd p = of_nat e" by auto
    with Suc.prems show ?thesis by (simp add: unat_of_nat_len)
  qed
  moreover have "unat (snd p) = n" if "p \<in> set (map (\<lambda>b. (f b, of_nat n :: u32)) (g n))" for p
    using that Suc.prems by (auto simp: unat_of_nat_len)
  moreover have "sorted (map (\<lambda>p. unat (snd p)) (map (\<lambda>b. (f b, of_nat n :: u32)) (g n)))"
    by (simp add: comp_def sorted_iff_nth_mono)
  ultimately show ?case using Suc by (auto simp: sorted_append unat_of_nat_len)
qed simp

lemma source_plan_length:
  assumes "plan_ok (m_blocks meta)"
  shows "length (build_source_plan meta) = sum_symbols (m_blocks meta)"
proof -
  let ?bs = "m_blocks meta" and ?K = "\<lambda>i. unat (b_num_source_symbols (m_blocks meta ! i))"
  let ?S = "SIGMA i:{..<length ?bs}. {..<?K i}" and ?f = "\<lambda>(i, e). (of_nat i :: u32, of_nat e :: u32)"
  have n: "length ?bs \<le> 255" and K: "\<And>i. i < length ?bs \<Longrightarrow> ?K i \<le> 56403"
    using assms by (auto simp: plan_ok_def)
  have u: "unat (of_nat i :: u32) = i" "unat (of_nat e :: u32) = e" if "i < length ?bs" "e < ?K i" for i e
    using that n K [of i] by (simp_all add: unat_of_nat_len)
  have inj: "inj_on ?f ?S"
  proof (rule inj_onI)
    fix p q assume p: "p \<in> ?S" and q: "q \<in> ?S" and eq: "?f p = ?f q"
    obtain i e j d where pq: "p = (i, e)" "q = (j, d)" by (cases p, cases q)
    then have "unat (of_nat i :: u32) = i" "unat (of_nat e :: u32) = e" "unat (of_nat j :: u32) = j"
      "unat (of_nat d :: u32) = d" using p q u by auto
    with eq pq show "p = q" by (metis case_prod_conv prod.inject)
  qed
  have img: "?f ` ?S = set (build_source_plan meta)"
  proof -
    have sub1: "(sbn, esi) \<in> ?f ` ?S" if "unat sbn < length ?bs" "unat esi < ?K (unat sbn)" for sbn esi :: u32
      using that by (intro image_eqI [of _ _ "(unat sbn, unat esi)"]) auto
    have sub2: "?f p \<in> {(sbn, esi). unat sbn < length ?bs \<and> unat esi < ?K (unat sbn)}" if "p \<in> ?S" for p
      using that u by (cases p) auto
    have "?f ` ?S \<subseteq> {(sbn, esi). unat sbn < length ?bs \<and> unat esi < ?K (unat sbn)}"
      by (rule image_subsetI) (rule sub2)
    moreover have "{(sbn, esi). unat sbn < length ?bs \<and> unat esi < ?K (unat sbn)} \<subseteq> ?f ` ?S"
    proof (rule subsetI)
      fix p :: "u32 \<times> u32" assume "p \<in> {(sbn, esi). unat sbn < length ?bs \<and> unat esi < ?K (unat sbn)}"
      then obtain sbn esi where "p = (sbn, esi)" "unat sbn < length ?bs" "unat esi < ?K (unat sbn)" by blast
      then show "p \<in> ?f ` ?S" using sub1 by simp
    qed
    ultimately have "?f ` ?S = {(sbn, esi). unat sbn < length ?bs \<and> unat esi < ?K (unat sbn)}"
      by (rule equalityI)
    then show ?thesis unfolding source_plan_set [OF assms] by simp
  qed
  have "card (set (build_source_plan meta)) = card ?S" unfolding img [symmetric] using inj by (rule card_image)
  also have "\<dots> = (\<Sum>i<length ?bs. ?K i)" by simp
  also have "\<dots> = sum_symbols ?bs" by (simp add: sum_symbols_def sum_list_sum_nth atLeast0LessThan)
  finally show ?thesis using source_plan_distinct [OF assms] by (simp add: distinct_card)
qed

text \<open>
  For accepted metadata the source plan lists every source symbol of every block exactly
  once and nothing else, in round-robin order: encoding ids never decrease along it.
\<close>

lemma source_plan_exact:
  assumes "meta_ok rq meta"
  shows "set (build_source_plan meta) =
      {(sbn, esi). unat sbn < length (m_blocks meta) \<and>
         unat esi < unat (b_num_source_symbols (m_blocks meta ! unat sbn))} \<and>
    distinct (build_source_plan meta) \<and>
    sorted (map (\<lambda>p. unat (snd p)) (build_source_plan meta)) \<and>
    length (build_source_plan meta) = sum_symbols (m_blocks meta)"
proof -
  have ok: "plan_ok (m_blocks meta)" using assms plan_ok_meta by (auto simp: meta_ok_def)
  then have "max_k meta \<le> 56403" by (intro max_k_le) (auto simp: plan_ok_def in_set_conv_nth)
  then have "sorted (map (\<lambda>p. unat (snd p)) (build_source_plan meta))"
    unfolding build_source_plan_def by (intro sorted_rows) simp
  with ok show ?thesis
    by (simp add: source_plan_set source_plan_distinct source_plan_length)
qed

section \<open>The repair phase\<close>

lemma repair_symbol_id_Some:
  assumes "plan_ok bs" "bs \<noteq> []"
  shows "repair_symbol_id bs c = Some (sbn, esi) \<longleftrightarrow>
    unat sbn = unat c mod length bs \<and>
    unat esi = unat (b_num_source_symbols (bs ! (unat c mod length bs))) + unat c div length bs \<and>
    unat esi < 16777216"
proof -
  let ?n = "of_nat (length bs) :: u64" and ?i = "unat c mod length bs"
  let ?K = "b_num_source_symbols (bs ! ?i)"
  have n: "unat ?n = length bs" using assms by (intro unat_of_nat_len) (simp add: plan_ok_def)
  have i: "?i < length bs" using assms by simp
  have bi: "unat (c mod ?n) = ?i" "unat (c div ?n) = unat c div length bs"
    by (simp_all add: unat_mod unat_div n)
  have sbn: "b_sbn (bs ! ?i) = sbn \<longleftrightarrow> unat sbn = ?i"
    using plan_ok_sbn [OF assms(1) i] by (auto simp: word_unat_eq_iff)
  have "repair_symbol_id bs c = Some (sbn, esi) \<longleftrightarrow>
      (\<exists>offset e. (try_from (c div ?n) :: u32 option) = Some offset \<and> checked_add ?K offset = Some e \<and>
         e < push_bit 24 1 \<and> b_sbn (bs ! ?i) = sbn \<and> e = esi)"
    by (auto simp: repair_symbol_id_def Let_def bi bind_eq_Some_conv split: if_splits)
  also have "\<dots> \<longleftrightarrow> (\<exists>offset :: u32. unat offset = unat c div length bs \<and> unat esi = unat ?K + unat offset) \<and>
      unat esi < 16777216 \<and> unat sbn = ?i"
    using esi_limit(1) [of esi] by (auto simp: try_from_Some checked_add_Some bi sbn not_le [symmetric])
  also have "\<dots> \<longleftrightarrow> unat sbn = ?i \<and> unat esi = unat ?K + unat c div length bs \<and> unat esi < 16777216"
  proof -
    have "\<exists>offset :: u32. unat offset = unat c div length bs" if "unat esi = unat ?K + unat c div length bs"
      using that unat_lt [of esi] by (intro exI [of _ "of_nat (unat c div length bs)"] unat_of_nat_len) simp
    then show ?thesis by metis
  qed
  finally show ?thesis .
qed

text \<open>
  The repair phase never repeats itself and never falls back to a source symbol: distinct
  cursors give distinct ids, every id has an ESI of at least its block's symbol count and
  below \<open>2 ^ 24\<close>, and every such id of every block is reached by some cursor.
\<close>

lemma repair_ids_exact:
  assumes "meta_ok rq meta"
  defines "bs \<equiv> m_blocks meta"
  shows "(\<forall>c c' p. repair_symbol_id bs c = Some p \<and> repair_symbol_id bs c' = Some p \<longrightarrow> c = c') \<and>
    {p. \<exists>c. repair_symbol_id bs c = Some p} =
      {(sbn, esi). unat sbn < length bs \<and> unat (b_num_source_symbols (bs ! unat sbn)) \<le> unat esi \<and>
         unat esi < 16777216}"
proof -
  have ok: "plan_ok bs" "bs \<noteq> []" using assms plan_ok_meta by (auto simp: meta_ok_def)
  then have n: "length bs \<le> 255" by (simp add: plan_ok_def)
  have inj: "c = c'" if c: "repair_symbol_id bs c = Some (sbn, esi)" "repair_symbol_id bs c' = Some (sbn, esi)" for c c' sbn esi
  proof -
    from c have "unat c mod length bs = unat c' mod length bs" "unat c div length bs = unat c' div length bs"
      by (auto simp: repair_symbol_id_Some [OF ok])
    then have "unat c = unat c'" by (metis div_mult_mod_eq)
    then show ?thesis by (simp add: word_unat_eq_iff)
  qed
  have "\<exists>c. repair_symbol_id bs c = Some (sbn, esi)"
    if i: "unat sbn < length bs" and e: "unat (b_num_source_symbols (bs ! unat sbn)) \<le> unat esi" "unat esi < 16777216"
    for sbn esi
  proof -
    let ?m = "(unat esi - unat (b_num_source_symbols (bs ! unat sbn))) * length bs + unat sbn"
    have "?m \<le> 16777216 * 255 + 255" using i e n by (intro add_mono mult_mono) auto
    then have "unat (of_nat ?m :: u64) = ?m" by (intro unat_of_nat_len) simp
    moreover have "?m div length bs = unat esi - unat (b_num_source_symbols (bs ! unat sbn))"
      "?m mod length bs = unat sbn" using i ok(2) by simp_all
    ultimately have "repair_symbol_id bs (of_nat ?m) = Some (sbn, esi)"
      using i e unfolding repair_symbol_id_Some [OF ok] by simp
    then show ?thesis by blast
  qed
  moreover have "unat sbn < length bs \<and> unat (b_num_source_symbols (bs ! unat sbn)) \<le> unat esi \<and> unat esi < 16777216"
    if "repair_symbol_id bs c = Some (sbn, esi)" for c sbn esi
    using that ok by (auto simp: repair_symbol_id_Some [OF ok])
  ultimately show ?thesis using inj by auto
qed

section \<open>Sessions\<close>

text \<open>
  The data positions of a session: first the source plan, then the repair ids.  The code's two
  cursors are one position.
\<close>

definition position_of :: "'e sender \<Rightarrow> nat" where
  "position_of s = sn_source_cursor s + unat (sn_repair_cursor s)"

definition id_at :: "object_meta \<Rightarrow> nat \<Rightarrow> (u32 \<times> u32) option" where
  "id_at meta n =
     (let plan = build_source_plan meta in
      if n < length plan then Some (plan ! n)
      else if n - length plan < 2 ^ 64 - 1
      then repair_symbol_id (m_blocks meta) (of_nat (n - length plan)) else None)"

text \<open>What holds of a session over \<open>data\<close> (the padded payload) from its construction on.\<close>

definition sender_static :: "('e, 'd) raptorq \<Rightarrow> bytes \<Rightarrow> 'e sender \<Rightarrow> bool" where
  "sender_static rq data s \<longleftrightarrow>
     encoder_new rq data (sc_codec (sn_config s)) = Inr (sn_encoder s) \<and>
     sn_meta s = enc_meta (sn_encoder s) \<and> meta_ok rq (sn_meta s) \<and>
     is_ok (build_payload_inner (sn_meta s) (sn_file_meta s) (sn_segment_meta s)) \<and>
     (\<forall>seg. sn_segment_meta s = Some seg \<longrightarrow>
        segment_validate seg (sn_session_id s) (sn_file_meta s) = Inr ()) \<and>
     sn_total_k s = total_symbols (sn_meta s) \<and> sn_source_plan s = build_source_plan (sn_meta s)"

definition sender_inv :: "('e, 'd) raptorq \<Rightarrow> bytes \<Rightarrow> 'e sender \<Rightarrow> bool" where
  "sender_inv rq data s \<longleftrightarrow>
     sender_static rq data s \<and> sn_source_cursor s \<le> length (sn_source_plan s) \<and>
     (sn_repair_cursor s \<noteq> 0 \<longrightarrow> sn_source_cursor s = length (sn_source_plan s))"

text \<open>The parts of a session that no operation changes.\<close>

definition same_session :: "'e sender \<Rightarrow> 'e sender \<Rightarrow> bool" where
  "same_session s s' \<longleftrightarrow>
     sn_config s' = sn_config s \<and> sn_session_id s' = sn_session_id s \<and> sn_encoder s' = sn_encoder s \<and>
     sn_meta s' = sn_meta s \<and> sn_file_meta s' = sn_file_meta s \<and> sn_segment_meta s' = sn_segment_meta s \<and>
     sn_total_k s' = sn_total_k s \<and> sn_source_plan s' = sn_source_plan s"

lemma same_session_refl [simp]: "same_session s s"
  by (simp add: same_session_def)

lemma same_session_trans: "same_session s s' \<Longrightarrow> same_session s' s'' \<Longrightarrow> same_session s s''"
  by (simp add: same_session_def)

lemma same_session_static: "same_session s s' \<Longrightarrow> sender_static rq data s' = sender_static rq data s"
  by (simp add: same_session_def sender_static_def)

lemma sender_new_inner_inv:
  assumes "encode_contract rq" "sender_new_inner rq payload sid cfg fm seg = Inr s"
    and "\<And>sg. seg = Some sg \<Longrightarrow> segment_validate sg sid fm = Inr ()"
    and len: "length (pad_to_symbols payload (sc_codec cfg)) \<le> 33554432"
  shows "sender_inv rq (pad_to_symbols payload (sc_codec cfg)) s \<and> position_of s = 0 \<and>
    sn_frame_index s = 0 \<and> sn_session_id s = sid \<and> sn_config s = cfg \<and> sn_file_meta s = fm \<and>
    sn_segment_meta s = seg"
proof -
  from assms(2) obtain enc p where enc: "encoder_new rq (pad_to_symbols payload (sc_codec cfg)) (sc_codec cfg) = Inr enc"
    and p: "build_payload_inner (enc_meta enc) fm seg = Inr p"
    and s: "s = \<lparr>sn_config = cfg, sn_session_id = sid, sn_encoder = enc, sn_meta = enc_meta enc,
            sn_file_meta = fm, sn_segment_meta = seg, sn_total_k = total_symbols (enc_meta enc),
            sn_source_plan = build_source_plan (enc_meta enc), sn_source_cursor = 0, sn_repair_cursor = 0,
            sn_frame_index = 0, sn_descriptor_interval = 17, sn_started = False, sn_start_ms = 0,
            sn_stats = stats_default\<rparr>"
    by (auto simp: sender_new_inner_def Let_def)
  have "meta_ok rq (enc_meta enc)" using assms(1) enc len by (rule encoder_meta_ok)
  then show ?thesis using enc p assms(3)
    by (simp add: s sender_inv_def sender_static_def position_of_def is_ok_iff)
qed

lemma sender_inv_plan: "sender_inv rq data s \<Longrightarrow> plan_ok (m_blocks (sn_meta s)) \<and> m_blocks (sn_meta s) \<noteq> []"
  by (auto simp: sender_inv_def sender_static_def meta_ok_def dest: plan_ok_meta)

lemma source_plan_nonempty:
  assumes "plan_ok (m_blocks meta)" "m_blocks meta \<noteq> []"
  shows "build_source_plan meta \<noteq> []"
proof -
  have "0 < unat (b_num_source_symbols (m_blocks meta ! 0))" using assms by (auto simp: plan_ok_def)
  then have "(0, 0) \<in> set (build_source_plan meta)"
    using assms(2) by (simp add: source_plan_set [OF assms(1)])
  then show ?thesis by auto
qed

lemma next_symbol_id_cases:
  assumes "sender_inv rq data s" "next_symbol_id s = (s', r)"
  shows "(case r of
      Inr p \<Rightarrow> id_at (sn_meta s) (position_of s) = Some p \<and> position_of s' = position_of s + 1
    | Inl e \<Rightarrow> e = SymbolIdSpaceExhausted \<and> id_at (sn_meta s) (position_of s) = None \<and> s' = s) \<and>
    sender_inv rq data s' \<and> same_session s s' \<and> sn_frame_index s' = sn_frame_index s \<and>
    sn_descriptor_interval s' = sn_descriptor_interval s"
proof -
  let ?plan = "sn_source_plan s" and ?c = "sn_repair_cursor s"
  have plan: "?plan = build_source_plan (sn_meta s)" and cur: "sn_source_cursor s \<le> length ?plan"
    "?c \<noteq> 0 \<Longrightarrow> sn_source_cursor s = length ?plan"
    using assms(1) by (auto simp: sender_inv_def sender_static_def)
  show ?thesis
  proof (cases "sn_source_cursor s < length ?plan")
    case True
    then have "?c = 0" using cur by auto
    with True plan assms show ?thesis
      by (auto simp: next_symbol_id_def id_at_def position_of_def Let_def sender_inv_def sender_static_def
          same_session_def)
  next
    case False
    then have pos: "position_of s = length ?plan + unat ?c" using cur by (simp add: position_of_def)
    have lt: "unat ?c < 2 ^ 64" using unat_lt [of ?c] by simp
    show ?thesis
    proof (cases "checked_add ?c 1")
      case None
      then have "\<not> unat ?c < 2 ^ 64 - 1" by (simp add: checked_add_None)
      then have "id_at (sn_meta s) (position_of s) = None" by (simp add: id_at_def pos plan [symmetric])
      with False None assms show ?thesis
        by (auto simp: next_symbol_id_def split: option.splits)
    next
      case (Some c')
      then have c': "unat c' = unat ?c + 1" by (simp add: checked_add_Some)
      then have "unat ?c < 2 ^ 64 - 1" using unat_lt [of c'] by simp
      then have id: "id_at (sn_meta s) (position_of s) = repair_symbol_id (m_blocks (sn_meta s)) ?c"
        by (simp add: id_at_def pos plan [symmetric])
      show ?thesis
      proof (cases "repair_symbol_id (m_blocks (sn_meta s)) ?c")
        case None
        with False id assms show ?thesis by (auto simp: next_symbol_id_def)
      next
        case id': (Some p)
        have "s' = s\<lparr>sn_repair_cursor := c'\<rparr>" "r = Inr p"
          using False Some id' assms(2) by (auto simp: next_symbol_id_def)
        with id id' assms(1) False c' pos cur show ?thesis
          by (auto simp: position_of_def sender_inv_def sender_static_def same_session_def)
      qed
    qed
  qed
qed

lemma id_at_inj:
  assumes ok: "plan_ok (m_blocks meta)" "m_blocks meta \<noteq> []"
    and p: "id_at meta m = Some p" "id_at meta n = Some p"
  shows "m = n"
proof -
  let ?L = "length (build_source_plan meta)"
  have repair: "unat (b_num_source_symbols (m_blocks meta ! unat sbn)) \<le> unat esi"
    if "repair_symbol_id (m_blocks meta) c = Some (sbn, esi)" for c sbn esi
    using that by (auto simp: repair_symbol_id_Some [OF ok])
  have source: "unat esi < unat (b_num_source_symbols (m_blocks meta ! unat sbn))"
    if "k < ?L" "build_source_plan meta ! k = (sbn, esi)" for k sbn esi
    using nth_mem [OF that(1)] that(2) source_plan_set [OF ok(1)] by auto
  obtain sbn esi where pe: "p = (sbn, esi)" by (cases p)
  have "m < ?L \<longleftrightarrow> n < ?L"
    using p repair source unfolding pe id_at_def Let_def by (fastforce split: if_splits)
  moreover have "m = n" if "m < ?L" "n < ?L"
    using that p source_plan_distinct [OF ok(1)] by (auto simp: id_at_def Let_def nth_eq_iff_index_eq)
  moreover have "m = n" if "\<not> m < ?L" "\<not> n < ?L"
  proof -
    from p that have r: "repair_symbol_id (m_blocks meta) (of_nat (m - ?L)) = Some (sbn, esi)"
      "repair_symbol_id (m_blocks meta) (of_nat (n - ?L)) = Some (sbn, esi)"
      and small: "m - ?L < 2 ^ 64" "n - ?L < 2 ^ 64"
      by (auto simp: id_at_def Let_def pe split: if_splits)
    have u: "unat (of_nat (m - ?L) :: u64) = m - ?L" "unat (of_nat (n - ?L) :: u64) = n - ?L"
      using small by (simp_all add: unat_of_nat_len del: of_nat_diff)
    from r have "(m - ?L) mod length (m_blocks meta) = (n - ?L) mod length (m_blocks meta)"
      "(m - ?L) div length (m_blocks meta) = (n - ?L) div length (m_blocks meta)"
      unfolding repair_symbol_id_Some [OF ok] u by auto
    then have "m - ?L = n - ?L" by (metis div_mult_mod_eq)
    with that show ?thesis by linarith
  qed
  ultimately show ?thesis by blast
qed

text \<open>A frame of this session: a descriptor of its metadata, or a genuine symbol.\<close>

definition sent_frame :: "('e, 'd) raptorq \<Rightarrow> (bytes \<Rightarrow> u32) \<Rightarrow> 'e sender \<Rightarrow> frame \<Rightarrow> bool" where
  "sent_frame rq crc s f \<longleftrightarrow>
     frame_valid crc f \<and> fh_session_id (fr_header f) = sn_session_id s \<and>
     fh_symbol_size (fr_header f) = m_symbol_size (sn_meta s) \<and>
     fh_total_blocks (fr_header f) = of_nat (length (m_blocks (sn_meta s))) \<and>
     fh_total_symbols (fr_header f) = total_symbols (sn_meta s) \<and>
     (if fh_flags (fr_header f) = FLAG_DESCRIPTOR
      then build_payload_inner (sn_meta s) (sn_file_meta s) (sn_segment_meta s) = Inr (fr_payload f)
      else fh_flags (fr_header f) = 0 \<and>
        genuine rq (sn_encoder s)
          (symbol_new (fh_sbn (fr_header f)) (fh_esi (fr_header f)) (fr_payload f)))"

definition data_id :: "frame \<Rightarrow> u32 \<times> u32" where
  "data_id f = (fh_sbn (fr_header f), fh_esi (fr_header f))"

definition is_data :: "frame \<Rightarrow> bool" where
  "is_data f \<longleftrightarrow> fh_flags (fr_header f) = 0"

lemma frame_build_sel [simp]:
  "fr_payload (frame_build crc sid fl sbn esi tb ts ss idx tms x) = x"
  "fh_session_id (fr_header (frame_build crc sid fl sbn esi tb ts ss idx tms x)) = sid"
  "fh_flags (fr_header (frame_build crc sid fl sbn esi tb ts ss idx tms x)) = fl"
  "fh_sbn (fr_header (frame_build crc sid fl sbn esi tb ts ss idx tms x)) = sbn"
  "fh_esi (fr_header (frame_build crc sid fl sbn esi tb ts ss idx tms x)) = esi"
  "fh_total_blocks (fr_header (frame_build crc sid fl sbn esi tb ts ss idx tms x)) = tb"
  "fh_total_symbols (fr_header (frame_build crc sid fl sbn esi tb ts ss idx tms x)) = ts"
  "fh_symbol_size (fr_header (frame_build crc sid fl sbn esi tb ts ss idx tms x)) = ss"
  "fh_frame_index (fr_header (frame_build crc sid fl sbn esi tb ts ss idx tms x)) = idx"
  by (simp_all add: frame_build_def Let_def)

text \<open>What the descriptor writer produces has the size the frame announces.\<close>

lemma build_payload_size:
  assumes "build_payload_inner meta fm seg = Inr p" "length (m_oti_bytes meta) = 12"
    "\<And>sg. seg = Some sg \<Longrightarrow> length (sg_root_sha256 sg) = 32 \<and> length (sg_raw_sha256 sg) = 32"
  shows "length p = unat (m_symbol_size meta)"
  using assms filename_len_bound [of meta fm seg]
  by (cases seg) (auto simp: build_payload_inner_def Let_def desc_consts length_segment_bytes split: if_splits)

text \<open>The digests of a segment are 32-byte arrays.\<close>

definition digests_ok :: "'e sender \<Rightarrow> bool" where
  "digests_ok s \<longleftrightarrow> (\<forall>sg. sn_segment_meta s = Some sg \<longrightarrow>
     length (sg_root_sha256 sg) = 32 \<and> length (sg_raw_sha256 sg) = 32)"

definition upstream_ok :: "('e, 'd) raptorq \<Rightarrow> bool" where
  "upstream_ok rq \<longleftrightarrow> encode_contract rq \<and> repair_contract rq \<and> decode_contract rq"

lemma fetch_symbol_ok:
  assumes up: "upstream_ok rq" and inv: "sender_static rq data s" and len: "length data \<le> 33554432"
    and id: "id_at (sn_meta s) n = Some (sbn, esi)"
  shows "\<exists>x. fetch_symbol rq s sbn esi = Inr (symbol_new sbn esi x) \<and>
    length x = unat (m_symbol_size (sn_meta s)) \<and>
    cfg_symbol_size (sc_codec (sn_config s)) = m_symbol_size (sn_meta s) \<and>
    genuine rq (sn_encoder s) (symbol_new sbn esi x)"
proof -
  let ?enc = "sn_encoder s" and ?bl = "m_blocks (sn_meta s)"
  from inv have enc: "encoder_new rq data (sc_codec (sn_config s)) = Inr ?enc" and meta: "sn_meta s = enc_meta ?enc"
    and ok: "plan_ok ?bl" "?bl \<noteq> []" by (auto simp: sender_static_def meta_ok_def dest: plan_ok_meta)
  obtain mtu oti bs pad where F: "built_from rq data ?enc mtu oti bs pad"
    using up enc len encoder_new_facts unfolding upstream_ok_def by metis
  then have bl: "length ?bl = length bs" and T: "unat mtu - 4 = unat (m_symbol_size (sn_meta s))"
    by (auto simp: built_from_def meta from_encoder_def)
  have cs: "cfg_symbol_size (sc_codec (sn_config s)) = m_symbol_size (sn_meta s)"
    using enc meta by (auto simp: encoder_new_Inr config_new_Inr from_encoder_def Let_def)
  have "unat sbn < length ?bl \<and> unat esi < 16777216"
  proof (cases "n < length (build_source_plan (sn_meta s))")
    case True
    then have "(sbn, esi) \<in> set (build_source_plan (sn_meta s))" using id nth_mem [OF True] by (auto simp: id_at_def Let_def)
    then have "unat sbn < length ?bl" "unat esi < unat (b_num_source_symbols (?bl ! unat sbn))"
      by (auto simp: source_plan_set [OF ok(1)])
    then show ?thesis using ok(1) by (auto simp: plan_ok_def)
  next
    case False
    then have "repair_symbol_id ?bl (of_nat (n - length (build_source_plan (sn_meta s)))) = Some (sbn, esi)"
      using id by (auto simp: id_at_def Let_def split: if_splits)
    then show ?thesis using ok(2) by (auto simp: repair_symbol_id_Some [OF ok])
  qed
  then have i: "unat sbn < length bs" and e: "unat esi < 16777216" by (simp_all add: bl)
  have C: "repair_contract rq" using up by (simp add: upstream_ok_def)
  have k: "block_k ?enc sbn = b_num_source_symbols (?bl ! unat sbn)" by (simp add: block_k_def meta)
  show ?thesis
  proof (cases "esi < block_k ?enc sbn")
    case True
    then obtain x where x: "source_symbol ?enc sbn esi = Inr (symbol_new sbn esi x)" "length x = unat mtu - 4"
      using symbol_available [OF F C len i e] by auto
    then have "genuine rq ?enc (symbol_new sbn esi x)" by (simp add: genuine_def)
    moreover have "fetch_symbol rq s sbn esi = Inr (symbol_new sbn esi x)"
      using x True by (simp add: fetch_symbol_def k)
    ultimately show ?thesis using x T cs by auto
  next
    case False
    then obtain x where x: "repair_symbols rq ?enc sbn (esi - block_k ?enc sbn) 1 = Inr [symbol_new sbn esi x]"
      "length x = unat mtu - 4"
      using symbol_available [OF F C len i e] by auto
    then have "genuine rq ?enc (symbol_new sbn esi x)" using False by (simp add: genuine_def not_less)
    moreover have "fetch_symbol rq s sbn esi = Inr (symbol_new sbn esi x)"
      using x False by (simp add: fetch_symbol_def k)
    ultimately show ?thesis using x T cs by auto
  qed
qed

lemma descriptor_step:
  assumes up: "upstream_ok rq" and inv: "sender_static rq data s" and dg: "digests_ok s"
    and len: "length data \<le> 33554432" and ss: "same_session s s1"
  shows "\<exists>f. descriptor_frame crc now s1 = Inr f \<and>
    sent_frame rq crc s f \<and> \<not> is_data f \<and> fh_frame_index (fr_header f) = sn_frame_index s1"
proof -
  obtain p where p: "build_payload_inner (sn_meta s) (sn_file_meta s) (sn_segment_meta s) = Inr p"
    using inv by (auto simp: sender_static_def is_ok_iff)
  from inv have enc: "encoder_new rq data (sc_codec (sn_config s)) = Inr (sn_encoder s)" and meta: "sn_meta s = enc_meta (sn_encoder s)"
    by (auto simp: sender_static_def)
  obtain mtu oti bs pad where F: "built_from rq data (sn_encoder s) mtu oti bs pad"
    using up enc len encoder_new_facts unfolding upstream_ok_def by metis
  then have "length (m_oti_bytes (sn_meta s)) = 12" by (auto simp: built_from_def meta from_encoder_def)
  then have lp: "length p = unat (m_symbol_size (sn_meta s))"
    using build_payload_size [OF p] dg by (auto simp: digests_ok_def)
  show ?thesis
  proof (cases "sn_segment_meta s")
    case None
    with p lp ss show ?thesis
      by (auto simp: same_session_def descriptor_frame_def build_frame_def build_payload_def sent_frame_def is_data_def
          frame_build_valid FLAG_DESCRIPTOR_def)
  next
    case (Some sg)
    then have "segment_validate sg (sn_session_id s) (sn_file_meta s) = Inr ()"
      using inv by (simp add: sender_static_def)
    with Some p lp ss show ?thesis
      by (auto simp: same_session_def descriptor_frame_def build_segment_frame_def build_segment_payload_def sent_frame_def
          is_data_def frame_build_valid FLAG_DESCRIPTOR_def)
  qed
qed

text \<open>One call of \<open>next_frame\<close>: it emits a genuine frame or reports exhaustion.\<close>

lemma next_frame_step:
  assumes up: "upstream_ok rq" and inv: "sender_inv rq data s" and dg: "digests_ok s"
    and len: "length data \<le> 33554432" and nf: "next_frame rq crc clock s = (s', r)"
  shows "sender_inv rq data s' \<and> same_session s s' \<and> (case r of
      Inr f \<Rightarrow> sent_frame rq crc s f \<and> fh_frame_index (fr_header f) = sn_frame_index s + 1 \<and>
        sn_frame_index s' = sn_frame_index s + 1 \<and>
        (is_data f \<longleftrightarrow> \<not> descriptor_due s) \<and>
        (if is_data f then id_at (sn_meta s) (position_of s) = Some (data_id f) \<and> position_of s' = position_of s + 1
         else position_of s' = position_of s)
    | Inl e \<Rightarrow> e = SymbolIdSpaceExhausted \<and> id_at (sn_meta s) (position_of s) = None \<and>
        \<not> descriptor_due s \<and> position_of s' = position_of s \<and> sn_frame_index s' = sn_frame_index s)"
proof -
  obtain t0 now t2 where clock: "clock = (t0, now, t2)" by (cases clock)
  define s1 where "s1 = start_clock t0 s"
  have st: "sender_static rq data s" using inv by (simp add: sender_inv_def)
  have s1: "same_session s s1" "sender_inv rq data s1" "position_of s1 = position_of s"
    "sn_frame_index s1 = sn_frame_index s" "sn_descriptor_interval s1 = sn_descriptor_interval s"
    using inv by (auto simp: s1_def start_clock_def same_session_def sender_inv_def sender_static_def position_of_def)
  have plan: "sn_source_plan s \<noteq> []"
    using source_plan_nonempty sender_inv_plan [OF inv] st by (auto simp: sender_static_def)
  have due: "descriptor_due s1 \<longleftrightarrow> descriptor_due s" by (simp add: descriptor_due_def s1)
  show ?thesis
  proof (cases "descriptor_due s1")
    case True
    define s2 where "s2 = s1\<lparr>sn_frame_index := sn_frame_index s1 + 1\<rparr>"
    have "same_session s s2" using s1 by (simp add: s2_def same_session_def)
    from descriptor_step [OF up st dg len this, of crc now]
    obtain f where f: "descriptor_frame crc now s2 = Inr f"
      "sent_frame rq crc s f" "\<not> is_data f" "fh_frame_index (fr_header f) = sn_frame_index s2" by blast
    have "(s', r) = (s2\<lparr>sn_stats := record_sent (sn_stats s2) t2 (of_nat (length (fr_payload f)))\<rparr>, Inr f)"
      using nf plan True f(1)
      by (simp add: next_frame_def clock Let_def s1_def [symmetric] emit_descriptor_def s2_def [symmetric])
    with f s1 True show ?thesis
      by (auto simp: s2_def due same_session_def sender_inv_def sender_static_def position_of_def)
  next
    case False
    obtain s2 rid where n: "next_symbol_id s1 = (s2, rid)" by (cases "next_symbol_id s1")
    note N = next_symbol_id_cases [OF s1(2) n]
    show ?thesis
    proof (cases rid)
      case (Inl e)
      then have "(s', r) = (s2, Inl e)"
        using nf plan False n by (simp add: next_frame_def clock Let_def s1_def [symmetric] emit_data_def)
      with Inl N s1 False show ?thesis by (auto simp: due same_session_def)
    next
      case (Inr p)
      obtain sbn esi where p: "p = (sbn, esi)" by (cases p)
      have ss2: "same_session s s2" using N s1 same_session_trans by blast
      have st2: "sender_static rq data s2" using N by (simp add: sender_inv_def)
      have id: "id_at (sn_meta s) (position_of s) = Some (sbn, esi)"
        using N Inr p s1 by (auto simp: same_session_def)
      then have "id_at (sn_meta s2) (position_of s) = Some (sbn, esi)" using ss2 by (simp add: same_session_def)
      from fetch_symbol_ok [OF up st2 len this] obtain x where x: "fetch_symbol rq s2 sbn esi = Inr (symbol_new sbn esi x)"
        "length x = unat (m_symbol_size (sn_meta s))" "genuine rq (sn_encoder s) (symbol_new sbn esi x)"
        "cfg_symbol_size (sc_codec (sn_config s2)) = m_symbol_size (sn_meta s)"
        using ss2 by (auto simp: same_session_def)
      define s3 where "s3 = s2\<lparr>sn_frame_index := sn_frame_index s2 + 1,
          sn_stats := record_sent (sn_stats s2) t2 (of_nat (length x))\<rparr>"
      define f where "f = data_frame crc now s3 sbn esi x"
      have res: "(s', r) = (s3, Inr f)"
        using nf plan False n Inr p x(1)
        by (auto simp: next_frame_def clock Let_def s1_def [symmetric] emit_data_def s3_def [symmetric] f_def)
      have s3: "same_session s s3" "sender_inv rq data s3" "position_of s3 = position_of s + 1"
        "sn_frame_index s3 = sn_frame_index s + 1"
        using ss2 N Inr s1 by (auto simp: s3_def same_session_def sender_inv_def sender_static_def position_of_def)
      then have "sent_frame rq crc s f"
        using x st by (auto simp: f_def data_frame_def sent_frame_def FLAG_DESCRIPTOR_def frame_build_valid same_session_def
            sender_static_def s3_def)
      moreover have "is_data f" "data_id f = (sbn, esi)" "fh_frame_index (fr_header f) = sn_frame_index s3"
        by (simp_all add: f_def data_frame_def is_data_def data_id_def)
      ultimately show ?thesis using res s3 id False by (auto simp: due)
    qed
  qed
qed

section \<open>Runs of a session\<close>

text \<open>
  Everything a host can do with a session, in any order: calls that emit, calls that fail,
  and changes of the descriptor interval.  The list holds the emitted frames.
\<close>

inductive sender_run ::
  "('e, 'd) raptorq \<Rightarrow> (bytes \<Rightarrow> u32) \<Rightarrow> 'e sender \<Rightarrow> frame list \<Rightarrow> 'e sender \<Rightarrow> bool"
  for rq crc where
  run_done: "sender_run rq crc s [] s"
| run_emit: "next_frame rq crc clock s = (s1, Inr f) \<Longrightarrow> sender_run rq crc s1 fs s2 \<Longrightarrow>
     sender_run rq crc s (f # fs) s2"
| run_fail: "next_frame rq crc clock s = (s1, Inl e) \<Longrightarrow> sender_run rq crc s1 fs s2 \<Longrightarrow>
     sender_run rq crc s fs s2"
| run_interval: "sender_run rq crc (set_descriptor_interval s i) fs s2 \<Longrightarrow> sender_run rq crc s fs s2"

lemma set_interval_inv:
  "sender_inv rq data (set_descriptor_interval s i) = sender_inv rq data s"
  "digests_ok (set_descriptor_interval s i) = digests_ok s"
  "position_of (set_descriptor_interval s i) = position_of s"
  "same_session s (set_descriptor_interval s i)"
  by (simp_all add: set_descriptor_interval_def sender_inv_def sender_static_def digests_ok_def
      position_of_def same_session_def)

lemma same_session_frame: "same_session s s' \<Longrightarrow> sent_frame rq crc s' f = sent_frame rq crc s f"
  by (simp add: same_session_def sent_frame_def)

lemma same_session_digests: "same_session s s' \<Longrightarrow> digests_ok s' = digests_ok s"
  by (simp add: same_session_def digests_ok_def)

text \<open>The data frames of a run come from strictly increasing positions.\<close>

lemma sender_run_positions:
  assumes "sender_run rq crc s fs s'" "upstream_ok rq" "sender_inv rq data s" "digests_ok s"
    "length data \<le> 33554432"
  shows "sender_inv rq data s' \<and> same_session s s' \<and> (\<forall>f \<in> set fs. sent_frame rq crc s f) \<and>
    (\<exists>ps. sorted_wrt (<) ps \<and> (\<forall>p \<in> set ps. position_of s \<le> p \<and> p < position_of s') \<and>
       map (\<lambda>p. id_at (sn_meta s) p) ps = map (\<lambda>f. Some (data_id f)) (filter is_data fs)) \<and>
    position_of s \<le> position_of s'"
  using assms
proof (induction rule: sender_run.induct)
  case (run_done s)
  then show ?case by (auto intro: exI [of _ "[]"])
next
  case (run_emit clock s s1 f fs s2)
  note N = next_frame_step [OF run_emit.prems run_emit.hyps(1)]
  then have N1: "sender_inv rq data s1" "same_session s s1" "sent_frame rq crc s f"
    "if is_data f then id_at (sn_meta s) (position_of s) = Some (data_id f) \<and> position_of s1 = position_of s + 1
         else position_of s1 = position_of s" by auto
  have IH: "sender_inv rq data s2" "same_session s1 s2" "\<forall>f \<in> set fs. sent_frame rq crc s1 f"
    "position_of s1 \<le> position_of s2"
    and "\<exists>ps. sorted_wrt (<) ps \<and> (\<forall>p \<in> set ps. position_of s1 \<le> p \<and> p < position_of s2) \<and>
       map (\<lambda>p. id_at (sn_meta s1) p) ps = map (\<lambda>f. Some (data_id f)) (filter is_data fs)"
    using run_emit.IH run_emit.prems N1 same_session_digests by blast+
  then obtain ps where ps: "sorted_wrt (<) ps" "\<And>p. p \<in> set ps \<Longrightarrow> position_of s1 \<le> p \<and> p < position_of s2"
    "map (\<lambda>p. id_at (sn_meta s) p) ps = map (\<lambda>f. Some (data_id f)) (filter is_data fs)"
    using N1(2) unfolding same_session_def by metis
  have "\<exists>ps. sorted_wrt (<) ps \<and> (\<forall>p \<in> set ps. position_of s \<le> p \<and> p < position_of s2) \<and>
       map (\<lambda>p. id_at (sn_meta s) p) ps = map (\<lambda>f. Some (data_id f)) (filter is_data (f # fs))"
  proof (cases "is_data f")
    case True
    have b: "position_of s1 \<le> p \<and> p < position_of s2" if "p \<in> set ps" for p using ps(2) that .
    with True N1(4) IH(4) ps show ?thesis
      by (intro exI [of _ "position_of s # ps"]) (auto dest!: b)
  next
    case False
    with N1(4) ps show ?thesis by (intro exI [of _ ps]) auto
  qed
  then show ?case
    using IH N1 same_session_trans [OF N1(2) IH(2)] same_session_frame [OF N1(2)]
    by (auto split: if_splits)
next
  case (run_fail clock s s1 e fs s2)
  note N = next_frame_step [OF run_fail.prems run_fail.hyps(1)]
  then have N1: "sender_inv rq data s1" "same_session s s1" "position_of s1 = position_of s" by auto
  then have "sn_meta s1 = sn_meta s" by (simp add: same_session_def)
  with run_fail.IH [OF run_fail.prems(1) N1(1)] run_fail.prems N1 show ?case
    using same_session_frame [OF N1(2)] same_session_digests [OF N1(2)]
    by (auto intro: same_session_trans)
next
  case (run_interval s i fs s2)
  have "sn_meta (set_descriptor_interval s i) = sn_meta s" by (simp add: set_descriptor_interval_def)
  with run_interval.IH run_interval.prems show ?case
    using set_interval_inv(1) [of rq data s i] set_interval_inv(2-4) [of s i]
      same_session_frame [OF set_interval_inv(4) [of s i], of rq crc]
    by (auto intro: same_session_trans)
qed

lemma sender_new_inv:
  assumes up: "upstream_ok rq" and new: "sender_new rq payload sid cfg fm = Inr s"
    and len: "length (pad_to_symbols payload (sc_codec cfg)) \<le> 33554432"
  shows "sender_inv rq (pad_to_symbols payload (sc_codec cfg)) s" "digests_ok s" "sn_session_id s = sid"
    "position_of s = 0" "sn_frame_index s = 0" "sn_segment_meta s = None" "sn_descriptor_interval s = 17"
    "sn_file_meta s = fm" "sn_config s = cfg"
proof -
  have N: "sender_new_inner rq payload sid cfg fm None = Inr s" using new by (simp add: sender_new_def)
  have C: "encode_contract rq" using up by (simp add: upstream_ok_def)
  have st: "s = s\<lparr>sn_session_id := sid, sn_frame_index := 0, sn_segment_meta := None, sn_descriptor_interval := 17,
      sn_file_meta := fm, sn_config := cfg\<rparr>"
    using N unfolding sender_new_inner_def Let_def bind_result_Inr by auto
  show seg: "sn_segment_meta s = None" and "sn_session_id s = sid" "sn_frame_index s = 0" "sn_descriptor_interval s = 17"
    "sn_file_meta s = fm" "sn_config s = cfg"
    by (subst st, simp)+
  show "digests_ok s" using seg by (simp add: digests_ok_def)
  show "sender_inv rq (pad_to_symbols payload (sc_codec cfg)) s" "position_of s = 0"
    using sender_new_inner_inv [OF C N] len by simp_all
qed

text \<open>
  C20: whatever a host does with a session, no data symbol is ever sent twice, and every frame
  that comes out is a valid frame of the session: a descriptor of its metadata or a genuine
  symbol of its payload.
\<close>

theorem sender_never_repeats:
  assumes "upstream_ok rq" "sender_new rq payload sid cfg fm = Inr s"
    and "length (pad_to_symbols payload (sc_codec cfg)) \<le> 33554432"
    and "sender_run rq crc s fs s'"
  shows "distinct (map data_id (filter is_data fs)) \<and> (\<forall>f \<in> set fs. sent_frame rq crc s f)"
proof -
  note new = sender_new_inv [OF assms(1-3)]
  from sender_run_positions [OF assms(4,1) new(1,2) assms(3)] obtain ps where ps: "sorted_wrt (<) ps"
    "map (\<lambda>p. id_at (sn_meta s) p) ps = map (\<lambda>f. Some (data_id f)) (filter is_data fs)"
    and fr: "\<forall>f \<in> set fs. sent_frame rq crc s f" by blast
  have ok: "plan_ok (m_blocks (sn_meta s))" "m_blocks (sn_meta s) \<noteq> []" using sender_inv_plan [OF new(1)] by auto
  have "distinct ps" using ps(1) by (simp add: strict_sorted_iff)
  moreover have "inj_on (\<lambda>p. id_at (sn_meta s) p) (set ps)"
  proof (rule inj_onI)
    fix p q assume p: "p \<in> set ps" and "id_at (sn_meta s) p = id_at (sn_meta s) q"
    from p have "id_at (sn_meta s) p \<in> set (map (\<lambda>f. Some (data_id f)) (filter is_data fs))"
      unfolding ps(2) [symmetric] by simp
    then obtain f where x: "id_at (sn_meta s) p = Some (data_id f)" by auto
    then have "id_at (sn_meta s) q = Some (data_id f)" using \<open>id_at (sn_meta s) p = id_at (sn_meta s) q\<close> by simp
    with x show "p = q" using id_at_inj [OF ok] by metis
  qed
  ultimately have "distinct (map (\<lambda>f. Some (data_id f)) (filter is_data fs))"
    unfolding ps(2) [symmetric] by (simp add: distinct_map)
  then have "distinct (map Some (map data_id (filter is_data fs)))" by (simp add: comp_def)
  then have "distinct (map data_id (filter is_data fs))" unfolding distinct_map by blast
  with fr show ?thesis by blast
qed

section \<open>Consecutive calls\<close>

text \<open>The first \<open>n\<close> calls of \<open>next_frame\<close>, each with its own clock readings.\<close>

fun emit_n ::
  "('e, 'd) raptorq \<Rightarrow> (bytes \<Rightarrow> u32) \<Rightarrow> (nat \<Rightarrow> u64 \<times> u64 \<times> u64) \<Rightarrow> nat \<Rightarrow> 'e sender \<Rightarrow>
   'e sender \<times> (frame, te_error) result list" where
  "emit_n rq crc clock 0 s = (s, [])"
| "emit_n rq crc clock (Suc n) s =
     (case emit_n rq crc clock n s of (s1, rs) \<Rightarrow>
      case next_frame rq crc (clock n) s1 of (s2, r) \<Rightarrow> (s2, rs @ [r]))"

text \<open>The number of descriptors among the first \<open>n\<close> frames at an interval of 17.\<close>

definition descriptors_before :: "nat \<Rightarrow> nat" where
  "descriptors_before n = n div 17 + (if n mod 17 = 0 then 0 else 1)"

lemma descriptors_before_Suc:
  "descriptors_before (Suc n) = descriptors_before n + (if n mod 17 = 0 then 1 else 0)"
  by (auto simp: descriptors_before_def div_Suc mod_Suc)

lemma descriptors_before_le: "descriptors_before n \<le> n"
  using div_less_dividend [of 17 n] by (cases "n = 0") (auto simp: descriptors_before_def)

lemma data_call_exists:
  "p < n - descriptors_before n \<Longrightarrow> \<exists>i < n. i mod 17 \<noteq> 0 \<and> i - descriptors_before i = p"
proof (induction n)
  case (Suc n)
  show ?case
  proof (cases "p < n - descriptors_before n")
    case True
    with Suc.IH show ?thesis by (auto intro: less_SucI)
  next
    case False
    with Suc.prems descriptors_before_le [of n] have "n mod 17 \<noteq> 0" "n - descriptors_before n = p"
      by (auto simp: descriptors_before_Suc split: if_splits)
    then show ?thesis by auto
  qed
qed simp

lemma id_at_defined:
  assumes "plan_ok (m_blocks meta)" "m_blocks meta \<noteq> []" "n < 16720813"
  shows "id_at meta n \<noteq> None"
proof -
  let ?L = "length (build_source_plan meta)" and ?bs = "m_blocks meta"
  let ?c = "of_nat (n - ?L) :: u64"
  have c: "unat ?c = n - ?L" using assms(3) by (intro unat_of_nat_len) simp
  let ?i = "unat ?c mod length ?bs" and ?o = "unat ?c div length ?bs"
  have i: "?i < length ?bs" using assms by simp
  have "unat (b_num_source_symbols (?bs ! ?i)) \<le> 56403" using assms(1) i by (simp add: plan_ok_def)
  moreover have "?o \<le> unat ?c" by simp
  ultimately have e: "unat (b_num_source_symbols (?bs ! ?i)) + ?o < 16777216"
    using assms(3) c by linarith
  have "length ?bs \<le> 255" using assms(1) by (simp add: plan_ok_def)
  then have "unat (of_nat ?i :: u32) = ?i" "unat (of_nat (unat (b_num_source_symbols (?bs ! ?i)) + ?o) :: u32) =
      unat (b_num_source_symbols (?bs ! ?i)) + ?o"
    using i e by (simp_all add: unat_of_nat_len del: of_nat_add)
  then have "repair_symbol_id ?bs ?c = Some (of_nat ?i, of_nat (unat (b_num_source_symbols (?bs ! ?i)) + ?o))"
    using e unfolding repair_symbol_id_Some [OF assms(1,2)] by simp
  moreover have "n - ?L < 2 ^ 64 - 1" using assms(3) by simp
  ultimately show ?thesis by (simp only: id_at_def Let_def if_True if_split option.simps) simp
qed

lemma interval_due:
  assumes "sn_frame_index s = of_nat n" "sn_descriptor_interval s = 17" "n < 2 ^ 64"
  shows "descriptor_due s \<longleftrightarrow> n mod 17 = 0"
proof -
  have u: "unat (of_nat n :: u64) = n" using assms(3) by (intro unat_of_nat_len) simp
  have "ucast (17 :: u32) = (17 :: u64)" by simp
  moreover have "max (17 :: u32) 1 = 17" by (simp add: max_def word_le_nat_alt)
  moreover have "(of_nat n :: u64) mod 17 = 0 \<longleftrightarrow> n mod 17 = 0"
    by (simp add: word_unat_eq_iff unat_mod u)
  moreover have "(of_nat n :: u64) = 0 \<or> 0 < (of_nat n :: u64)" by (simp add: word_gt_0)
  ultimately show ?thesis by (auto simp: descriptor_due_def assms)
qed

lemma next_frame_interval:
  "next_frame rq crc clock s = (s', r) \<Longrightarrow> sn_descriptor_interval s' = sn_descriptor_interval s"
  by (auto simp: next_frame_def start_clock_def emit_descriptor_def emit_data_def next_symbol_id_def Let_def
      split: prod.splits sum.splits if_splits option.splits)

text \<open>What the \<open>i\<close>-th call of a fresh session returns.\<close>

definition scheduled :: "('e, 'd) raptorq \<Rightarrow> (bytes \<Rightarrow> u32) \<Rightarrow> 'e sender \<Rightarrow> nat \<Rightarrow> (frame, te_error) result \<Rightarrow> bool" where
  "scheduled rq crc s i r \<longleftrightarrow> (\<exists>f. r = Inr f \<and> sent_frame rq crc s f \<and>
     fh_frame_index (fr_header f) = of_nat (Suc i) \<and> (is_data f \<longleftrightarrow> i mod 17 \<noteq> 0) \<and>
     (is_data f \<longrightarrow> id_at (sn_meta s) (i - descriptors_before i) = Some (data_id f)))"

text \<open>While the data positions have ids, the calls of a fresh session follow the schedule.\<close>

lemma emit_n_scheduled:
  assumes "upstream_ok rq" "sender_inv rq data s" "digests_ok s" "length data \<le> 33554432"
    and "position_of s = 0" "sn_frame_index s = 0" "sn_descriptor_interval s = 17"
  shows "n < 2 ^ 64 \<Longrightarrow> (\<And>p. p < n - descriptors_before n \<Longrightarrow> id_at (sn_meta s) p \<noteq> None) \<Longrightarrow>
    emit_n rq crc clock n s = (s', rs) \<Longrightarrow>
    length rs = n \<and> (\<forall>i < n. scheduled rq crc s i (rs ! i)) \<and> sender_inv rq data s' \<and> same_session s s' \<and>
    position_of s' = n - descriptors_before n \<and> sn_frame_index s' = of_nat n \<and> sn_descriptor_interval s' = 17"
proof (induction n arbitrary: s' rs)
  case 0
  with assms show ?case by (simp add: descriptors_before_def)
next
  case (Suc n)
  obtain s1 rs1 where e: "emit_n rq crc clock n s = (s1, rs1)" by (cases "emit_n rq crc clock n s")
  obtain s2 r where nf: "next_frame rq crc (clock n) s1 = (s2, r)" by (cases "next_frame rq crc (clock n) s1")
  have res: "s' = s2" "rs = rs1 @ [r]" using Suc.prems e nf by auto
  have mono: "n - descriptors_before n \<le> Suc n - descriptors_before (Suc n)"
    using descriptors_before_le [of n] by (auto simp: descriptors_before_Suc)
  have ids: "id_at (sn_meta s) p \<noteq> None" if "p < n - descriptors_before n" for p
    using Suc.prems(2) that mono by (meson less_le_trans)
  from Suc.IH [OF _ ids e] Suc.prems(1) have IH: "length rs1 = n" "\<forall>i < n. scheduled rq crc s i (rs1 ! i)"
    "sender_inv rq data s1" "same_session s s1" "position_of s1 = n - descriptors_before n"
    "sn_frame_index s1 = of_nat n" "sn_descriptor_interval s1 = 17" by auto
  note N = next_frame_step [OF assms(1) IH(3) same_session_digests [OF IH(4), THEN iffD2, OF assms(3)] assms(4) nf]
  have meta: "sn_meta s1 = sn_meta s" using IH(4) by (simp add: same_session_def)
  have due: "descriptor_due s1 \<longleftrightarrow> n mod 17 = 0" using interval_due [OF IH(6,7)] Suc.prems(1) by simp
  have "id_at (sn_meta s) (position_of s1) \<noteq> None" if "\<not> descriptor_due s1"
    using that due Suc.prems(2) [of "position_of s1"] descriptors_before_le [of n] by (simp add: IH(5) descriptors_before_Suc)
  then obtain f where r: "r = Inr f" using N by (cases r) (auto simp: meta)
  have pos: "position_of s2 = Suc n - descriptors_before (Suc n)"
    using N r IH(5) due descriptors_before_le [of n] by (auto simp: descriptors_before_Suc split: if_splits)
  have "scheduled rq crc s n r"
    using N r due IH meta same_session_frame [OF IH(4), of rq crc f]
    by (auto simp: scheduled_def add.commute split: if_splits)
  then have "\<forall>i < Suc n. scheduled rq crc s i (rs ! i)"
    using IH(1,2) by (auto simp: res nth_append less_Suc_eq)
  moreover have "sn_frame_index s2 = of_nat (Suc n)" using N r IH(6) by (simp add: add.commute)
  moreover have "sn_descriptor_interval s2 = 17" using next_frame_interval [OF nf] IH(7) by simp
  ultimately show ?case
    using N pos IH(1) same_session_trans [OF IH(4)] by (simp add: res)
qed

lemma emit_n_schedule:
  assumes "upstream_ok rq" "sender_inv rq data s" "digests_ok s" "length data \<le> 33554432"
    and "position_of s = 0" "sn_frame_index s = 0" "sn_descriptor_interval s = 17"
    and n: "n \<le> 16720813" and e: "emit_n rq crc clock n s = (s', rs)"
  shows "length rs = n \<and> (\<forall>i < n. scheduled rq crc s i (rs ! i)) \<and> sender_inv rq data s' \<and> same_session s s' \<and>
    position_of s' = n - descriptors_before n \<and> sn_frame_index s' = of_nat n \<and> sn_descriptor_interval s' = 17"
proof -
  have "id_at (sn_meta s) p \<noteq> None" if "p < n - descriptors_before n" for p
    using that n sender_inv_plan [OF assms(2)] id_at_defined [of "sn_meta s" p] by simp
  with emit_n_scheduled [OF assms(1-7) _ _ e] n show ?thesis by simp
qed

lemma schedule_covers:
  assumes "plan_ok (m_blocks (sn_meta s))" "length rs = n" "\<forall>i < n. scheduled rq crc s i (rs ! i)"
    and "sum_symbols (m_blocks (sn_meta s)) \<le> n - descriptors_before n"
    and "unat sbn < length (m_blocks (sn_meta s))"
      "unat esi < unat (b_num_source_symbols (m_blocks (sn_meta s) ! unat sbn))"
  shows "\<exists>f. Inr f \<in> set rs \<and> is_data f \<and> data_id f = (sbn, esi)"
proof -
  let ?plan = "build_source_plan (sn_meta s)"
  have "(sbn, esi) \<in> set ?plan" using assms(5,6) by (simp add: source_plan_set [OF assms(1)])
  then obtain p where p: "p < length ?plan" "?plan ! p = (sbn, esi)" by (auto simp: in_set_conv_nth)
  then have "p < n - descriptors_before n" using assms(4) source_plan_length [OF assms(1)] by simp
  from data_call_exists [OF this] obtain i where i: "i < n" "i mod 17 \<noteq> 0" "i - descriptors_before i = p" by blast
  with assms(3) obtain f where f: "rs ! i = Inr f" "is_data f" "id_at (sn_meta s) p = Some (data_id f)"
    by (auto simp: scheduled_def)
  then have "data_id f = (sbn, esi)" using p by (simp add: id_at_def)
  moreover have "Inr f \<in> set rs" using f(1) i(1) assms(2) nth_mem by metis
  ultimately show ?thesis using f(2) by blast
qed

text \<open>
  C19: a fresh session answers every one of its first \<open>n\<close> calls with a valid frame, up to more
  than sixteen million of them: calls 0, 17, 34 and so on give descriptors, every other call the next
  unsent symbol, and once \<open>n\<close> covers the plan every source symbol of every block has been sent.
\<close>

theorem sender_schedule:
  assumes "upstream_ok rq" "sender_new rq payload sid cfg fm = Inr s"
    and "length (pad_to_symbols payload (sc_codec cfg)) \<le> 33554432"
    and "n \<le> 16720813" "emit_n rq crc clock n s = (s', rs)"
  shows "length rs = n \<and> (\<forall>i < n. scheduled rq crc s i (rs ! i)) \<and>
    (sum_symbols (m_blocks (sn_meta s)) \<le> n - descriptors_before n \<longrightarrow>
       (\<forall>sbn esi. unat sbn < length (m_blocks (sn_meta s)) \<and>
          unat esi < unat (b_num_source_symbols (m_blocks (sn_meta s) ! unat sbn)) \<longrightarrow>
          (\<exists>f. Inr f \<in> set rs \<and> is_data f \<and> data_id f = (sbn, esi))))"
proof -
  note new = sender_new_inv [OF assms(1-3)]
  note sch = emit_n_schedule [OF assms(1) new(1,2) assms(3) new(4,5,7) assms(4,5)]
  from sch have len: "length rs = n" and all: "\<forall>i < n. scheduled rq crc s i (rs ! i)" by simp_all
  have ok: "plan_ok (m_blocks (sn_meta s))" using sender_inv_plan [OF new(1)] by simp
  show ?thesis using len all schedule_covers [OF ok len all] by blast
qed

end
