(* ===== verification/Sender_Exhaust.thy ===== *)
theory Sender_Exhaust
  imports Sender
begin

text \<open>
  Every session ends.  \<open>next_symbol_id\<close> of \<open>core/transfer-engine/src/sender.rs\<close> gives each encoding
  id once and an id has 24 bits, so the fresh repair phase stops at the first block, in
  round-robin order, whose ids are used up.  This theory computes that point, shows that a
  session answers every call before it and none after it, and bounds every run by it.
\<close>

section \<open>Where the repair phase stops\<close>

text \<open>
  The repair cursor with offset \<open>o\<close> in block \<open>i\<close> is \<open>o * n + i\<close>, and the block has
  \<open>2 ^ 24 - K\<close> repair ids: the phase stops at the least cursor whose offset is that number.
\<close>

definition repair_limit :: "source_block_meta list \<Rightarrow> nat" where
  "repair_limit bs =
     foldr min (map (\<lambda>i. (16777216 - unat (b_num_source_symbols (bs ! i))) * length bs + i) [0..<length bs])
       (16777216 * length bs)"

definition session_limit :: "object_meta \<Rightarrow> nat" where
  "session_limit meta = sum_symbols (m_blocks meta) + repair_limit (m_blocks meta)"

text \<open>The call that takes data position \<open>p\<close>: every seventeenth call gives a descriptor.\<close>

definition call_of :: "nat \<Rightarrow> nat" where
  "call_of p = p + p div 16 + 1"

lemma foldr_min_less: "(c :: nat) < foldr min xs a \<longleftrightarrow> c < a \<and> (\<forall>x \<in> set xs. c < x)"
  by (induction xs) auto

lemma foldr_min_in: "foldr min xs (a :: nat) = a \<or> foldr min xs a \<in> set xs"
  by (induction xs) (auto simp: min_def)

lemma repair_defined:
  assumes "plan_ok bs" "bs \<noteq> []" "c < 2 ^ 64"
  shows "repair_symbol_id bs (of_nat c) \<noteq> None \<longleftrightarrow>
    unat (b_num_source_symbols (bs ! (c mod length bs))) + c div length bs < 16777216"
proof -
  let ?i = "c mod length bs" and ?e = "unat (b_num_source_symbols (bs ! (c mod length bs))) + c div length bs"
  have c: "unat (of_nat c :: u64) = c" using assms(3) by (intro unat_of_nat_len) simp
  have "?i < length bs" "length bs \<le> 255" using assms by (simp_all add: plan_ok_def)
  then have i: "?i < 2 ^ 32" by simp
  have "repair_symbol_id bs (of_nat c) \<noteq> None \<longleftrightarrow> (\<exists>sbn esi. repair_symbol_id bs (of_nat c) = Some (sbn, esi))"
    by (cases "repair_symbol_id bs (of_nat c)") auto
  also have "\<dots> \<longleftrightarrow> (\<exists>(sbn :: u32) (esi :: u32). unat sbn = ?i \<and> unat esi = ?e \<and> unat esi < 16777216)"
    unfolding repair_symbol_id_Some [OF assms(1,2)] c by (rule refl)
  also have "\<dots> \<longleftrightarrow> ?e < 16777216"
  proof
    assume e: "?e < 16777216"
    then have "unat (of_nat ?i :: u32) = ?i" "unat (of_nat ?e :: u32) = ?e"
      using i by (simp_all add: unat_of_nat_len del: of_nat_add)
    then show "\<exists>(sbn :: u32) (esi :: u32). unat sbn = ?i \<and> unat esi = ?e \<and> unat esi < 16777216"
      using e by (intro exI [of _ "of_nat ?i"] exI [of _ "of_nat ?e"]) simp
  qed auto
  finally show ?thesis .
qed

lemma below_limit: "0 < n \<Longrightarrow> c < q * n + c mod n \<longleftrightarrow> c div n < (q :: nat)"
  using div_mult_mod_eq [of c n] mult_less_cancel2 [of "c div n" n q] by linarith

lemma repair_limit_le:
  assumes "plan_ok bs" "bs \<noteq> []"
  shows "repair_limit bs < 16777216 * length bs"
proof -
  let ?K = "unat (b_num_source_symbols (bs ! 0))"
  have K: "0 < ?K" and n: "0 < length bs" using assms by (auto simp: plan_ok_def)
  then have "(16777216 - ?K) * length bs < 16777216 * length bs" by simp
  moreover have "\<not> (16777216 - ?K) * length bs < repair_limit bs"
    using n by (auto simp: repair_limit_def foldr_min_less intro!: bexI [of _ 0])
  ultimately show ?thesis by linarith
qed

lemma repair_before_limit:
  assumes "plan_ok bs" "bs \<noteq> []" "c < repair_limit bs"
  shows "repair_symbol_id bs (of_nat c) \<noteq> None"
proof -
  have n: "0 < length bs" "length bs \<le> 255" using assms by (auto simp: plan_ok_def)
  then have "repair_limit bs < 16777216 * 255"
    using repair_limit_le [OF assms(1,2)] by (meson less_le_trans mult_le_mono2)
  then have c: "c < 2 ^ 64" using assms(3) by simp
  let ?i = "c mod length bs"
  have "?i < length bs" using n by simp
  then have "c < (16777216 - unat (b_num_source_symbols (bs ! ?i))) * length bs + ?i"
    using assms(3) by (simp add: repair_limit_def foldr_min_less)
  then have "c div length bs < 16777216 - unat (b_num_source_symbols (bs ! ?i))"
    using below_limit [OF n(1)] by blast
  then show ?thesis unfolding repair_defined [OF assms(1,2) c] by linarith
qed

lemma repair_at_limit:
  assumes "plan_ok bs" "bs \<noteq> []"
  shows "repair_symbol_id bs (of_nat (repair_limit bs)) = None"
proof -
  have n: "0 < length bs" "length bs \<le> 255" using assms by (auto simp: plan_ok_def)
  have lt: "repair_limit bs < 16777216 * length bs" by (rule repair_limit_le [OF assms])
  then have c: "repair_limit bs < 2 ^ 64" using n(2) by simp
  obtain i where i: "i < length bs"
    "repair_limit bs = (16777216 - unat (b_num_source_symbols (bs ! i))) * length bs + i"
    using foldr_min_in [of "map (\<lambda>i. (16777216 - unat (b_num_source_symbols (bs ! i))) * length bs + i)
        [0..<length bs]" "16777216 * length bs"] lt
    by (auto simp: repair_limit_def)
  then have "repair_limit bs mod length bs = i"
    "repair_limit bs div length bs = 16777216 - unat (b_num_source_symbols (bs ! i))" using assms(2) by simp_all
  then have "\<not> unat (b_num_source_symbols (bs ! (repair_limit bs mod length bs))) + repair_limit bs div length bs < 16777216"
    by simp
  then show ?thesis using repair_defined [OF assms c] by blast
qed

lemma id_at_limit:
  assumes ok: "plan_ok (m_blocks meta)" "m_blocks meta \<noteq> []"
  shows "p < session_limit meta \<Longrightarrow> id_at meta p \<noteq> None" "id_at meta (session_limit meta) = None"
    "session_limit meta < sum_symbols (m_blocks meta) + 16777216 * length (m_blocks meta)"
proof -
  let ?L = "length (build_source_plan meta)"
  have L: "?L = sum_symbols (m_blocks meta)" by (rule source_plan_length [OF ok(1)])
  note lt = repair_limit_le [OF ok]
  have n: "length (m_blocks meta) \<le> 255" using ok(1) by (simp add: plan_ok_def)
  show "id_at meta p \<noteq> None" if "p < session_limit meta"
  proof (cases "p < ?L")
    case True
    then show ?thesis by (simp add: id_at_def)
  next
    case False
    then have "p - ?L < repair_limit (m_blocks meta)" using that by (simp add: session_limit_def L)
    moreover from this have "p - ?L < 2 ^ 64 - 1" using lt n by simp
    ultimately show ?thesis
      using False repair_before_limit [OF ok] by (simp add: id_at_def Let_def del: of_nat_diff)
  qed
  show "id_at meta (session_limit meta) = None"
    using repair_at_limit [OF ok] by (simp add: id_at_def Let_def session_limit_def L)
  show "session_limit meta < sum_symbols (m_blocks meta) + 16777216 * length (m_blocks meta)"
    using lt by (simp add: session_limit_def)
qed

section \<open>The last call that is answered\<close>

lemma call_of_simps:
  "call_of p - descriptors_before (call_of p) = p" "call_of p mod 17 \<noteq> 0"
  "Suc (call_of p) - descriptors_before (Suc (call_of p)) = Suc p" "descriptors_before (call_of p) \<le> call_of p"
proof -
  have c: "call_of p = 17 * (p div 16) + (p mod 16 + 1)" and p: "p = 16 * (p div 16) + p mod 16"
    by (simp_all add: call_of_def)
  have "p mod 16 < 16" by simp
  then have r: "p mod 16 + 1 < 17" by linarith
  then have m: "call_of p mod 17 = p mod 16 + 1" "call_of p div 17 = p div 16" by (simp_all only: c) simp_all
  then show "call_of p mod 17 \<noteq> 0" by simp
  then show d: "call_of p - descriptors_before (call_of p) = p" using c p m by (simp add: descriptors_before_def)
  show le: "descriptors_before (call_of p) \<le> call_of p" by (rule descriptors_before_le)
  show "Suc (call_of p) - descriptors_before (Suc (call_of p)) = Suc p"
    using d le \<open>call_of p mod 17 \<noteq> 0\<close> by (simp add: descriptors_before_Suc Suc_diff_le)
qed

text \<open>A session whose position has no id and that owes no descriptor stays as it is.\<close>

lemma exhausted_stays:
  assumes "upstream_ok rq" "sender_inv rq data s" "digests_ok s" "length data \<le> 33554432"
    and "id_at (sn_meta s) (position_of s) = None" "\<not> descriptor_due s"
    and nf: "next_frame rq crc clock s = (s', r)"
  shows "r = Inl SymbolIdSpaceExhausted \<and> sender_inv rq data s' \<and> same_session s s' \<and>
    position_of s' = position_of s \<and> descriptor_due s' = descriptor_due s"
proof -
  note N = next_frame_step [OF assms(1-4) nf]
  obtain e where r: "r = Inl e" using N assms(5,6) by (cases r) (auto split: if_splits)
  then show ?thesis using N next_frame_interval [OF nf] by (simp add: descriptor_due_def)
qed

lemma emit_n_length: "emit_n rq crc clock n s = (s', rs) \<Longrightarrow> length rs = n"
  by (induction n arbitrary: s' rs) (auto split: prod.splits)

text \<open>Earlier calls do not depend on how many follow.\<close>

lemma emit_n_prefix:
  "emit_n rq crc clock (m + k) s = (s', rs) \<Longrightarrow> snd (emit_n rq crc clock m s) = take m rs"
proof (induction k arbitrary: s' rs)
  case 0
  then show ?case using emit_n_length [of rq crc clock m s s' rs] by simp
next
  case (Suc k)
  obtain s2 rs2 where e: "emit_n rq crc clock (m + k) s = (s2, rs2)" by (cases "emit_n rq crc clock (m + k) s")
  with Suc.prems have "take m rs = take m rs2"
    using emit_n_length [OF e] by (auto split: prod.splits)
  with Suc.IH [OF e] show ?case by simp
qed

section \<open>Every session ends\<close>

lemma limit_small:
  assumes "sender_inv rq data s"
  shows "call_of (session_limit (sn_meta s)) < 5000000000"
proof -
  have ok: "plan_ok (m_blocks (sn_meta s))" "m_blocks (sn_meta s) \<noteq> []" using sender_inv_plan [OF assms] by auto
  have "sum_symbols (m_blocks (sn_meta s)) \<le> 524288" "length (m_blocks (sn_meta s)) \<le> 255"
    using assms ok by (auto simp: sender_inv_def sender_static_def meta_ok_def plan_ok_def)
  then have l: "session_limit (sn_meta s) < 4278714368" using id_at_limit(3) [OF ok] by linarith
  have "session_limit (sn_meta s) div 16 \<le> session_limit (sn_meta s) div 16 * 16 div 16" by simp
  with l show ?thesis unfolding call_of_def by linarith
qed

lemma emit_n_exhausted:
  assumes up: "upstream_ok rq" and inv: "sender_inv rq data s" and dg: "digests_ok s" and len: "length data \<le> 33554432"
    and fresh: "position_of s = 0" "sn_frame_index s = 0" "sn_descriptor_interval s = 17"
  defines "N \<equiv> call_of (session_limit (sn_meta s))"
  shows "emit_n rq crc clock (N + k) s = (s', rs) \<Longrightarrow>
    (\<forall>i < N. scheduled rq crc s i (rs ! i)) \<and> (\<forall>i < k. rs ! (N + i) = Inl SymbolIdSpaceExhausted) \<and>
    sender_inv rq data s' \<and> same_session s s' \<and> position_of s' = session_limit (sn_meta s) \<and> \<not> descriptor_due s'"
proof (induction k arbitrary: s' rs)
  case 0
  have ok: "plan_ok (m_blocks (sn_meta s))" "m_blocks (sn_meta s) \<noteq> []" using sender_inv_plan [OF inv] by auto
  have N: "N < 2 ^ 64" "N - descriptors_before N = session_limit (sn_meta s)" "N mod 17 \<noteq> 0"
    using limit_small [OF inv] call_of_simps [of "session_limit (sn_meta s)"] by (simp_all add: N_def)
  have "id_at (sn_meta s) p \<noteq> None" if "p < N - descriptors_before N" for p
    using id_at_limit(1) [OF ok] that N(2) by simp
  with emit_n_scheduled [OF up inv dg len fresh N(1) _, of crc clock s' rs] 0
  have S: "\<forall>i < N. scheduled rq crc s i (rs ! i)" "sender_inv rq data s'" "same_session s s'"
    "position_of s' = session_limit (sn_meta s)" "sn_frame_index s' = of_nat N" "sn_descriptor_interval s' = 17"
    by (simp_all add: N(2))
  with interval_due [OF S(5,6) N(1)] N(3) show ?case by simp
next
  case (Suc k)
  obtain s1 rs1 where e: "emit_n rq crc clock (N + k) s = (s1, rs1)" by (cases "emit_n rq crc clock (N + k) s")
  obtain r where nf: "next_frame rq crc (clock (N + k)) s1 = (s', r)" "rs = rs1 @ [r]"
    using Suc.prems e by (auto split: prod.splits)
  note IH = Suc.IH [OF e]
  have meta: "sn_meta s1 = sn_meta s" and dg1: "digests_ok s1"
    using IH dg same_session_digests [of s s1] by (auto simp: same_session_def)
  have ok: "plan_ok (m_blocks (sn_meta s))" "m_blocks (sn_meta s) \<noteq> []" using sender_inv_plan [OF inv] by auto
  have "id_at (sn_meta s1) (position_of s1) = None" using IH id_at_limit(2) [OF ok] by (simp add: meta)
  with exhausted_stays [OF up _ dg1 len _ _ nf(1)] IH
  have X: "r = Inl SymbolIdSpaceExhausted" "sender_inv rq data s'" "same_session s1 s'"
    "position_of s' = position_of s1" "\<not> descriptor_due s'" by auto
  have l: "length rs1 = N + k" by (rule emit_n_length [OF e])
  then have "(\<forall>i < N. scheduled rq crc s i (rs ! i)) \<and> (\<forall>i < Suc k. rs ! (N + i) = Inl SymbolIdSpaceExhausted)"
    using IH X(1) by (auto simp: nf(2) nth_append less_Suc_eq)
  then show ?case using IH X same_session_trans by metis
qed

text \<open>No run of a session, whatever the host does, takes a position past the limit.\<close>

lemma run_below_limit:
  assumes "sender_run rq crc s fs s'" "upstream_ok rq" "sender_inv rq data s" "digests_ok s"
    "length data \<le> 33554432" "position_of s \<le> session_limit (sn_meta s)"
  shows "position_of s' \<le> session_limit (sn_meta s)"
  using assms
proof (induction rule: sender_run.induct)
  case (run_emit clock s s1 f fs s2)
  note N = next_frame_step [OF run_emit.prems(1-4) run_emit.hyps(1)]
  have ok: "plan_ok (m_blocks (sn_meta s))" "m_blocks (sn_meta s) \<noteq> []"
    using sender_inv_plan [OF run_emit.prems(2)] by auto
  have "position_of s1 \<le> session_limit (sn_meta s)"
    using N run_emit.prems(5) id_at_limit(2) [OF ok]
    by (cases "position_of s = session_limit (sn_meta s)") (auto split: if_splits)
  moreover have "sn_meta s1 = sn_meta s" "digests_ok s1" "sender_inv rq data s1"
    using N run_emit.prems(3) same_session_digests [of s s1] by (auto simp: same_session_def)
  ultimately show ?case using run_emit.IH run_emit.prems by simp
next
  case (run_fail clock s s1 e fs s2)
  note N = next_frame_step [OF run_fail.prems(1-4) run_fail.hyps(1)]
  then have "sn_meta s1 = sn_meta s" "digests_ok s1" "sender_inv rq data s1" "position_of s1 = position_of s"
    using run_fail.prems(3) same_session_digests [of s s1] by (auto simp: same_session_def)
  then show ?case using run_fail.IH run_fail.prems by simp
next
  case (run_interval s i fs s2)
  have "sn_meta (set_descriptor_interval s i) = sn_meta s" by (simp add: set_descriptor_interval_def)
  then show ?case using run_interval.IH run_interval.prems set_interval_inv(1) [of rq data s i] set_interval_inv(2,3) [of s i] by simp
qed simp

lemma run_data_count:
  assumes "sender_run rq crc s fs s'" "upstream_ok rq" "sender_inv rq data s" "digests_ok s"
    "length data \<le> 33554432"
  shows "length (filter is_data fs) \<le> position_of s' - position_of s"
proof -
  from sender_run_positions [OF assms] obtain ps where ps: "sorted_wrt (<) ps"
    "\<forall>p \<in> set ps. position_of s \<le> p \<and> p < position_of s'"
    "map (\<lambda>p. id_at (sn_meta s) p) ps = map (\<lambda>f. Some (data_id f)) (filter is_data fs)" by blast
  have "length (filter is_data fs) = length ps" using arg_cong [OF ps(3), of length] by simp
  also have "\<dots> = card (set ps)" using ps(1) by (simp add: strict_sorted_iff distinct_card)
  also have "\<dots> \<le> card {position_of s..<position_of s'}" using ps(2) by (intro card_mono) auto
  finally show ?thesis by simp
qed

text \<open>
  C18: every session ends.  A fresh session answers exactly its first \<open>N\<close> calls, with the frames of the
  schedule; the next call finds no id left, and from then on every call fails with
  \<open>SymbolIdSpaceExhausted\<close>: the frame index stands still, so no descriptor comes due any more.  There are fewer than five thousand million answered calls,
  and however a host uses the session and changes the interval, it gets at most
  \<open>session_limit\<close> data frames.
\<close>

theorem sender_exhausts:
  assumes "upstream_ok rq" "sender_new rq payload sid cfg fm = Inr s"
    and "length (pad_to_symbols payload (sc_codec cfg)) \<le> 33554432"
  defines "N \<equiv> call_of (session_limit (sn_meta s))"
  shows "N < 5000000000 \<and>
    (\<forall>k s' rs. emit_n rq crc clock (N + k) s = (s', rs) \<longrightarrow>
       (\<forall>i < N. scheduled rq crc s i (rs ! i)) \<and> (\<forall>i < k. rs ! (N + i) = Inl SymbolIdSpaceExhausted)) \<and>
    (\<forall>fs s'. sender_run rq crc s fs s' \<longrightarrow> length (filter is_data fs) \<le> session_limit (sn_meta s))"
proof (intro conjI allI impI)
  note new = sender_new_inv [OF assms(1-3)]
  note E = emit_n_exhausted [OF assms(1) new(1,2) assms(3) new(4,5,7), folded N_def]
  show "N < 5000000000" unfolding N_def by (rule limit_small [OF new(1)])
  fix k s' rs i
  assume e: "emit_n rq crc clock (N + k) s = (s', rs)"
  show "i < N \<Longrightarrow> scheduled rq crc s i (rs ! i)" "i < k \<Longrightarrow> rs ! (N + i) = Inl SymbolIdSpaceExhausted"
    using E [OF e] by simp_all
next
  note new = sender_new_inv [OF assms(1-3)]
  fix fs s'
  assume run: "sender_run rq crc s fs s'"
  have "position_of s' \<le> session_limit (sn_meta s)"
    using run_below_limit [OF run assms(1) new(1,2) assms(3)] new(4) by simp
  with run_data_count [OF run assms(1) new(1,2) assms(3)] show "length (filter is_data fs) \<le> session_limit (sn_meta s)"
    by linarith
qed

end
