(* ===== verification/Sender_Demo.thy ===== *)
theory Sender_Demo
  imports Sender_Exhaust Reference_Codec
begin

text \<open>
  A concrete session over the reference codec, and the witnesses of the sender's properties:
  three bytes sent in one 72-byte symbol under a descriptor that holds one block.
\<close>

definition sent_packet :: bytes where "sent_packet = [1, 2, 3] @ replicate 69 0"

definition sent_config :: sender_config where
  "sent_config = \<lparr>sc_codec = \<lparr>cfg_symbol_size = 72\<rparr>, sc_redundancy_pct = 25\<rparr>"

definition sent_encoder :: "ref_enc encoder" where
  "sent_encoder = \<lparr>enc_config = \<lparr>cfg_symbol_size = 72\<rparr>, enc_meta = demo_desc_meta,
     enc_blocks = [\<lparr>cb_encoder = ([72], sent_packet), cb_source_packets = [sent_packet]\<rparr>]\<rparr>"

definition sent_oti :: oti where
  "sent_oti = \<lparr>oti_transfer_length = 72, oti_symbol_size = 72, oti_source_blocks = 1,
     oti_sub_blocks = 1, oti_symbol_alignment = 8\<rparr>"

definition demo_sender :: "ref_enc sender" where
  "demo_sender = \<lparr>sn_config = sent_config, sn_session_id = 7, sn_encoder = sent_encoder, sn_meta = demo_desc_meta,
     sn_file_meta = demo_file, sn_segment_meta = None, sn_total_k = 1, sn_source_plan = [(0, 0)],
     sn_source_cursor = 0, sn_repair_cursor = 0, sn_frame_index = 0, sn_descriptor_interval = 17,
     sn_started = False, sn_start_ms = 0, sn_stats = stats_default\<rparr>"

lemma ref_upstream: "upstream_ok ref_rq"
  by (simp add: upstream_ok_def ref_encode_contract ref_repair_contract ref_decode_contract)

lemma length_sent_packet [simp]: "length sent_packet = 72"
  by (simp add: sent_packet_def)

lemma sent_packet_nonempty: "sent_packet \<noteq> []"
  by (simp add: sent_packet_def)

lemma sent_padded: "pad_to_symbols [1, 2, 3] \<lparr>cfg_symbol_size = 72\<rparr> = sent_packet"
  by (simp add: pad_to_symbols_def sent_packet_def)

lemma sent_encode: "ref_encode sent_packet 76 = (sent_oti, [([72], sent_packet)])"
proof -
  have "ref_packets 72 sent_packet = [sent_packet]" by (simp add: ref_packets_def sent_packet_def)
  then show ?thesis using single_packet [of sent_packet 72] by (simp add: ref_encode_def sent_oti_def Let_def)
qed

lemma sent_source: "ref_source ([72], sent_packet) = [sent_packet]"
  by (rule single_packet) simp_all

lemma sent_encoder_new: "encoder_new ref_rq sent_packet \<lparr>cfg_symbol_size = 72\<rparr> = Inr sent_encoder"
proof -
  have c: "config_new 72 = Inr \<lparr>cfg_symbol_size = 72\<rparr>" "config_mtu \<lparr>cfg_symbol_size = 72\<rparr> = Inr 76"
    by (simp_all add: config_new_def config_mtu_def MIN_SYMBOL_SIZE_def MAX_SYMBOL_SIZE_def
        PAYLOAD_ID_SIZE_def checked_add_def try_from_def)
  have "ref_serialize sent_oti = [0, 0, 0, 0, 72, 0, 0, 72, 1, 0, 1, 8]"
    by (simp add: ref_serialize_def sent_oti_def be_bytes_numeral)
  then show ?thesis
    using sent_packet_nonempty
    by (simp add: encoder_new_def c sent_encode sent_source ref_rq_def from_encoder_def
        source_block_meta_of_def sent_encoder_def demo_desc_meta_def)
qed

lemma demo_sender_new: "sender_new ref_rq [1, 2, 3] 7 sent_config demo_file = Inr demo_sender"
proof -
  obtain p where "build_payload_inner demo_desc_meta demo_file None = Inr p" by (rule demo_payload)
  moreover have "build_source_plan demo_desc_meta = [(0, 0)]"
    by (simp add: build_source_plan_def max_k_def demo_desc_meta_def)
  moreover have "total_symbols demo_desc_meta = 1"
    by (simp add: total_symbols_def demo_desc_meta_def)
  ultimately show ?thesis
    by (simp add: sender_new_def sender_new_inner_def sender_config_validate_def sent_config_def sent_padded
        sent_encoder_new Let_def demo_sender_def) (simp add: sent_encoder_def)
qed

lemma sent_len: "length (pad_to_symbols [1, 2, 3] (sc_codec sent_config)) \<le> 33554432"
  by (simp add: sent_config_def sent_padded)

lemma sent_meta_ok: "meta_ok ref_rq demo_desc_meta"
  using encoder_meta_ok [OF ref_encode_contract sent_encoder_new] by (simp add: sent_encoder_def)

lemma source_plan_exact_witness:
  "set (build_source_plan demo_desc_meta) = {(sbn, esi). unat sbn < 1 \<and> unat esi < 1} \<and>
   distinct (build_source_plan demo_desc_meta)"
proof -
  have "{(sbn :: u32, esi :: u32). unat sbn < length (m_blocks demo_desc_meta) \<and>
      unat esi < unat (b_num_source_symbols (m_blocks demo_desc_meta ! unat sbn))} =
    {(sbn, esi). unat sbn < 1 \<and> unat esi < 1}"
    by (auto simp: demo_desc_meta_def)
  with source_plan_exact [OF sent_meta_ok] show ?thesis by simp
qed

lemma repair_ids_exact_witness:
  "{p. \<exists>c. repair_symbol_id (m_blocks demo_desc_meta) c = Some p} =
     {(sbn, esi). unat sbn < 1 \<and> 1 \<le> unat esi \<and> unat esi < 16777216}"
proof -
  have "{(sbn :: u32, esi :: u32). unat sbn < length (m_blocks demo_desc_meta) \<and>
      unat (b_num_source_symbols (m_blocks demo_desc_meta ! unat sbn)) \<le> unat esi \<and> unat esi < 16777216} =
    {(sbn, esi). unat sbn < 1 \<and> 1 \<le> unat esi \<and> unat esi < 16777216}"
    by (auto simp: demo_desc_meta_def)
  with repair_ids_exact [OF sent_meta_ok] show ?thesis by simp
qed

lemma sender_schedule_witness:
  "\<exists>s' rs. emit_n ref_rq (\<lambda>_. 5) (\<lambda>_. (1, 2, 3)) 2 demo_sender = (s', rs) \<and>
     length rs = 2 \<and> (\<exists>f. Inr f \<in> set rs \<and> is_data f \<and> data_id f = (0, 0))"
proof -
  obtain s' rs where e: "emit_n ref_rq (\<lambda>_. 5) (\<lambda>_. (1, 2, 3)) 2 demo_sender = (s', rs)"
    by (cases "emit_n ref_rq (\<lambda>_. 5) (\<lambda>_. (1, 2, 3)) 2 demo_sender")
  have b: "m_blocks (sn_meta demo_sender) = [\<lparr>b_sbn = 0, b_num_source_symbols = 1, b_block_length = 72\<rparr>]"
    by (simp add: demo_sender_def demo_desc_meta_def)
  have "sum_symbols (m_blocks (sn_meta demo_sender)) \<le> 2 - descriptors_before 2"
    by (simp add: b descriptors_before_def)
  with sender_schedule [OF ref_upstream demo_sender_new sent_len _ e] show ?thesis
    using e by (auto simp: b)
qed

lemma sender_never_repeats_witness:
  "\<exists>s' f. sender_run ref_rq (\<lambda>_. 5) demo_sender [f] s' \<and> sent_frame ref_rq (\<lambda>_. 5) demo_sender f"
proof -
  obtain s1 r where nf: "next_frame ref_rq (\<lambda>_. 5) (1, 2, 3) demo_sender = (s1, r)"
    by (cases "next_frame ref_rq (\<lambda>_. 5) (1, 2, 3) demo_sender")
  note new = sender_new_inv [OF ref_upstream demo_sender_new sent_len]
  have "id_at (sn_meta demo_sender) (position_of demo_sender) \<noteq> None"
    using sender_inv_plan [OF new(1)] by (intro id_at_defined) (auto simp: new)
  with next_frame_step [OF ref_upstream new(1,2) sent_len nf] obtain f where "r = Inr f" by (cases r) auto
  with nf have "sender_run ref_rq (\<lambda>_. 5) demo_sender [f] s1"
    using run_emit [OF _ run_done] by metis
  with sender_never_repeats [OF ref_upstream demo_sender_new sent_len this] show ?thesis by auto
qed

lemma demo_limit: "session_limit (sn_meta demo_sender) = 16777216"
proof -
  have "m_blocks (sn_meta demo_sender) = [\<lparr>b_sbn = 0, b_num_source_symbols = 1, b_block_length = 72\<rparr>]"
    by (simp add: demo_sender_def demo_desc_meta_def)
  then show ?thesis by (simp add: session_limit_def repair_limit_def)
qed

text \<open>A session of one source symbol answers 17825793 calls; the next one fails.\<close>

lemma sender_exhausts_witness:
  "\<exists>s' rs. emit_n ref_rq (\<lambda>_. 5) (\<lambda>_. (1, 2, 3)) 17825794 demo_sender = (s', rs) \<and>
     scheduled ref_rq (\<lambda>_. 5) demo_sender 17825792 (rs ! 17825792) \<and> rs ! 17825793 = Inl SymbolIdSpaceExhausted"
proof -
  obtain s' rs where e: "emit_n ref_rq (\<lambda>_. 5) (\<lambda>_. (1, 2, 3)) (17825793 + 1) demo_sender = (s', rs)"
    by (cases "emit_n ref_rq (\<lambda>_. 5) (\<lambda>_. (1, 2, 3)) (17825793 + 1) demo_sender")
  have N: "call_of (session_limit (sn_meta demo_sender)) = 17825793" by (simp add: demo_limit call_of_def)
  from sender_exhausts [OF ref_upstream demo_sender_new sent_len, unfolded N] e
  have "\<forall>i < 17825793. scheduled ref_rq (\<lambda>_. 5) demo_sender i (rs ! i)"
    "\<forall>i < 1. rs ! (17825793 + i) = Inl SymbolIdSpaceExhausted" by blast+
  then have "scheduled ref_rq (\<lambda>_. 5) demo_sender 17825792 (rs ! 17825792)" "rs ! 17825793 = Inl SymbolIdSpaceExhausted"
    by auto
  then show ?thesis using e by auto
qed

end
