(* ===== verification/Resume.thy ===== *)
theory Resume
  imports Object_Meta
begin

text \<open>
  Checkpoints, \<open>core/transfer-engine/src/resume.rs\<close>: the state a receiver can persist and the
  validation that \<open>restore\<close> runs before anything is allocated.  The text form is in
  \<open>Resume_Text\<close>.  Validation is shown equivalent to a specification on natural
  numbers.
\<close>

record resume_state =
  re_session_id :: u128
  re_meta :: object_meta
  re_received :: "u32 set list"
  re_symbols :: "(u32 \<times> u32 \<times> bytes) list"

text \<open>The two loops: the claimed encoding ids, and the stored symbols.\<close>

fun check_received :: "u64 \<Rightarrow> u64 \<Rightarrow> u32 set list \<Rightarrow> (unit, string) result" where
  "check_received max_records count [] = Inr ()"
| "check_received max_records count (s # ss) =
     (case checked_add count (of_nat (card s)) of
        None \<Rightarrow> Inl ''resume received count overflow''
      | Some count' \<Rightarrow>
          if max_records < count' \<or> (\<exists>esi \<in> s. push_bit 24 1 \<le> esi)
          then Inl ''received ESI set exceeds resume budget''
          else check_received max_records count' ss)"

fun check_symbols ::
  "object_meta \<Rightarrow> u64 \<Rightarrow> u64 \<Rightarrow> (u32 \<times> u32 \<times> bytes) list \<Rightarrow> (unit, string) result" where
  "check_symbols meta max_bytes acc [] = Inr ()"
| "check_symbols meta max_bytes acc ((sbn, esi, data) # rest) =
     (if length (m_blocks meta) \<le> unat sbn \<or> push_bit 24 1 \<le> esi
      then Inl ''stored resume symbol coordinate out of range''
      else if length data \<noteq> unat (m_symbol_size meta)
      then Inl ''stored resume symbol has wrong size''
      else case checked_add acc (of_nat (length data)) of
        None \<Rightarrow> Inl ''resume symbol byte count overflow''
      | Some acc' \<Rightarrow>
          if max_bytes < acc' then Inl ''stored resume symbols exceed byte budget''
          else check_symbols meta max_bytes acc' rest)"

definition resume_validate :: "('e, 'd) raptorq \<Rightarrow> resume_state \<Rightarrow> (unit, string) result" where
  "resume_validate rq st =
     bind_result (meta_validate rq (re_meta st)) (\<lambda>_.
     if length (m_blocks (re_meta st)) < length (re_received st)
     then Inl ''too many received block sets''
     else
     bind_result (ok_or ''resume symbol-count budget overflow'' (checked_mul MAX_TOTAL_SOURCE_SYMBOLS 2))
       (\<lambda>max_records.
     bind_result (check_received max_records 0 (re_received st)) (\<lambda>_.
     if max_records < of_nat (length (re_symbols st)) then Inl ''too many stored resume symbols''
     else
     bind_result (ok_or ''resume padding budget overflow''
         (checked_mul (ucast (m_symbol_size (re_meta st)) :: u64) (of_nat (length (m_blocks (re_meta st))))))
       (\<lambda>padding.
     bind_result (ok_or ''resume byte budget overflow''
         (Option.bind (checked_mul MAX_OBJECT_BYTES 2) (\<lambda>v. checked_add v padding)))
       (\<lambda>max_bytes. check_symbols (re_meta st) max_bytes 0 (re_symbols st))))))"

section \<open>What validation guarantees\<close>

definition symbol_record_ok :: "object_meta \<Rightarrow> u32 \<times> u32 \<times> bytes \<Rightarrow> bool" where
  "symbol_record_ok meta r \<longleftrightarrow> (case r of (sbn, esi, data) \<Rightarrow>
     unat sbn < length (m_blocks meta) \<and> unat esi < 16777216 \<and> length data = unat (m_symbol_size meta))"

definition stored_bytes :: "(u32 \<times> u32 \<times> bytes) list \<Rightarrow> nat" where
  "stored_bytes rs = sum_list (map (\<lambda>(_, _, data). length data) rs)"

definition resume_ok :: "('e, 'd) raptorq \<Rightarrow> resume_state \<Rightarrow> bool" where
  "resume_ok rq st \<longleftrightarrow>
     meta_ok rq (re_meta st) \<and> length (re_received st) \<le> length (m_blocks (re_meta st)) \<and>
     sum_list (map card (re_received st)) \<le> 1048576 \<and>
     (\<forall>s \<in> set (re_received st). \<forall>esi \<in> s. unat esi < 16777216) \<and>
     length (re_symbols st) \<le> 1048576 \<and>
     (\<forall>r \<in> set (re_symbols st). symbol_record_ok (re_meta st) r) \<and>
     stored_bytes (re_symbols st) \<le> 67108864 + unat (m_symbol_size (re_meta st)) * length (m_blocks (re_meta st))"

lemma card_u32: "card (s :: u32 set) \<le> 4294967296"
  using card_mono [of UNIV s] by (simp add: card_word)

lemma check_received_Inr:
  "check_received m c ss = Inr () \<longleftrightarrow>
     (ss = [] \<or> unat c + sum_list (map card ss) \<le> unat m) \<and> (\<forall>s \<in> set ss. \<forall>esi \<in> s. unat esi < 16777216)"
proof (induction ss arbitrary: c)
  case (Cons s ss)
  have card: "unat (of_nat (card s) :: u64) = card s"
    using card_u32 [of s] by (intro unat_of_nat_len) simp
  have m: "unat m < 2 ^ 64" using unat_lt [of m] by simp
  show ?case
  proof (cases "checked_add c (of_nat (card s) :: u64)")
    case None
    then have "\<not> unat c + card s < 2 ^ 64" by (simp add: checked_simps card)
    with m None show ?thesis by auto
  next
    case (Some c')
    then have c': "unat c' = unat c + card s" by (simp add: checked_simps card)
    have "check_received m c (s # ss) = Inr () \<longleftrightarrow>
        unat c' \<le> unat m \<and> (\<forall>esi \<in> s. unat esi < 16777216) \<and> check_received m c' ss = Inr ()"
      using Some by (auto simp: word_less_nat_alt word_le_nat_alt not_le [symmetric])
    also have "\<dots> \<longleftrightarrow> unat c + sum_list (map card (s # ss)) \<le> unat m \<and>
        (\<forall>s \<in> set (s # ss). \<forall>esi \<in> s. unat esi < 16777216)"
      unfolding Cons.IH using c' by auto
    finally show ?thesis by simp
  qed
qed simp

lemma check_symbols_Inr:
  "check_symbols meta m t rs = Inr () \<longleftrightarrow>
     (\<forall>r \<in> set rs. symbol_record_ok meta r) \<and> (rs = [] \<or> unat t + stored_bytes rs \<le> unat m)"
proof (induction rs arbitrary: t)
  case (Cons r rs)
  obtain sbn esi data where r: "r = (sbn, esi, data)" by (cases r)
  have m: "unat m < 2 ^ 64" using unat_lt [of m] by simp
  show ?case
  proof (cases "symbol_record_ok meta r")
    case False
    then show ?thesis by (auto simp: r symbol_record_ok_def word_le_nat_alt)
  next
    case True
    then have len: "length data = unat (m_symbol_size meta)" by (simp add: r symbol_record_ok_def)
    then have w: "unat (of_nat (length data) :: u64) = length data"
      using unat_lt [of "m_symbol_size meta"] by (intro unat_of_nat_len) simp
    show ?thesis
    proof (cases "checked_add t (of_nat (length data) :: u64)")
      case None
      then have "\<not> unat t + length data < 2 ^ 64" by (simp add: checked_simps w)
      with m None True show ?thesis by (auto simp: r stored_bytes_def)
    next
      case (Some t')
      then have t': "unat t' = unat t + length data" by (simp add: checked_simps w)
      have "check_symbols meta m t (r # rs) = Inr () \<longleftrightarrow>
          unat t' \<le> unat m \<and> check_symbols meta m t' rs = Inr ()"
        using Some True by (auto simp: r symbol_record_ok_def word_less_nat_alt word_le_nat_alt)
      also have "\<dots> \<longleftrightarrow> (\<forall>r \<in> set (r # rs). symbol_record_ok meta r) \<and>
          unat t + stored_bytes (r # rs) \<le> unat m"
        unfolding Cons.IH using t' True by (auto simp: r stored_bytes_def)
      finally show ?thesis by simp
    qed
  qed
qed simp

lemma resume_validate_iff:
  assumes "length (re_symbols st) < 2 ^ 64"
  shows "resume_validate rq st = Inr () \<longleftrightarrow> resume_ok rq st"
proof (cases "meta_ok rq (re_meta st)")
  case False
  then have "meta_validate rq (re_meta st) \<noteq> Inr ()" by (simp add: meta_validate_iff)
  with False show ?thesis by (auto simp: resume_validate_def resume_ok_def)
next
  case True
  let ?T = "m_symbol_size (re_meta st)" and ?n = "length (m_blocks (re_meta st))"
  from True have n: "?n \<le> 255" and T: "unat ?T \<le> 65528" by (auto simp: meta_ok_def)
  then have "unat ?T * ?n \<le> 65528 * 255" by (intro mult_mono) auto
  moreover have "unat (of_nat ?n :: u64) = ?n" using n by (intro unat_of_nat_len) simp
  moreover obtain padding where pad: "padding = (ucast ?T :: u64) * of_nat ?n" by blast
  ultimately have pad1: "checked_mul (ucast ?T :: u64) (of_nat ?n) = Some padding" "unat padding = unat ?T * ?n"
    by (auto simp: checked_mul_def unat_word_ariths)
  obtain mb where mb: "mb = 67108864 + padding" by blast
  with pad1 \<open>unat ?T * ?n \<le> _\<close> have mb1: "checked_add (67108864 :: u64) padding = Some mb"
    "unat mb = 67108864 + unat ?T * ?n"
    by (auto simp: checked_add_def unat_word_ariths)
  have c: "checked_mul MAX_TOTAL_SOURCE_SYMBOLS 2 = Some (1048576 :: u64)"
    "checked_mul MAX_OBJECT_BYTES 2 = Some (67108864 :: u64)"
    by (simp_all add: checked_mul_def MAX_TOTAL_SOURCE_SYMBOLS_def MAX_OBJECT_BYTES_def)
  have l: "unat (of_nat (length (re_symbols st)) :: u64) = length (re_symbols st)"
    using assms by (intro unat_of_nat_len) simp
  have "meta_validate rq (re_meta st) = Inr ()" using True by (simp add: meta_validate_iff)
  then have "resume_validate rq st = Inr () \<longleftrightarrow>
      length (re_received st) \<le> ?n \<and> check_received 1048576 0 (re_received st) = Inr () \<and>
      length (re_symbols st) \<le> 1048576 \<and> check_symbols (re_meta st) mb 0 (re_symbols st) = Inr ()"
    by (auto simp: resume_validate_def c pad1(1) mb1(1) word_less_nat_alt l not_less)
  also have "\<dots> \<longleftrightarrow> resume_ok rq st"
    using True by (auto simp: check_received_Inr check_symbols_Inr mb1(2) resume_ok_def stored_bytes_def)
  finally show ?thesis .
qed

text \<open>
  A checkpoint validates exactly when its metadata passes the gate, it claims at most
  \<open>2 * 524288\<close> ids, all of 24 bits, for at most the object's blocks, and it stores at most as many
  symbols, each at a coordinate of the object, of the symbol size, and within
  twice the object limit and one symbol per block in all; no counter can overflow.
\<close>

lemma resume_validate_exact:
  assumes "length (re_symbols st) < 2 ^ 64"
  shows "resume_validate rq st = Inr () \<longleftrightarrow> resume_ok rq st"
  using assms by (rule resume_validate_iff)

end
