(* ===== verification/Receiver.thy ===== *)
theory Receiver
  imports Descriptor Progress Raptor_Codec Resume
begin

text \<open>
  The receiver session, \<open>core/transfer-engine/src/receiver.rs\<close>: bootstrap, \<open>ingest\<close> with its
  descriptor, cache and decoder paths, assembly, and checkpoints.  Mutation is a returned
  session, also next to an error.  A \<open>HashSet<u32>\<close> is a set; the bootstrap \<open>HashMap\<close> is an
  association list with distinct keys, and the order in which the code iterates over it is a
  parameter \<open>ord\<close>.  \<open>usize\<close> has 64 bits.
\<close>

type_synonym usize = u64

section \<open>State\<close>

definition PRE_META_SYMBOL_CACHE_MAX :: nat where "PRE_META_SYMBOL_CACHE_MAX = 12000"
definition PRE_META_CACHE_BYTES_BUDGET :: u64 where "PRE_META_CACHE_BYTES_BUDGET = MAX_OBJECT_BYTES"
definition PRE_META_CACHE_BYTES_PER_ENTRY :: nat where "PRE_META_CACHE_BYTES_PER_ENTRY = 64"

definition pre_meta_cache_max :: "u32 \<Rightarrow> nat" where
  "pre_meta_cache_max pending_symbol_size =
     (if pending_symbol_size = 0 then PRE_META_SYMBOL_CACHE_MAX
      else let budget_bytes = unat PRE_META_CACHE_BYTES_BUDGET;
               per_entry = max (unat pending_symbol_size) PRE_META_CACHE_BYTES_PER_ENTRY
           in budget_bytes div per_entry + (if 0 < budget_bytes mod per_entry then 1 else 0))"

type_synonym symbol_cache = "((u32 \<times> u32) \<times> bytes) list"

record 'd receiver =
  rx_session_id :: u128
  rx_meta :: "object_meta option"
  rx_decoder :: "'d decoder option"
  rx_meta_confirmed :: bool
  rx_descriptor_seen :: bool
  rx_file_meta :: file_meta
  rx_segment_meta :: "segment_meta option"
  rx_received :: "u32 set list"
  rx_source_recv :: "u32 list"
  rx_symbol_cache :: symbol_cache
  rx_progress :: progress
  rx_session_mismatch_streak :: u32
  rx_pending_symbol_size :: u32
  rx_last_assemble_error :: "string option"

text \<open>The sum of the symbol counts: \<open>sum()\<close> of 32-bit values wraps in a release build.\<close>

definition receiver_build ::
  "u128 \<Rightarrow> object_meta option \<Rightarrow> 'd decoder option \<Rightarrow> bool \<Rightarrow> 'd receiver" where
  "receiver_build session_id meta dec confirmed =
     \<lparr>rx_session_id = session_id, rx_meta = meta, rx_decoder = dec, rx_meta_confirmed = confirmed,
      rx_descriptor_seen = False, rx_file_meta = file_meta_default, rx_segment_meta = None,
      rx_received = (case meta of None \<Rightarrow> [] | Some m \<Rightarrow> map (\<lambda>_. {}) (m_blocks m)),
      rx_source_recv = (case meta of None \<Rightarrow> [] | Some m \<Rightarrow> replicate (length (m_blocks m)) 0),
      rx_symbol_cache = [],
      rx_progress = progress_default
        \<lparr>pg_total_symbols := (case meta of None \<Rightarrow> 0 | Some m \<Rightarrow> total_symbols m),
         pg_total_blocks := (case meta of None \<Rightarrow> 0 | Some m \<Rightarrow> of_nat (length (m_blocks m)))\<rparr>,
      rx_session_mismatch_streak = 0,
      rx_pending_symbol_size = (case meta of None \<Rightarrow> 0 | Some m \<Rightarrow> m_symbol_size m),
      rx_last_assemble_error = None\<rparr>"

definition new_confirmed ::
  "('e, 'd) raptorq \<Rightarrow> u128 \<Rightarrow> object_meta \<Rightarrow> ('d receiver, te_error) result" where
  "new_confirmed rq session_id meta =
     bind_result (map_err Raptorq (decoder_new rq meta))
       (\<lambda>dec. Inr (receiver_build session_id (Some meta) (Some dec) True))"

definition receiver_new ::
  "('e, 'd) raptorq \<Rightarrow> u128 \<Rightarrow> object_meta \<Rightarrow> ('d receiver, te_error) result" where
  "receiver_new rq session_id meta = new_confirmed rq session_id meta"

definition from_first_frame :: "frame \<Rightarrow> 'd receiver" where
  "from_first_frame f = receiver_build (fh_session_id (fr_header f)) None None False"

definition new_pending :: "u128 \<Rightarrow> 'd receiver" where
  "new_pending session_id = receiver_build session_id None None False"

definition receiver_is_complete :: "'d receiver \<Rightarrow> bool" where
  "receiver_is_complete s =
     (case rx_decoder s of None \<Rightarrow> False | Some dec \<Rightarrow> decoder_is_complete dec)"

section \<open>Counters\<close>

abbreviation upd_progress :: "(progress \<Rightarrow> progress) \<Rightarrow> 'd receiver \<Rightarrow> 'd receiver" where
  "upd_progress g s \<equiv> s\<lparr>rx_progress := g (rx_progress s)\<rparr>"

definition count_corrupt :: "'d receiver \<Rightarrow> 'd receiver" where
  "count_corrupt s = upd_progress (\<lambda>p. p\<lparr>pg_frames_corrupt := pg_frames_corrupt p + 1\<rparr>) s"

definition count_duplicate :: "'d receiver \<Rightarrow> 'd receiver" where
  "count_duplicate s = upd_progress (\<lambda>p. p\<lparr>pg_frames_duplicate := pg_frames_duplicate p + 1\<rparr>) s"

text \<open>What block \<open>i\<close> adds to the decoded-symbol and decoded-block counts.\<close>

definition decoded_of_block ::
  "'d decoder \<Rightarrow> u32 list \<Rightarrow> nat \<Rightarrow> source_block_meta \<Rightarrow> u32 \<times> u32" where
  "decoded_of_block dec source_recv i b =
     (if block_progress dec (b_sbn b) \<noteq> None then (b_num_source_symbols b, 1)
      else (min (source_recv ! i) (b_num_source_symbols b), 0))"

definition decoded_counts :: "object_meta \<Rightarrow> 'd decoder \<Rightarrow> u32 list \<Rightarrow> u32 \<times> u32" where
  "decoded_counts meta dec source_recv =
     (let parts = map (\<lambda>(i, b). decoded_of_block dec source_recv i b)
                    (zip [0..<length (m_blocks meta)] (m_blocks meta))
      in (sum_list (map fst parts), sum_list (map snd parts)))"

definition refresh_decoded_counts :: "'d receiver \<Rightarrow> 'd receiver" where
  "refresh_decoded_counts s =
     (case (rx_meta s, rx_decoder s) of
        (Some meta, Some dec) \<Rightarrow>
          upd_progress (\<lambda>p. p\<lparr>pg_decoded_symbols := fst (decoded_counts meta dec (rx_source_recv s)),
                             pg_decoded_blocks := snd (decoded_counts meta dec (rx_source_recv s))\<rparr>) s
      | _ \<Rightarrow> s)"

text \<open>Note a symbol of block \<open>bi\<close> as received, with the count of source symbols kept in step.\<close>

definition mark_received :: "object_meta \<Rightarrow> nat \<Rightarrow> u32 \<Rightarrow> 'd receiver \<Rightarrow> 'd receiver" where
  "mark_received meta bi esi s =
     s\<lparr>rx_received := (rx_received s)[bi := insert esi (rx_received s ! bi)],
       rx_source_recv :=
         (if esi < b_num_source_symbols (m_blocks meta ! bi)
          then (rx_source_recv s)[bi := rx_source_recv s ! bi + 1] else rx_source_recv s)\<rparr>"

section \<open>Adopting the descriptor\<close>

text \<open>
  The replay of the bootstrap cache into the fresh decoder.  An error of the decoder would end
  it with the state reached so far.
\<close>

fun replay_cache ::
  "('e, 'd) raptorq \<Rightarrow> object_meta \<Rightarrow> symbol_cache \<Rightarrow> 'd receiver \<Rightarrow> 'd receiver \<times> (unit, te_error) result" where
  "replay_cache rq meta [] s = (s, Inr ())"
| "replay_cache rq meta (((sbn, esi), data) # rest) s =
     (let bi = unat sbn in
      if length (rx_received s) \<le> bi \<or> push_bit 24 1 \<le> esi \<or> length data \<noteq> unat (m_symbol_size meta)
      then replay_cache rq meta rest (count_corrupt s)
      else case (case rx_decoder s of
                   None \<Rightarrow> Inr s
                 | Some dec \<Rightarrow> bind_result (add_symbol rq dec (symbol_new sbn esi data))
                     (\<lambda>(dec', _). Inr (s\<lparr>rx_decoder := Some dec'\<rparr>))) of
             Inl e \<Rightarrow> (s, Inl (Raptorq e))
           | Inr s1 \<Rightarrow>
               replay_cache rq meta rest
                 (if esi \<in> rx_received s1 ! bi then s1 else mark_received meta bi esi s1))"

definition reset_for_meta :: "object_meta \<Rightarrow> 'd decoder \<Rightarrow> 'd receiver \<Rightarrow> 'd receiver" where
  "reset_for_meta meta dec s =
     s\<lparr>rx_symbol_cache := [], rx_meta := Some meta, rx_pending_symbol_size := m_symbol_size meta,
       rx_progress := (rx_progress s)\<lparr>pg_total_symbols := total_symbols meta,
         pg_total_blocks := of_nat (length (m_blocks meta))\<rparr>,
       rx_received := map (\<lambda>_. {}) (m_blocks meta),
       rx_source_recv := replicate (length (m_blocks meta)) 0,
       rx_decoder := Some dec\<rparr>"

definition apply_meta ::
  "('e, 'd) raptorq \<Rightarrow> (symbol_cache \<Rightarrow> symbol_cache) \<Rightarrow> object_meta \<Rightarrow> 'd receiver \<Rightarrow>
   'd receiver \<times> (unit, te_error) result" where
  "apply_meta rq ord meta s =
     (case decoder_new rq meta of
        Inl e \<Rightarrow> (s, Inl (Raptorq e))
      | Inr dec \<Rightarrow>
          (case replay_cache rq meta (ord (rx_symbol_cache s)) (reset_for_meta meta dec s) of
             (s2, Inl e) \<Rightarrow> (s2, Inl e)
           | (s2, Inr _) \<Rightarrow>
               (refresh_decoded_counts
                  (upd_progress (\<lambda>p. p\<lparr>pg_received_symbols :=
                       sum_list (map (\<lambda>r. of_nat (card r)) (rx_received s2))\<rparr>) s2), Inr ())))"

text \<open>The gate a parsed descriptor has to pass; the order of its tests is not observable.\<close>

definition checked_total :: "source_block_meta list \<Rightarrow> u32 option" where
  "checked_total blocks =
     foldl (\<lambda>acc b. Option.bind acc (\<lambda>k. checked_add k (b_num_source_symbols b))) (Some 0) blocks"

definition frame_geometry_invalid :: "frame \<Rightarrow> object_meta \<Rightarrow> bool" where
  "frame_geometry_invalid f meta \<longleftrightarrow>
     fh_symbol_size (fr_header f) \<noteq> m_symbol_size meta \<or>
     fh_total_blocks (fr_header f) \<noteq> of_nat (length (m_blocks meta)) \<or>
     checked_total (m_blocks meta) \<noteq> Some (fh_total_symbols (fr_header f))"

definition file_meta_invalid :: "descriptor_info \<Rightarrow> bool" where
  "file_meta_invalid info \<longleftrightarrow> (let fm = di_file_meta info in
     \<not> is_known_compression_tag (fm_compression fm) \<or>
     (di_segment info = None \<and> MAX_ORIGINAL_BYTES < fm_original_size fm) \<or>
     (fm_compressed_size_known fm \<and> m_transfer_length (di_meta info) < fm_compressed_size fm) \<or>
     (di_segment info = None \<and> fm_compression fm \<noteq> COMPRESSION_NONE \<and> fm_original_size fm = 0))"

definition segment_invalid :: "frame \<Rightarrow> descriptor_info \<Rightarrow> bool" where
  "segment_invalid f info \<longleftrightarrow>
     (case di_segment info of None \<Rightarrow> False
      | Some seg \<Rightarrow> \<not> is_ok (segment_validate seg (fh_session_id (fr_header f)) (di_file_meta info)))"

definition descriptor_rejected :: "('e, 'd) raptorq \<Rightarrow> frame \<Rightarrow> descriptor_info \<Rightarrow> bool" where
  "descriptor_rejected rq f info \<longleftrightarrow>
     \<not> is_ok (meta_validate rq (di_meta info)) \<or> frame_geometry_invalid f (di_meta info) \<or>
     file_meta_invalid info \<or> segment_invalid f info"

section \<open>Ingest\<close>

definition adopt_descriptor :: "descriptor_info \<Rightarrow> 'd receiver \<Rightarrow> 'd receiver" where
  "adopt_descriptor info s =
     s\<lparr>rx_meta_confirmed := True, rx_descriptor_seen := True, rx_symbol_cache := [],
       rx_file_meta := di_file_meta info, rx_segment_meta := di_segment info\<rparr>"

definition finish :: "'d receiver \<Rightarrow> 'd receiver \<times> (bool, te_error) result" where
  "finish s = (s, Inr (receiver_is_complete s))"

definition ingest_descriptor ::
  "('e, 'd) raptorq \<Rightarrow> (symbol_cache \<Rightarrow> symbol_cache) \<Rightarrow> frame \<Rightarrow> 'd receiver \<Rightarrow>
   'd receiver \<times> (bool, te_error) result" where
  "ingest_descriptor rq ord f s =
     (case parse_payload (fr_payload f) of
        None \<Rightarrow> finish (count_corrupt s)
      | Some info \<Rightarrow>
          if descriptor_rejected rq f info then finish (count_corrupt s)
          else if rx_descriptor_seen s then
            finish (if rx_meta s \<noteq> Some (di_meta info) \<or> rx_file_meta s \<noteq> di_file_meta info
                       \<or> rx_segment_meta s \<noteq> di_segment info
                    then count_corrupt s else s)
          else case rx_meta s of
            None \<Rightarrow>
              (case apply_meta rq ord (di_meta info) s of
                 (s2, Inl e) \<Rightarrow> (s2, Inl e)
               | (s2, Inr _) \<Rightarrow> finish (adopt_descriptor info s2))
          | Some cur \<Rightarrow>
              if cur \<noteq> di_meta info then finish (count_corrupt s)
              else finish (adopt_descriptor info s))"

definition ingest_pending :: "frame \<Rightarrow> 'd receiver \<Rightarrow> 'd receiver \<times> (bool, te_error) result" where
  "ingest_pending f s0 =
     (let h = fr_header f;
          s = s0\<lparr>rx_pending_symbol_size := fh_symbol_size h\<rparr>;
          key = (fh_sbn h, fh_esi h);
          s2 = (if map_of (rx_symbol_cache s) key \<noteq> None then count_duplicate s
                else if pre_meta_cache_max (fh_symbol_size h) \<le> length (rx_symbol_cache s)
                then count_corrupt s
                else s\<lparr>rx_symbol_cache := rx_symbol_cache s @ [(key, fr_payload f)]\<rparr>)
      in (upd_progress (\<lambda>p. p\<lparr>pg_received_symbols := of_nat (length (rx_symbol_cache s2)),
                              pg_decoded_symbols := 0\<rparr>) s2, Inr False))"

definition ingest_symbol ::
  "('e, 'd) raptorq \<Rightarrow> frame \<Rightarrow> 'd receiver \<Rightarrow> 'd receiver \<times> (bool, te_error) result" where
  "ingest_symbol rq f s =
     (let sbn = unat (fh_sbn (fr_header f)); esi = fh_esi (fr_header f);
          sym_size = (case rx_meta s of None \<Rightarrow> 0 | Some m \<Rightarrow> m_symbol_size m)
      in
      if length (rx_received s) \<le> sbn then finish (count_corrupt s)
      else if push_bit 24 1 \<le> esi \<or> of_nat (length (fr_payload f)) \<noteq> sym_size
      then finish (count_corrupt s)
      else if receiver_is_complete s then (count_duplicate s, Inr True)
      else if esi \<in> rx_received s ! sbn then finish (count_duplicate s)
      else
        let s1 = s\<lparr>rx_received := (rx_received s)[sbn := insert esi (rx_received s ! sbn)]\<rparr>;
            s2 = upd_progress (\<lambda>p. p\<lparr>pg_received_symbols := pg_received_symbols p + 1\<rparr>) s1;
            s3 = (case rx_meta s2 of
                    None \<Rightarrow> s2
                  | Some meta \<Rightarrow>
                      if esi < b_num_source_symbols (m_blocks meta ! sbn)
                      then s2\<lparr>rx_source_recv := (rx_source_recv s2)[sbn := rx_source_recv s2 ! sbn + 1]\<rparr>
                      else s2)
        in case (case rx_decoder s3 of
                   None \<Rightarrow> Inr s3
                 | Some dec \<Rightarrow> bind_result (add_symbol rq dec (symbol_new (of_nat sbn) esi (fr_payload f)))
                     (\<lambda>(dec', _). Inr (s3\<lparr>rx_decoder := Some dec'\<rparr>))) of
             Inl e \<Rightarrow> (s3, Inl (Raptorq e))
           | Inr s4 \<Rightarrow> finish (refresh_decoded_counts s4))"

text \<open>Clear the mismatch streak and count the frame.\<close>

definition begin_frame :: "'d receiver \<Rightarrow> 'd receiver" where
  "begin_frame s =
     s\<lparr>rx_session_mismatch_streak := 0,
       rx_progress := (rx_progress s)\<lparr>pg_session_mismatch_streak := 0,
         pg_frames_seen := pg_frames_seen (rx_progress s) + 1\<rparr>\<rparr>"

definition ingest ::
  "('e, 'd) raptorq \<Rightarrow> (symbol_cache \<Rightarrow> symbol_cache) \<Rightarrow> frame \<Rightarrow> 'd receiver \<Rightarrow>
   'd receiver \<times> (bool, te_error) result" where
  "ingest rq ord f s0 =
     (if fh_session_id (fr_header f) \<noteq> rx_session_id s0 then
        (let streak = rx_session_mismatch_streak s0 + 1 in
         (s0\<lparr>rx_session_mismatch_streak := streak,
             rx_progress := (rx_progress s0)\<lparr>pg_session_mismatch_streak := streak\<rparr>\<rparr>,
          Inl (SessionMismatch (rx_session_id s0) (fh_session_id (fr_header f)))))
      else let s = begin_frame s0 in
        if fh_flags (fr_header f) AND FLAG_DESCRIPTOR \<noteq> 0 then ingest_descriptor rq ord f s
        else if \<not> rx_meta_confirmed s then ingest_pending f s
        else ingest_symbol rq f s)"

section \<open>Assembly\<close>

text \<open>The \<open>Display\<close> text of a protocol error, and the messages of \<open>assemble_result\<close>.\<close>

definition hex_digit :: "nat \<Rightarrow> char" where
  "hex_digit n = char_of (if n < 10 then 48 + n else 55 + n)"

definition show_hex4 :: "u16 \<Rightarrow> string" where
  "show_hex4 w = map (\<lambda>i. hex_digit (unat w div 16 ^ i mod 16)) [3, 2, 1, 0]"

fun show_qr_error :: "qr_error \<Rightarrow> string" where
  "show_qr_error (BufferTooShort n h) =
     ''buffer too short: need '' @ show_nat n @ '' bytes, have '' @ show_nat h"
| "show_qr_error (BadMagic e g) = ''bad magic: expected 0x'' @ show_hex4 e @ '', got 0x'' @ show_hex4 g"
| "show_qr_error (BadVersion v) = ''unsupported protocol version '' @ show_nat (unat v)"
| "show_qr_error FrameCrcMismatch = ''frame CRC mismatch''"
| "show_qr_error PayloadCrcMismatch = ''payload CRC mismatch''"
| "show_qr_error (BadSymbolSize n) = ''unsupported symbol size '' @ show_nat (unat n)"
| "show_qr_error (LengthMismatch e a) =
     ''frame length mismatch: expected '' @ show_nat e @ '' bytes, got '' @ show_nat a"
| "show_qr_error (CompressError m) = ''compression error: '' @ m"

definition assemble_raw :: "'d receiver \<Rightarrow> bytes option" where
  "assemble_raw s = Option.bind (rx_decoder s) decoder_assemble"

text \<open>A failure with a recorded message, and a failure before anything is recorded.\<close>

definition assemble_fail :: "string \<Rightarrow> 'd receiver \<Rightarrow> 'd receiver \<times> (bytes option, te_error) result" where
  "assemble_fail msg s = (s\<lparr>rx_last_assemble_error := Some msg\<rparr>, Inl (TeCompress msg))"

definition assemble_ok :: "bytes option \<Rightarrow> 'd receiver \<Rightarrow> 'd receiver \<times> (bytes option, te_error) result" where
  "assemble_ok v s = (s\<lparr>rx_last_assemble_error := None\<rparr>, Inr v)"

definition trim_payload :: "file_meta \<Rightarrow> bytes \<Rightarrow> (bytes, bool \<times> string) result" where
  "trim_payload fm raw =
     (if fm_compressed_size_known fm then
        (case (try_from (fm_compressed_size fm) :: usize option) of
           None \<Rightarrow> Inl (False, ''descriptor compressed_size does not fit this platform'')
         | Some len \<Rightarrow>
             if unat len \<le> length raw then Inr (take (unat len) raw)
             else Inl (True, ''descriptor compressed_size ('' @ show_nat (unat len) @
                    '') exceeds recovered payload ('' @ show_nat (length raw) @ '')''))
      else Inr raw)"

definition decompress_cap :: "file_meta \<Rightarrow> (nat, bool \<times> string) result" where
  "decompress_cap fm =
     (if 0 < fm_original_size fm then
        (case (try_from (fm_original_size fm) :: usize option) of
           None \<Rightarrow> Inl (False, ''descriptor original_size does not fit this platform'')
         | Some expected \<Rightarrow>
             if unat MAX_ORIGINAL_BYTES < unat expected
             then Inl (True, ''descriptor original_size exceeds receiver limit'')
             else Inr (unat expected))
      else Inr (unat MAX_ORIGINAL_BYTES))"

text \<open>The flag of an error says whether the session records its message.\<close>

definition assemble_error ::
  "bool \<times> string \<Rightarrow> 'd receiver \<Rightarrow> 'd receiver \<times> (bytes option, te_error) result" where
  "assemble_error e s = (if fst e then assemble_fail (snd e) s else (s, Inl (TeCompress (snd e))))"

definition assemble_result ::
  "codecs \<Rightarrow> 'd receiver \<Rightarrow> 'd receiver \<times> (bytes option, te_error) result" where
  "assemble_result cx s =
     (case assemble_raw s of
        None \<Rightarrow> assemble_ok None s
      | Some padded \<Rightarrow>
          (case trim_payload (rx_file_meta s) padded of
             Inl e \<Rightarrow> assemble_error e s
           | Inr raw \<Rightarrow>
               if fm_compression (rx_file_meta s) = COMPRESSION_NONE then assemble_ok (Some raw) s
               else (case decompress_cap (rx_file_meta s) of
                  Inl e \<Rightarrow> assemble_error e s
                | Inr cap \<Rightarrow>
                    (case decompress_with_limit cx raw (fm_compression (rx_file_meta s)) cap of
                       Inl e \<Rightarrow> assemble_fail (show_qr_error e) s
                     | Inr v \<Rightarrow>
                         if 0 < fm_original_size (rx_file_meta s)
                            \<and> of_nat (length v) \<noteq> fm_original_size (rx_file_meta s)
                         then assemble_fail (''decompressed size mismatch: expected '' @
                                show_nat (unat (fm_original_size (rx_file_meta s))) @ '', got '' @
                                show_nat (length v)) s
                         else assemble_ok (Some v) s))))"

definition receiver_assemble :: "codecs \<Rightarrow> 'd receiver \<Rightarrow> 'd receiver \<times> bytes option" where
  "receiver_assemble cx s =
     (case assemble_result cx s of (s', Inr v) \<Rightarrow> (s', v) | (s', Inl _) \<Rightarrow> (s', None))"

definition receiver_progress :: "'d receiver \<Rightarrow> progress" where
  "receiver_progress s = (rx_progress s)
     \<lparr>pg_meta_confirmed := rx_meta_confirmed s, pg_symbol_size := rx_pending_symbol_size s\<rparr>"

section \<open>Checkpoints\<close>

definition save_state ::
  "(symbol_cache \<Rightarrow> symbol_cache) \<Rightarrow> 'd receiver \<Rightarrow> resume_state option" where
  "save_state ord s =
     Option.bind (rx_meta s) (\<lambda>meta.
       let symbols = map (\<lambda>((sbn, esi), data). (sbn, esi, data)) (ord (rx_symbol_cache s));
           claim = (\<lambda>received (sbn, esi, _).
             if unat sbn < length received
             then received[unat sbn := insert esi (received ! unat sbn)] else received)
       in Some \<lparr>re_session_id = rx_session_id s, re_meta = meta,
                re_received = foldl claim (replicate (length (m_blocks meta)) {}) symbols,
                re_symbols = symbols\<rparr>)"

text \<open>One stored symbol; an error of the decoder is dropped, together with its effect.\<close>

definition restore_symbol ::
  "('e, 'd) raptorq \<Rightarrow> 'd receiver \<Rightarrow> u32 \<times> u32 \<times> bytes \<Rightarrow> 'd receiver" where
  "restore_symbol rq s r = (case r of (sbn, esi, data) \<Rightarrow>
     let bi = unat sbn in
     if bi < length (rx_received s) \<and> esi < push_bit 24 1
        \<and> of_nat (length data) = rx_pending_symbol_size s \<and> esi \<notin> rx_received s ! bi
     then
       let s1 = (case rx_meta s of
                   None \<Rightarrow> s\<lparr>rx_received := (rx_received s)[bi := insert esi (rx_received s ! bi)]\<rparr>
                 | Some meta \<Rightarrow> mark_received meta bi esi s)
       in (case rx_decoder s1 of
             None \<Rightarrow> s1
           | Some dec \<Rightarrow>
               (case add_symbol rq dec (symbol_new sbn esi data) of
                  Inl _ \<Rightarrow> s1
                | Inr (dec', _) \<Rightarrow> s1\<lparr>rx_decoder := Some dec'\<rparr>))
     else s)"

definition restore :: "('e, 'd) raptorq \<Rightarrow> resume_state \<Rightarrow> ('d receiver, te_error) result" where
  "restore rq st =
     bind_result (map_err InvalidResume (resume_validate rq st)) (\<lambda>_.
     bind_result (new_confirmed rq (re_session_id st) (re_meta st)) (\<lambda>rx.
       let rx1 = foldl (restore_symbol rq) rx (re_symbols st)
       in Inr (refresh_decoded_counts
            (upd_progress (\<lambda>p. p\<lparr>pg_received_symbols :=
                 sum_list (map (\<lambda>r. of_nat (card r)) (rx_received rx1))\<rparr>) rx1))))"

end
