(* ===== verification/Receiver_Inv.thy ===== *)
theory Receiver_Inv
  imports Receiver "HOL-Library.Multiset"
begin

text \<open>
  The invariant of a receiver session, kept by every frame.  The invariant names the log of the
  session: the symbols handed to the decoder, in order.  Everything the session shows
  (received ids, counters, completeness, the assembled object) is a function of that log.
\<close>

section \<open>The log of a session\<close>

text \<open>A symbol the checks before the decoder let through.\<close>

definition fits :: "object_meta \<Rightarrow> symbol \<Rightarrow> bool" where
  "fits meta x \<longleftrightarrow> unat (sid_sbn (sym_id x)) < length (m_blocks meta) \<and>
     unat (sid_esi (sym_id x)) < 16777216 \<and> length (sym_data x) = unat (m_symbol_size meta)"

definition received_in :: "symbol list \<Rightarrow> nat \<Rightarrow> u32 set" where
  "received_in ss i = (\<lambda>x. sid_esi (sym_id x)) ` {x \<in> set ss. unat (sid_sbn (sym_id x)) = i}"

definition source_in :: "object_meta \<Rightarrow> symbol list \<Rightarrow> nat \<Rightarrow> u32 set" where
  "source_in meta ss i = {e \<in> received_in ss i. e < b_num_source_symbols (m_blocks meta ! i)}"

definition rx_core ::
  "('e, 'd) raptorq \<Rightarrow> object_meta \<Rightarrow> 'd decoder \<Rightarrow> symbol list \<Rightarrow> 'd receiver \<Rightarrow> bool" where
  "rx_core rq meta dec0 ss s \<longleftrightarrow>
     decoder_new rq meta = Inr dec0 \<and> rx_meta s = Some meta \<and>
     rx_decoder s = Some (foldl (feed rq) dec0 ss) \<and>
     rx_received s = map (received_in ss) [0..<length (m_blocks meta)] \<and>
     rx_source_recv s = map (\<lambda>i. of_nat (card (source_in meta ss i))) [0..<length (m_blocks meta)] \<and>
     distinct (map sym_id ss) \<and> (\<forall>x \<in> set ss. fits meta x) \<and>
     pg_total_symbols (rx_progress s) = total_symbols meta \<and>
     pg_total_blocks (rx_progress s) = of_nat (length (m_blocks meta)) \<and>
     rx_pending_symbol_size s = m_symbol_size meta"

lemma map_upt_update: "i < n \<Longrightarrow> (map f [0..<n])[i := y] = map (f(i := y)) [0..<n]"
  by (rule nth_equalityI) (auto simp: nth_list_update)

lemma received_in_Nil [simp]: "received_in [] = (\<lambda>_. {})"
  by (simp add: received_in_def fun_eq_iff)

lemma source_in_Nil [simp]: "source_in meta [] i = {}"
  by (simp add: source_in_def)

lemma received_in_snoc [simp]:
  "received_in (ss @ [x]) i =
     (if unat (sid_sbn (sym_id x)) = i then insert (sid_esi (sym_id x)) (received_in ss i) else received_in ss i)"
  by (auto simp: received_in_def)

lemma symbol_new_id: "symbol_new (sid_sbn (sym_id x)) (sid_esi (sym_id x)) (sym_data x) = x"
  by (simp add: symbol_new_def)

lemma sym_id_eq: "sym_id x = sym_id y \<longleftrightarrow> sid_sbn (sym_id x) = sid_sbn (sym_id y) \<and> sid_esi (sym_id x) = sid_esi (sym_id y)"
  by (cases "sym_id x"; cases "sym_id y") auto

lemma in_received_in:
  "sid_esi (sym_id x) \<in> received_in ss (unat (sid_sbn (sym_id x))) \<longleftrightarrow> sym_id x \<in> sym_id ` set ss"
  by (auto simp: received_in_def image_iff sym_id_eq word_unat_eq_iff [symmetric]) metis+

lemma decoder_new_length:
  "decoder_new rq meta = Inr dec0 \<Longrightarrow> length (dec_blocks dec0) = length (m_blocks meta) \<and> dec_meta dec0 = meta"
  by (auto simp: decoder_new_Inr)

lemma add_symbol_fits:
  assumes "unat (sid_sbn (sym_id x)) < length (dec_blocks dec)"
  obtains b where "add_symbol rq dec x = Inr (feed rq dec x, b)"
proof -
  obtain r where "add_symbol rq dec x = Inr r"
    using assms by (cases "add_symbol rq dec x") (auto simp: add_symbol_def Let_def split: if_splits option.splits prod.splits)
  then show thesis using that by (cases r) (auto simp: feed_def)
qed

text \<open>One more symbol.\<close>

lemma rx_core_add:
  assumes core: "rx_core rq meta dec0 ss s" and x: "fits meta x" "sym_id x \<notin> sym_id ` set ss"
  shows "rx_core rq meta dec0 (ss @ [x])
    ((mark_received meta (unat (sid_sbn (sym_id x))) (sid_esi (sym_id x)) s)
      \<lparr>rx_decoder := Some (feed rq (foldl (feed rq) dec0 ss) x)\<rparr>)"
proof -
  let ?n = "length (m_blocks meta)" and ?i = "unat (sid_sbn (sym_id x))" and ?e = "sid_esi (sym_id x)"
  have i: "?i < ?n" using x by (simp add: fits_def)
  have new: "?e \<notin> received_in ss ?i" using x(2) by (simp add: in_received_in)
  have r: "(rx_received s)[?i := insert ?e (rx_received s ! ?i)] = map (received_in (ss @ [x])) [0..<?n]"
    using core i by (auto simp: rx_core_def map_upt_update)
  have src: "source_in meta (ss @ [x]) j =
      (if ?i = j \<and> ?e < b_num_source_symbols (m_blocks meta ! j) then insert ?e (source_in meta ss j) else source_in meta ss j)" for j
    by (auto simp: source_in_def)
  have "?e \<notin> source_in meta ss ?i" using new by (simp add: source_in_def)
  then have c: "(of_nat (card (source_in meta (ss @ [x]) j)) :: u32) = of_nat (card (source_in meta ss j)) +
      (if ?i = j \<and> ?e < b_num_source_symbols (m_blocks meta ! j) then 1 else 0)" for j
    by (auto simp: src)
  have "(if ?e < b_num_source_symbols (m_blocks meta ! ?i)
          then (rx_source_recv s)[?i := rx_source_recv s ! ?i + 1] else rx_source_recv s) =
      map (\<lambda>j. of_nat (card (source_in meta (ss @ [x]) j))) [0..<?n]"
    using core i by (auto simp: rx_core_def map_upt_update c)
  with core x r show ?thesis unfolding rx_core_def mark_received_def by simp
qed

lemma rx_core_progress:
  assumes "rx_core rq meta dec0 ss s"
    and "pg_total_symbols p = pg_total_symbols (rx_progress s)" "pg_total_blocks p = pg_total_blocks (rx_progress s)"
  shows "rx_core rq meta dec0 ss (s\<lparr>rx_progress := p\<rparr>)"
  using assms by (simp add: rx_core_def)

text \<open>The counts of received symbols add up to the length of the log.\<close>

lemma card_received:
  assumes "distinct (map sym_id ss)" "\<And>x. x \<in> set ss \<Longrightarrow> unat (sid_sbn (sym_id x)) < n"
  shows "sum_list (map (\<lambda>i. card (received_in ss i)) [0..<n]) = length ss"
  using assms
proof (induction ss rule: rev_induct)
  case (snoc x ss)
  let ?i = "unat (sid_sbn (sym_id x))"
  have i: "?i < n" using snoc.prems by simp
  have new: "sid_esi (sym_id x) \<notin> received_in ss ?i" using snoc.prems by (simp add: in_received_in)
  have fin: "finite (received_in ss ?i)" by simp
  have "map (\<lambda>j. card (received_in (ss @ [x]) j)) [0..<n] =
      (map (\<lambda>j. card (received_in ss j)) [0..<n])[?i := card (received_in ss ?i) + 1]"
    using i new by (auto simp: map_upt_update)
  then show ?case using snoc i by (simp add: sum_list_update elem_le_sum_list)
qed (simp add: sum_list_0)

lemma sum_of_nat: "sum_list (map (\<lambda>r. of_nat (f r)) rs) = of_nat (sum_list (map f rs))"
  by (induction rs) auto

lemma received_total:
  assumes "rx_core rq meta dec0 ss s"
  shows "sum_list (map (\<lambda>r. of_nat (card r)) (rx_received s)) = (of_nat (length ss) :: u32)"
proof -
  from assms have "rx_received s = map (received_in ss) [0..<length (m_blocks meta)]" "distinct (map sym_id ss)"
    "\<And>x. x \<in> set ss \<Longrightarrow> unat (sid_sbn (sym_id x)) < length (m_blocks meta)"
    by (auto simp: rx_core_def fits_def)
  then show ?thesis using card_received [of ss "length (m_blocks meta)"]
    by (simp add: sum_of_nat comp_def)
qed

section \<open>Replay\<close>

text \<open>The entries of a cache that the new metadata accepts, as symbols.\<close>

definition entry_symbol :: "(u32 \<times> u32) \<times> bytes \<Rightarrow> symbol" where
  "entry_symbol e = symbol_new (fst (fst e)) (snd (fst e)) (snd e)"

definition usable_entries :: "object_meta \<Rightarrow> symbol_cache \<Rightarrow> symbol list" where
  "usable_entries meta cache = filter (fits meta) (map entry_symbol cache)"

lemma entry_symbol_sel [simp]: "entry_symbol ((sbn, esi), data) = symbol_new sbn esi data"
  by (simp add: entry_symbol_def)

lemma sym_id_symbol_new [simp]: "sym_id (symbol_new sbn esi d) = \<lparr>sid_sbn = sbn, sid_esi = esi\<rparr>"
  by (simp add: symbol_new_def)

definition same_header :: "'d receiver \<Rightarrow> 'd receiver \<Rightarrow> bool" where
  "same_header s s' \<longleftrightarrow>
     rx_session_id s' = rx_session_id s \<and> rx_meta_confirmed s' = rx_meta_confirmed s \<and>
     rx_descriptor_seen s' = rx_descriptor_seen s \<and> rx_file_meta s' = rx_file_meta s \<and>
     rx_segment_meta s' = rx_segment_meta s \<and> rx_symbol_cache s' = rx_symbol_cache s"

lemma same_header_refl [simp]: "same_header s s"
  by (simp add: same_header_def)

lemma same_header_trans: "same_header s s' \<Longrightarrow> same_header s' s'' \<Longrightarrow> same_header s s''"
  by (simp add: same_header_def)

lemma same_header_steps [simp]:
  "same_header s (s\<lparr>rx_progress := p\<rparr>)" "same_header s (s\<lparr>rx_decoder := d\<rparr>)"
  "same_header s (mark_received meta i e s)" "same_header s (count_corrupt s)" "same_header s (count_duplicate s)"
  "same_header s (s\<lparr>rx_received := r\<rparr>)" "same_header s (s\<lparr>rx_source_recv := r'\<rparr>)"
  "same_header s (refresh_decoded_counts s)" "same_header s (begin_frame s)"
  by (simp_all add: same_header_def mark_received_def count_corrupt_def count_duplicate_def
      refresh_decoded_counts_def begin_frame_def split: option.splits)

lemma replay_core:
  assumes "rx_core rq meta dec0 ss s" "distinct (map fst cache)"
    and "\<And>e. e \<in> set cache \<Longrightarrow> sym_id (entry_symbol e) \<notin> sym_id ` set ss"
  shows "\<exists>s'. replay_cache rq meta cache s = (s', Inr ()) \<and>
    rx_core rq meta dec0 (ss @ usable_entries meta cache) s' \<and> same_header s s'"
  using assms
proof (induction rq meta cache s arbitrary: ss rule: replay_cache.induct)
  case (1 rq meta s)
  then show ?case by (simp add: usable_entries_def)
next
  case (2 rq meta sbn esi data rest s)
  let ?x = "symbol_new sbn esi data"
  from 2(3) have len: "length (rx_received s) = length (m_blocks meta)" by (simp add: rx_core_def)
  have d: "distinct (map fst rest)" "(sbn, esi) \<notin> fst ` set rest" using 2(4) by auto
  have rest: "sym_id (entry_symbol e) \<notin> sym_id ` set ss" if "e \<in> set rest" for e using 2(5) that by simp
  show ?case
  proof (cases "fits meta ?x")
    case False
    then have bad: "length (rx_received s) \<le> unat sbn \<or> push_bit 24 1 \<le> esi \<or> length data \<noteq> unat (m_symbol_size meta)"
      by (auto simp: fits_def len word_le_nat_alt)
    have "rx_core rq meta dec0 ss (count_corrupt s)"
      unfolding count_corrupt_def by (rule rx_core_progress [OF 2(3)]) simp_all
    from 2(1) [OF refl bad this d(1) rest] obtain s' where
      "replay_cache rq meta rest (count_corrupt s) = (s', Inr ())"
      "rx_core rq meta dec0 (ss @ usable_entries meta rest) s'"
      "same_header (count_corrupt s) s'" by auto
    with bad False same_header_trans [OF same_header_steps(4)] show ?thesis
      by (auto simp: usable_entries_def)
  next
    case True
    then have ok: "\<not> (length (rx_received s) \<le> unat sbn \<or> push_bit 24 1 \<le> esi \<or> length data \<noteq> unat (m_symbol_size meta))"
      by (auto simp: fits_def len word_le_nat_alt)
    let ?dec = "foldl (feed rq) dec0 ss"
    have dec: "rx_decoder s = Some ?dec" "length (dec_blocks ?dec) = length (m_blocks meta)"
      using 2(3) decoder_new_length [of rq meta dec0] by (auto simp: rx_core_def)
    from True dec(2) obtain b where b: "add_symbol rq ?dec ?x = Inr (feed rq ?dec ?x, b)"
      by (elim add_symbol_fits [of ?x ?dec, rotated]) (auto simp: fits_def)
    have new: "sym_id ?x \<notin> sym_id ` set ss" using 2(5) [of "((sbn, esi), data)"] by simp
    then have notin: "esi \<notin> rx_received s ! unat sbn"
      using 2(3) in_received_in [of ?x ss] True by (auto simp: rx_core_def fits_def)
    define s1 where "s1 = mark_received meta (unat sbn) esi (s\<lparr>rx_decoder := Some (feed rq ?dec ?x)\<rparr>)"
    have "s1 = (mark_received meta (unat sbn) esi s)\<lparr>rx_decoder := Some (feed rq ?dec ?x)\<rparr>"
      by (simp add: s1_def mark_received_def)
    then have core: "rx_core rq meta dec0 (ss @ [?x]) s1" using rx_core_add [OF 2(3) True new] by simp
    have rest': "sym_id (entry_symbol e) \<notin> sym_id ` set (ss @ [?x])" if "e \<in> set rest" for e
    proof -
      have "fst e \<noteq> (sbn, esi)" using d(2) that by force
      then have "sym_id (entry_symbol e) \<noteq> sym_id ?x" by (cases e) (auto simp: entry_symbol_def)
      then show ?thesis using rest [OF that] by simp
    qed
    have step: "replay_cache rq meta (((sbn, esi), data) # rest) s = replay_cache rq meta rest s1"
      using ok notin dec b by (simp add: s1_def)
    from 2(2) [OF refl ok, of "s\<lparr>rx_decoder := Some (feed rq ?dec ?x)\<rparr>" "ss @ [?x]"] core d(1) rest' notin dec b
    obtain s' where "replay_cache rq meta rest s1 = (s', Inr ())"
      "rx_core rq meta dec0 (ss @ [?x] @ usable_entries meta rest) s'"
      "same_header s1 s'"
      by (auto simp: s1_def)
    moreover have "same_header s s1"
      by (simp add: s1_def mark_received_def same_header_def)
    ultimately show ?thesis using True same_header_trans unfolding step
      by (auto simp: usable_entries_def simp del: replay_cache.simps)
  qed
qed

section \<open>The invariant\<close>

definition counts_ok :: "object_meta \<Rightarrow> symbol list \<Rightarrow> 'd receiver \<Rightarrow> bool" where
  "counts_ok meta ss s \<longleftrightarrow>
     pg_received_symbols (rx_progress s) = of_nat (length ss) \<and>
     (pg_decoded_symbols (rx_progress s), pg_decoded_blocks (rx_progress s)) =
       decoded_counts meta (the (rx_decoder s)) (rx_source_recv s)"

definition rx_inv :: "('e, 'd) raptorq \<Rightarrow> symbol list \<Rightarrow> 'd receiver \<Rightarrow> bool" where
  "rx_inv rq ss s \<longleftrightarrow>
     (case rx_meta s of
        None \<Rightarrow> ss = [] \<and> rx_decoder s = None \<and> \<not> rx_meta_confirmed s \<and> \<not> rx_descriptor_seen s \<and>
          rx_received s = [] \<and> distinct (map fst (rx_symbol_cache s))
      | Some meta \<Rightarrow> rx_meta_confirmed s \<and> rx_symbol_cache s = [] \<and>
          (\<exists>dec0. rx_core rq meta dec0 ss s) \<and> counts_ok meta ss s)"

lemma rx_inv_new_pending: "rx_inv rq [] (new_pending sid)"
  by (simp add: rx_inv_def new_pending_def receiver_build_def)

lemma rx_inv_from_first_frame: "rx_inv rq [] (from_first_frame f)"
  by (simp add: rx_inv_def from_first_frame_def receiver_build_def)

lemma decoded_counts_fresh:
  assumes "decoder_new rq meta = Inr dec0"
  shows "decoded_counts meta dec0 (replicate (length (m_blocks meta)) 0) = (0, 0)"
proof -
  have "block_progress dec0 sbn = None" for sbn
    using assms by (auto simp: block_progress_def decoder_new_Inr)
  then have "map (\<lambda>(i, b). decoded_of_block dec0 (replicate (length (m_blocks meta)) 0) i b)
      (zip [0..<length (m_blocks meta)] (m_blocks meta)) = replicate (length (m_blocks meta)) (0, 0)"
    by (intro nth_equalityI) (auto simp: decoded_of_block_def)
  then show ?thesis by (simp add: decoded_counts_def Let_def sum_list_replicate)
qed

lemma rx_core_reset:
  "decoder_new rq meta = Inr dec0 \<Longrightarrow> rx_core rq meta dec0 [] (reset_for_meta meta dec0 s)"
  by (simp add: rx_core_def reset_for_meta_def map_replicate_const)

lemma rx_inv_new_confirmed:
  assumes "new_confirmed rq sid meta = Inr s"
  shows "rx_inv rq [] s"
proof -
  from assms obtain dec0 where d: "decoder_new rq meta = Inr dec0"
    and s: "s = receiver_build sid (Some meta) (Some dec0) True" by (auto simp: new_confirmed_def)
  then show ?thesis
    using decoded_counts_fresh [OF d]
    by (auto simp: rx_inv_def rx_core_def counts_ok_def receiver_build_def progress_default_def map_replicate_const)
qed

lemma refresh_core:
  assumes "rx_core rq meta dec0 ss s"
  shows "rx_core rq meta dec0 ss (refresh_decoded_counts s)"
    "pg_received_symbols (rx_progress s) = of_nat (length ss) \<Longrightarrow> counts_ok meta ss (refresh_decoded_counts s)"
  using assms by (auto simp: rx_core_def refresh_decoded_counts_def counts_ok_def)

lemma refresh_sel [simp]:
  "rx_meta_confirmed (refresh_decoded_counts s) = rx_meta_confirmed s"
  "rx_symbol_cache (refresh_decoded_counts s) = rx_symbol_cache s"
  "rx_meta (refresh_decoded_counts s) = rx_meta s" "rx_session_id (refresh_decoded_counts s) = rx_session_id s"
  "rx_descriptor_seen (refresh_decoded_counts s) = rx_descriptor_seen s"
  "rx_file_meta (refresh_decoded_counts s) = rx_file_meta s"
  "rx_segment_meta (refresh_decoded_counts s) = rx_segment_meta s"
  "rx_decoder (refresh_decoded_counts s) = rx_decoder s"
  by (simp_all add: refresh_decoded_counts_def split: option.splits)

lemma rx_inv_refresh:
  assumes "rx_core rq meta dec0 ss s" "pg_received_symbols (rx_progress s) = of_nat (length ss)"
    and "rx_meta_confirmed s" "rx_symbol_cache s = []"
  shows "rx_inv rq ss (refresh_decoded_counts s)"
proof -
  have "rx_meta s = Some meta" using assms(1) by (simp add: rx_core_def)
  then show ?thesis using refresh_core [OF assms(1)] assms(2-4) unfolding rx_inv_def by auto
qed

lemma rx_inv_counters:
  assumes "rx_inv rq ss s"
  shows "rx_inv rq ss (count_corrupt s)" "rx_inv rq ss (count_duplicate s)" "rx_inv rq ss (begin_frame s)"
  using assms by (auto simp: rx_inv_def count_corrupt_def count_duplicate_def begin_frame_def rx_core_def
      counts_ok_def split: option.splits)

lemma complete_counters [simp]:
  "receiver_is_complete (count_corrupt s) = receiver_is_complete s"
  "receiver_is_complete (count_duplicate s) = receiver_is_complete s"
  "receiver_is_complete (begin_frame s) = receiver_is_complete s"
  "receiver_is_complete (s\<lparr>rx_progress := p\<rparr>) = receiver_is_complete s"
  "receiver_is_complete (adopt_descriptor info s) = receiver_is_complete s"
  "receiver_is_complete (refresh_decoded_counts s) = receiver_is_complete s"
  by (simp_all add: receiver_is_complete_def count_corrupt_def count_duplicate_def begin_frame_def
      adopt_descriptor_def refresh_decoded_counts_def split: option.splits)

section \<open>One frame\<close>

definition symbol_of :: "frame \<Rightarrow> symbol" where
  "symbol_of f = symbol_new (fh_sbn (fr_header f)) (fh_esi (fr_header f)) (fr_payload f)"

text \<open>The log after a frame: adoption replays the cache, a fresh fitting symbol is appended.\<close>

definition adopts :: "('e, 'd) raptorq \<Rightarrow> frame \<Rightarrow> 'd receiver \<Rightarrow> descriptor_info option" where
  "adopts rq f s =
     (case parse_payload (fr_payload f) of
        None \<Rightarrow> None
      | Some info \<Rightarrow> if \<not> descriptor_rejected rq f info \<and> rx_meta s = None then Some info else None)"

definition log_step ::
  "('e, 'd) raptorq \<Rightarrow> (symbol_cache \<Rightarrow> symbol_cache) \<Rightarrow> frame \<Rightarrow> 'd receiver \<Rightarrow> symbol list \<Rightarrow> symbol list" where
  "log_step rq ord f s ss =
     (if fh_session_id (fr_header f) \<noteq> rx_session_id s then ss
      else if fh_flags (fr_header f) AND FLAG_DESCRIPTOR \<noteq> 0 then
        (case adopts rq f s of None \<Rightarrow> ss | Some info \<Rightarrow> usable_entries (di_meta info) (ord (rx_symbol_cache s)))
      else (case rx_meta s of
              None \<Rightarrow> ss
            | Some meta \<Rightarrow>
                if fits meta (symbol_of f) \<and> \<not> receiver_is_complete s \<and> sym_id (symbol_of f) \<notin> sym_id ` set ss
                then ss @ [symbol_of f] else ss))"

lemma usable_facts:
  assumes "distinct (map fst cache)"
  shows "distinct (map sym_id (usable_entries meta cache))" "\<forall>x \<in> set (usable_entries meta cache). fits meta x"
proof -
  let ?id = "\<lambda>k. \<lparr>sid_sbn = fst k, sid_esi = snd k\<rparr>"
  have "map sym_id (map entry_symbol cache) = map ?id (map fst cache)" by (simp add: entry_symbol_def)
  moreover have "inj ?id" by (intro injI) (auto simp: prod_eq_iff)
  moreover have "distinct (map ?id (map fst cache))"
    unfolding distinct_map [of ?id] using assms \<open>inj ?id\<close> by (blast intro: inj_on_subset)
  ultimately have "distinct (map sym_id (map entry_symbol cache))" by (simp only:)
  then show "distinct (map sym_id (usable_entries meta cache))"
    unfolding usable_entries_def by (rule distinct_map_filter)
qed (simp add: usable_entries_def)

lemma apply_meta_step:
  assumes inv: "rx_inv rq ss s" and none: "rx_meta s = None" and ok: "is_ok (meta_validate rq meta)"
    and ord: "\<And>xs. mset (ord xs) = mset xs"
  shows "\<exists>s'. apply_meta rq ord meta s = (s', Inr ()) \<and>
    rx_inv rq (usable_entries meta (ord (rx_symbol_cache s))) (s'\<lparr>rx_meta_confirmed := True, rx_symbol_cache := []\<rparr>) \<and>
    same_header (s\<lparr>rx_symbol_cache := []\<rparr>) s' \<and> rx_meta s' = Some meta"
proof -
  let ?cache = "ord (rx_symbol_cache s)"
  from ok obtain dec0 where d: "decoder_new rq meta = Inr dec0"
    by (auto simp: is_ok_iff decoder_new_def Let_def)
  have "distinct (map fst (rx_symbol_cache s))" using inv none by (simp add: rx_inv_def)
  moreover have "mset (map fst ?cache) = mset (map fst (rx_symbol_cache s))" by (simp add: ord)
  ultimately have dist: "distinct (map fst ?cache)" using mset_eq_imp_distinct_iff by blast
  from replay_core [OF rx_core_reset [OF d, of s] dist] obtain s2 where
    r: "replay_cache rq meta ?cache (reset_for_meta meta dec0 s) = (s2, Inr ())"
      "rx_core rq meta dec0 (usable_entries meta ?cache) s2" "same_header (reset_for_meta meta dec0 s) s2" by auto
  define s3 where "s3 = upd_progress (\<lambda>p. p\<lparr>pg_received_symbols :=
      sum_list (map (\<lambda>r. of_nat (card r)) (rx_received s2))\<rparr>) s2"
  have core: "rx_core rq meta dec0 (usable_entries meta ?cache) s3"
    unfolding s3_def by (rule rx_core_progress [OF r(2)]) simp_all
  have "pg_received_symbols (rx_progress s3) = of_nat (length (usable_entries meta ?cache))"
    using received_total [OF r(2)] by (simp add: s3_def)
  note R = refresh_core(1) [OF core] refresh_core(2) [OF core this]
  have a: "apply_meta rq ord meta s = (refresh_decoded_counts s3, Inr ())"
    by (simp add: apply_meta_def d r(1) s3_def)
  have "rx_inv rq (usable_entries meta ?cache)
      ((refresh_decoded_counts s3)\<lparr>rx_meta_confirmed := True, rx_symbol_cache := []\<rparr>)"
    using R by (auto simp: rx_inv_def rx_core_def counts_ok_def)
  moreover have "same_header (s\<lparr>rx_symbol_cache := []\<rparr>) (refresh_decoded_counts s3)"
    using r(3) by (simp add: s3_def same_header_def reset_for_meta_def refresh_decoded_counts_def split: option.splits)
  moreover have "rx_meta (refresh_decoded_counts s3) = Some meta" using R(1) by (simp add: rx_core_def)
  ultimately show ?thesis using a by blast
qed

text \<open>What a frame of the session leaves alone.\<close>

definition keeps :: "'d receiver \<Rightarrow> 'd receiver \<Rightarrow> bool" where
  "keeps s s' \<longleftrightarrow>
     rx_session_id s' = rx_session_id s \<and> (rx_meta s \<noteq> None \<longrightarrow> rx_meta s' = rx_meta s) \<and>
     (rx_descriptor_seen s \<longrightarrow> rx_descriptor_seen s' \<and> rx_file_meta s' = rx_file_meta s \<and>
        rx_segment_meta s' = rx_segment_meta s)"

lemma keeps_refl [simp]: "keeps s s"
  by (simp add: keeps_def)

lemma keeps_trans: "keeps s s' \<Longrightarrow> keeps s' s'' \<Longrightarrow> keeps s s''"
  by (auto simp: keeps_def)

lemma keeps_counters [simp]: "keeps s (count_corrupt s)" "keeps s (count_duplicate s)" "keeps s (begin_frame s)"
  by (simp_all add: keeps_def count_corrupt_def count_duplicate_def begin_frame_def)

lemma rx_inv_adopt:
  "rx_inv rq ss (s\<lparr>rx_meta_confirmed := True, rx_symbol_cache := []\<rparr>) \<Longrightarrow> rx_inv rq ss (adopt_descriptor info s)"
  by (auto simp: rx_inv_def adopt_descriptor_def rx_core_def counts_ok_def split: option.splits)

lemma ingest_descriptor_step:
  assumes inv: "rx_inv rq ss s" and ord: "\<And>xs. mset (ord xs) = mset xs"
    and i: "ingest_descriptor rq ord f s = (s', r)"
  shows "r = Inr (receiver_is_complete s') \<and> keeps s s' \<and>
    (case adopts rq f s of
       None \<Rightarrow> rx_inv rq ss s' \<and> rx_decoder s' = rx_decoder s \<and> rx_meta s' = rx_meta s
     | Some info \<Rightarrow> rx_inv rq (usable_entries (di_meta info) (ord (rx_symbol_cache s))) s' \<and>
         rx_meta s' = Some (di_meta info) \<and> rx_descriptor_seen s' \<and> rx_file_meta s' = di_file_meta info \<and>
         rx_segment_meta s' = di_segment info)"
proof (cases "adopts rq f s")
  case (Some info)
  then have p: "parse_payload (fr_payload f) = Some info" "\<not> descriptor_rejected rq f info" "rx_meta s = None"
    by (auto simp: adopts_def split: option.splits if_splits)
  then have v: "is_ok (meta_validate rq (di_meta info))" by (simp add: descriptor_rejected_def)
  from apply_meta_step [OF inv p(3) v ord] obtain s2 where a: "apply_meta rq ord (di_meta info) s = (s2, Inr ())"
    "rx_inv rq (usable_entries (di_meta info) (ord (rx_symbol_cache s))) (s2\<lparr>rx_meta_confirmed := True, rx_symbol_cache := []\<rparr>)"
    "same_header (s\<lparr>rx_symbol_cache := []\<rparr>) s2" "rx_meta s2 = Some (di_meta info)" by blast
  have seen: "\<not> rx_descriptor_seen s" using inv p(3) by (simp add: rx_inv_def)
  with a i p have "(s', r) = finish (adopt_descriptor info s2)" by (simp add: ingest_descriptor_def)
  with a p seen rx_inv_adopt [OF a(2)] Some show ?thesis
    by (auto simp: finish_def keeps_def adopt_descriptor_def same_header_def)
next
  case None
  have cur: "rx_inv rq ss (adopt_descriptor info s)" if "rx_meta s = Some m" for info m
    using inv that by (auto simp: rx_inv_def adopt_descriptor_def rx_core_def counts_ok_def)
  from None i show ?thesis
    using rx_inv_counters(1) [OF inv] inv cur
    by (auto simp: ingest_descriptor_def adopts_def finish_def keeps_def adopt_descriptor_def count_corrupt_def
        split: option.splits if_splits)
qed

lemma ingest_pending_step:
  assumes inv: "rx_inv rq ss s" and none: "rx_meta s = None" and i: "ingest_pending f s = (s', r)"
  shows "r = Inr (receiver_is_complete s') \<and> keeps s s' \<and> rx_inv rq ss s' \<and> rx_decoder s' = None \<and> rx_meta s' = None"
  using assms
  by (auto simp: ingest_pending_def Let_def rx_inv_def keeps_def receiver_is_complete_def count_corrupt_def
      count_duplicate_def map_of_eq_None_iff split: if_splits)

lemma progress_last:
  "rx_decoder_update g (rx_progress_update h s) = rx_progress_update h (rx_decoder_update g s)"
  "rx_source_recv_update g' (rx_progress_update h s) = rx_progress_update h (rx_source_recv_update g' s)"
  by (cases s; simp)+

lemma ingest_symbol_step:
  assumes inv: "rx_inv rq ss s" and meta: "rx_meta s = Some meta" and len: "length (fr_payload f) < 2 ^ 32"
    and i: "ingest_symbol rq f s = (s', r)"
  shows "r = Inr (receiver_is_complete s') \<and> keeps s s' \<and> same_header s s' \<and> rx_meta s' = Some meta \<and>
    rx_inv rq (if fits meta (symbol_of f) \<and> \<not> receiver_is_complete s \<and> sym_id (symbol_of f) \<notin> sym_id ` set ss
       then ss @ [symbol_of f] else ss) s'"
proof -
  let ?x = "symbol_of f" and ?sbn = "fh_sbn (fr_header f)" and ?esi = "fh_esi (fr_header f)"
  from inv meta obtain dec0 where core: "rx_core rq meta dec0 ss s" and counts: "counts_ok meta ss s"
    and conf: "rx_meta_confirmed s" "rx_symbol_cache s = []" by (auto simp: rx_inv_def)
  have n: "length (rx_received s) = length (m_blocks meta)" using core by (simp add: rx_core_def)
  have "unat (of_nat (length (fr_payload f)) :: u32) = length (fr_payload f)" using len by (intro unat_of_nat_len) simp
  then have sz: "of_nat (length (fr_payload f)) = m_symbol_size meta \<longleftrightarrow> length (fr_payload f) = unat (m_symbol_size meta)"
    by (simp add: word_unat_eq_iff)
  have fit: "fits meta ?x \<longleftrightarrow> \<not> length (rx_received s) \<le> unat ?sbn \<and>
      \<not> (push_bit 24 1 \<le> ?esi \<or> of_nat (length (fr_payload f)) \<noteq> m_symbol_size meta)"
    by (auto simp: fits_def symbol_of_def n sz word_le_nat_alt)
  have keep_s: "keeps s (count_corrupt s)" "keeps s (count_duplicate s)" by simp_all
  have meta_s: "rx_meta (count_corrupt s) = Some meta" "rx_meta (count_duplicate s) = Some meta"
    using meta by (simp_all add: count_corrupt_def count_duplicate_def)
  show ?thesis
  proof (cases "fits meta ?x \<and> \<not> receiver_is_complete s \<and> sym_id ?x \<notin> sym_id ` set ss")
    case False
    have dup: "?esi \<in> rx_received s ! unat ?sbn" if "fits meta ?x" "sym_id ?x \<in> sym_id ` set ss"
      using that core in_received_in [of ?x ss] by (auto simp: rx_core_def fits_def symbol_of_def)
    from False i fit dup have "s' = count_corrupt s \<or> s' = count_duplicate s" "r = Inr (receiver_is_complete s')"
      by (auto simp: ingest_symbol_def finish_def meta Let_def split: if_splits)
    with False rx_inv_counters(1,2) [OF inv] keep_s meta_s show ?thesis by auto
  next
    case True
    then have notin: "?esi \<notin> rx_received s ! unat ?sbn"
      using core in_received_in [of ?x ss] by (auto simp: rx_core_def fits_def symbol_of_def)
    let ?dec = "foldl (feed rq) dec0 ss"
    have dec: "rx_decoder s = Some ?dec" "length (dec_blocks ?dec) = length (m_blocks meta)"
      using core decoder_new_length [of rq meta dec0] by (auto simp: rx_core_def)
    from True dec(2) obtain b where b: "add_symbol rq ?dec ?x = Inr (feed rq ?dec ?x, b)"
      by (elim add_symbol_fits [of ?x ?dec, rotated]) (auto simp: fits_def)
    define s1 where "s1 = (mark_received meta (unat ?sbn) ?esi s)\<lparr>rx_decoder := Some (feed rq ?dec ?x)\<rparr>"
    define s2 where "s2 = upd_progress (\<lambda>p. p\<lparr>pg_received_symbols := pg_received_symbols p + 1\<rparr>) s1"
    have "rx_core rq meta dec0 (ss @ [?x]) s1"
      using rx_core_add [OF core, of ?x] True by (simp add: s1_def symbol_of_def)
    then have core2: "rx_core rq meta dec0 (ss @ [?x]) s2" unfolding s2_def by (rule rx_core_progress) simp_all
    have rec: "pg_received_symbols (rx_progress s2) = of_nat (length (ss @ [?x]))"
      using counts by (simp add: s2_def s1_def mark_received_def counts_ok_def add.commute)
    have res: "(s', r) = finish (refresh_decoded_counts s2)"
    proof -
      have c: "\<not> length (rx_received s) \<le> unat ?sbn" "\<not> (push_bit 24 1 \<le> ?esi \<or> of_nat (length (fr_payload f)) \<noteq> m_symbol_size meta)"
        "\<not> receiver_is_complete s" using True fit by blast+
      have b': "add_symbol rq ?dec (symbol_new ?sbn ?esi (fr_payload f)) = Inr (feed rq ?dec ?x, b)"
        using b by (simp add: symbol_of_def)
      show ?thesis
        using i c notin unfolding ingest_symbol_def Let_def
        by (cases "?esi < b_num_source_symbols (m_blocks meta ! unat ?sbn)")
          (simp_all add: meta dec(1) b' s2_def s1_def mark_received_def progress_last)
    qed
    have "rx_inv rq (ss @ [?x]) (refresh_decoded_counts s2)"
      using rx_inv_refresh [OF core2 rec] conf by (simp add: s2_def s1_def mark_received_def)
    moreover have "keeps s (refresh_decoded_counts s2)" "rx_meta (refresh_decoded_counts s2) = Some meta"
      "same_header s (refresh_decoded_counts s2)"
      using meta by (simp_all add: keeps_def same_header_def s2_def s1_def mark_received_def)
    ultimately show ?thesis using True res by (simp add: finish_def)
  qed
qed

text \<open>Every frame.\<close>

lemma begin_frame_sel [simp]:
  "rx_meta (begin_frame s) = rx_meta s" "rx_session_id (begin_frame s) = rx_session_id s"
  "rx_symbol_cache (begin_frame s) = rx_symbol_cache s" "rx_decoder (begin_frame s) = rx_decoder s"
  "rx_meta_confirmed (begin_frame s) = rx_meta_confirmed s" "adopts rq f (begin_frame s) = adopts rq f s"
  "rx_descriptor_seen (begin_frame s) = rx_descriptor_seen s" "rx_file_meta (begin_frame s) = rx_file_meta s"
  "rx_segment_meta (begin_frame s) = rx_segment_meta s"
  by (simp_all add: begin_frame_def adopts_def cong: option.case_cong)

lemma rx_inv_confirmed: "rx_inv rq ss s \<Longrightarrow> rx_meta_confirmed s \<longleftrightarrow> rx_meta s \<noteq> None"
  by (auto simp: rx_inv_def split: option.splits)

lemma ingest_step:
  assumes inv: "rx_inv rq ss s" and ord: "\<And>xs. mset (ord xs) = mset xs"
    and len: "length (fr_payload f) < 2 ^ 32" and i: "ingest rq ord f s = (s', r)"
  shows "rx_inv rq (log_step rq ord f s ss) s' \<and> keeps s s' \<and>
    r = (if fh_session_id (fr_header f) = rx_session_id s then Inr (receiver_is_complete s')
         else Inl (SessionMismatch (rx_session_id s) (fh_session_id (fr_header f))))"
proof (cases "fh_session_id (fr_header f) = rx_session_id s")
  case False
  with i inv show ?thesis
    by (auto simp: ingest_def Let_def log_step_def keeps_def rx_inv_def rx_core_def counts_ok_def split: option.splits)
next
  case sid: True
  let ?s = "begin_frame s"
  have inv': "rx_inv rq ss ?s" using rx_inv_counters(3) [OF inv] .
  have keep: "keeps s s'" if "keeps ?s s'" using that by (simp add: keeps_def)
  show ?thesis
  proof (cases "fh_flags (fr_header f) AND FLAG_DESCRIPTOR \<noteq> 0")
    case True
    then have "ingest_descriptor rq ord f ?s = (s', r)" using i sid by (simp add: ingest_def Let_def)
    from ingest_descriptor_step [OF inv' ord this] show ?thesis
      using True sid keep by (auto simp: log_step_def split: option.splits)
  next
    case data: False
    show ?thesis
    proof (cases "rx_meta s")
      case None
      then have "ingest_pending f ?s = (s', r)"
        using i sid data rx_inv_confirmed [OF inv] by (simp add: ingest_def Let_def)
      from ingest_pending_step [OF inv' _ this] show ?thesis
        using data sid keep None by (auto simp: log_step_def)
    next
      case (Some meta)
      then have "ingest_symbol rq f ?s = (s', r)"
        using i sid data rx_inv_confirmed [OF inv] by (simp add: ingest_def Let_def)
      from ingest_symbol_step [OF inv' _ len this] show ?thesis
        using data sid keep Some by (auto simp: log_step_def)
    qed
  qed
qed

end
