(* ===== verification/Receiver_Runs.thy ===== *)
theory Receiver_Runs
  imports Receiver_Inv
begin

text \<open>
  Everything a host can do with a receiver session: start it empty, from metadata or from a
  checkpoint, feed it frames, and ask for the assembled object.  The invariant holds of every
  reachable session, and the session's promises follow from it.
\<close>

section \<open>Checkpoints restore to the invariant\<close>

definition record_symbol :: "u32 \<times> u32 \<times> bytes \<Rightarrow> symbol" where
  "record_symbol r = (case r of (sbn, esi, data) \<Rightarrow> symbol_new sbn esi data)"

text \<open>The first stored symbol of each id, in the order they are stored.\<close>

fun first_symbols :: "symbol list \<Rightarrow> symbol list \<Rightarrow> symbol list" where
  "first_symbols ss [] = ss"
| "first_symbols ss (x # xs) =
     first_symbols (if sym_id x \<in> sym_id ` set ss then ss else ss @ [x]) xs"

lemma restore_symbol_core:
  assumes core: "rx_core rq meta dec0 ss s" and r: "symbol_record_ok meta r"
  shows "rx_core rq meta dec0 (first_symbols ss [record_symbol r]) (restore_symbol rq s r) \<and>
    same_header s (restore_symbol rq s r)"
proof -
  obtain sbn esi data where re: "r = (sbn, esi, data)" by (cases r)
  let ?x = "symbol_new sbn esi data" and ?dec = "foldl (feed rq) dec0 ss"
  have fit: "fits meta ?x" using r by (simp add: re symbol_record_ok_def fits_def)
  have n: "length (rx_received s) = length (m_blocks meta)" "rx_meta s = Some meta" "rx_decoder s = Some ?dec"
    "rx_pending_symbol_size s = m_symbol_size meta"
    using core by (auto simp: rx_core_def)
  have c: "unat sbn < length (rx_received s)" "esi < push_bit 24 1"
    "of_nat (length data) = rx_pending_symbol_size s"
    using r by (auto simp: re symbol_record_ok_def n word_less_nat_alt)
  have dup: "esi \<in> rx_received s ! unat sbn \<longleftrightarrow> sym_id ?x \<in> sym_id ` set ss"
    using core fit in_received_in [of ?x ss] by (auto simp: rx_core_def fits_def)
  show ?thesis
  proof (cases "sym_id ?x \<in> sym_id ` set ss")
    case True
    then show ?thesis using core dup by (auto simp: restore_symbol_def re record_symbol_def Let_def)
  next
    case False
    have "length (dec_blocks ?dec) = length (m_blocks meta)"
      using core decoder_new_length [of rq meta dec0] by (auto simp: rx_core_def)
    with fit obtain b where b: "add_symbol rq ?dec ?x = Inr (feed rq ?dec ?x, b)"
      by (elim add_symbol_fits [of ?x ?dec, rotated]) (auto simp: fits_def)
    have "restore_symbol rq s r = (mark_received meta (unat sbn) esi s)\<lparr>rx_decoder := Some (feed rq ?dec ?x)\<rparr>"
      using c False dup n b by (simp add: restore_symbol_def re Let_def mark_received_def)
    moreover have "same_header s ((mark_received meta (unat sbn) esi s)\<lparr>rx_decoder := d\<rparr>)" for d
      by (simp add: same_header_def mark_received_def)
    ultimately show ?thesis using rx_core_add [OF core fit False] False by (simp add: re record_symbol_def)
  qed
qed

lemma restore_all_core:
  assumes "rx_core rq meta dec0 ss s" "\<And>r. r \<in> set rs \<Longrightarrow> symbol_record_ok meta r"
  shows "rx_core rq meta dec0 (first_symbols ss (map record_symbol rs)) (foldl (restore_symbol rq) s rs) \<and>
    same_header s (foldl (restore_symbol rq) s rs)"
  using assms
proof (induction rs arbitrary: ss s)
  case (Cons r rs)
  have "symbol_record_ok meta r" using Cons.prems(2) by simp
  note one = restore_symbol_core [OF Cons.prems(1) this]
  with Cons.IH [of "first_symbols ss [record_symbol r]" "restore_symbol rq s r"] Cons.prems(2)
  show ?case using same_header_trans by fastforce
qed simp

lemma restore_spec:
  assumes "length (re_symbols st) < 2 ^ 64"
  shows "case restore rq st of
      Inl e \<Rightarrow> \<not> resume_ok rq st \<and> (\<exists>m. e = InvalidResume m)
    | Inr s \<Rightarrow> resume_ok rq st \<and> rx_inv rq (first_symbols [] (map record_symbol (re_symbols st))) s \<and>
        rx_meta s = Some (re_meta st) \<and> rx_session_id s = re_session_id st \<and> \<not> rx_descriptor_seen s \<and>
        rx_file_meta s = file_meta_default \<and> rx_segment_meta s = None"
proof (cases "resume_ok rq st")
  case False
  then have "resume_validate rq st \<noteq> Inr ()" by (simp add: resume_validate_iff [OF assms])
  then obtain m where "resume_validate rq st = Inl m" by (cases "resume_validate rq st") auto
  with False show ?thesis by (simp add: restore_def)
next
  case True
  then have v: "resume_validate rq st = Inr ()" by (simp add: resume_validate_iff [OF assms])
  from True have rs: "\<And>r. r \<in> set (re_symbols st) \<Longrightarrow> symbol_record_ok (re_meta st) r"
    and mok: "meta_ok rq (re_meta st)" by (auto simp: resume_ok_def)
  then obtain dec0 where d: "decoder_new rq (re_meta st) = Inr dec0"
    by (auto simp: decoder_new_def Let_def meta_validate_iff [THEN iffD2])
  define s0 where "s0 = receiver_build (re_session_id st) (Some (re_meta st)) (Some dec0) True"
  have s0: "new_confirmed rq (re_session_id st) (re_meta st) = Inr s0" by (simp add: new_confirmed_def d s0_def)
  have core0: "rx_core rq (re_meta st) dec0 [] s0"
    using rx_inv_new_confirmed [OF s0] d by (auto simp: rx_inv_def s0_def receiver_build_def rx_core_def)
  let ?ss = "first_symbols [] (map record_symbol (re_symbols st))"
  define s1 where "s1 = foldl (restore_symbol rq) s0 (re_symbols st)"
  have s1: "rx_core rq (re_meta st) dec0 ?ss s1" "same_header s0 s1"
    using restore_all_core [OF core0 rs] by (simp_all add: s1_def)
  define s2 where "s2 = upd_progress (\<lambda>p. p\<lparr>pg_received_symbols :=
      sum_list (map (\<lambda>r. of_nat (card r)) (rx_received s1))\<rparr>) s1"
  have "rx_core rq (re_meta st) dec0 ?ss s2" unfolding s2_def by (rule rx_core_progress [OF s1(1)]) simp_all
  moreover have "pg_received_symbols (rx_progress s2) = of_nat (length ?ss)"
    using received_total [OF s1(1)] by (simp add: s2_def)
  moreover have "rx_meta_confirmed s2" "rx_symbol_cache s2 = []" "rx_session_id s2 = re_session_id st"
    "\<not> rx_descriptor_seen s2" "rx_meta s2 = Some (re_meta st)"
    "rx_file_meta s2 = file_meta_default" "rx_segment_meta s2 = None"
    using s1 by (auto simp: s2_def s0_def receiver_build_def same_header_def rx_core_def)
  moreover have "restore rq st = Inr (refresh_decoded_counts s2)"
    by (simp add: restore_def v s0 Let_def s1_def [symmetric] s2_def)
  ultimately show ?thesis using True rx_inv_refresh by auto
qed

section \<open>Reachable sessions\<close>

inductive rx_reach ::
  "('e, 'd) raptorq \<Rightarrow> (symbol_cache \<Rightarrow> symbol_cache) \<Rightarrow> 'd receiver \<Rightarrow> bool"
  for rq ord where
  reach_pending: "rx_reach rq ord (new_pending sid)"
| reach_first: "rx_reach rq ord (from_first_frame f)"
| reach_confirmed: "receiver_new rq sid meta = Inr s \<Longrightarrow> rx_reach rq ord s"
| reach_restored: "length (re_symbols st) < 2 ^ 64 \<Longrightarrow> restore rq st = Inr s \<Longrightarrow> rx_reach rq ord s"
| reach_frame: "rx_reach rq ord s \<Longrightarrow> length (fr_payload f) < 2 ^ 32 \<Longrightarrow> ingest rq ord f s = (s', r) \<Longrightarrow>
    rx_reach rq ord s'"
| reach_assemble: "rx_reach rq ord s \<Longrightarrow> assemble_result cx s = (s', v) \<Longrightarrow> rx_reach rq ord s'"

lemma assemble_result_state:
  "assemble_result cx s = (s', v) \<Longrightarrow> \<exists>e. s' = s\<lparr>rx_last_assemble_error := e\<rparr>"
proof -
  have s: "\<exists>e. s = s\<lparr>rx_last_assemble_error := e\<rparr>" by (rule exI [of _ "rx_last_assemble_error s"]) simp
  show "assemble_result cx s = (s', v) \<Longrightarrow> ?thesis"
    using s by (auto simp: assemble_result_def assemble_ok_def assemble_fail_def assemble_error_def
        split: option.splits sum.splits if_splits)
qed

lemma rx_inv_error: "rx_inv rq ss (s\<lparr>rx_last_assemble_error := e\<rparr>) = rx_inv rq ss s"
  by (auto simp: rx_inv_def rx_core_def counts_ok_def split: option.splits)

lemma rx_reach_inv:
  assumes "rx_reach rq ord s" "\<And>xs. mset (ord xs) = mset xs"
  shows "\<exists>ss. rx_inv rq ss s"
  using assms
proof (induction rule: rx_reach.induct)
  case (reach_restored st s)
  then show ?case using restore_spec [of st rq] by auto
next
  case (reach_frame s f s' r)
  then show ?case using ingest_step by metis
next
  case (reach_assemble s cx s' v)
  then show ?case using assemble_result_state rx_inv_error by metis
qed (auto intro: rx_inv_new_pending rx_inv_from_first_frame rx_inv_new_confirmed simp: receiver_new_def)

text \<open>The state after a sequence of frames.\<close>

definition ingest_all ::
  "('e, 'd) raptorq \<Rightarrow> (symbol_cache \<Rightarrow> symbol_cache) \<Rightarrow> 'd receiver \<Rightarrow> frame list \<Rightarrow> 'd receiver" where
  "ingest_all rq ord s fs = foldl (\<lambda>s f. fst (ingest rq ord f s)) s fs"

lemma ingest_all_simps [simp]:
  "ingest_all rq ord s [] = s"
  "ingest_all rq ord s (f # fs) = ingest_all rq ord (fst (ingest rq ord f s)) fs"
  by (simp_all add: ingest_all_def)

lemma ingest_all_append: "ingest_all rq ord s (fs @ gs) = ingest_all rq ord (ingest_all rq ord s fs) gs"
  by (simp add: ingest_all_def)

fun log_run ::
  "('e, 'd) raptorq \<Rightarrow> (symbol_cache \<Rightarrow> symbol_cache) \<Rightarrow> 'd receiver \<Rightarrow> symbol list \<Rightarrow> frame list \<Rightarrow> symbol list" where
  "log_run rq ord s ss [] = ss"
| "log_run rq ord s ss (f # fs) = log_run rq ord (fst (ingest rq ord f s)) (log_step rq ord f s ss) fs"

lemma ingest_all_inv:
  assumes "rx_inv rq ss s" "\<And>xs. mset (ord xs) = mset xs"
    and "\<And>f. f \<in> set fs \<Longrightarrow> length (fr_payload f) < 2 ^ 32"
  shows "rx_inv rq (log_run rq ord s ss fs) (ingest_all rq ord s fs) \<and> keeps s (ingest_all rq ord s fs)"
  using assms
proof (induction fs arbitrary: s ss)
  case (Cons f fs)
  obtain s' r where i: "ingest rq ord f s = (s', r)" by (cases "ingest rq ord f s")
  have l: "length (fr_payload f) < 2 ^ 32" using Cons.prems(3) by simp
  from ingest_step [OF Cons.prems(1,2) l i] have "rx_inv rq (log_step rq ord f s ss) s'" "keeps s s'" by auto
  with Cons.IH [of "log_step rq ord f s ss" s'] Cons.prems(2,3) i keeps_trans show ?case by auto
qed simp

lemma rx_inv_unique:
  assumes "rx_inv rq ss s" "rx_inv rq ss s'" "rx_meta s = Some meta" "rx_meta s' = Some meta"
  shows "rx_decoder s' = rx_decoder s \<and> rx_received s' = rx_received s \<and>
    pg_received_symbols (rx_progress s') = pg_received_symbols (rx_progress s) \<and>
    pg_decoded_symbols (rx_progress s') = pg_decoded_symbols (rx_progress s) \<and>
    pg_decoded_blocks (rx_progress s') = pg_decoded_blocks (rx_progress s)"
  using assms by (auto simp: rx_inv_def rx_core_def counts_ok_def prod_eq_iff)

end
