(* ===== verification/Receiver_Props.thy ===== *)
theory Receiver_Props
  imports Receiver_Runs
begin

text \<open>
  What a receiver session promises: error behaviour, immutability of the descriptor, a frozen
  state after completion, exact counters, a bounded bootstrap cache, and bounded assembly.
\<close>

section \<open>Errors and immutability\<close>

text \<open>
  C16: whatever the screen shows, a reachable session never fails on a frame of its own session:
  it reports completeness.  A frame of another session is refused and
  changes nothing but the mismatch streak.
\<close>

theorem ingest_never_fails:
  assumes "rx_reach rq ord s" "\<And>xs. mset (ord xs) = mset xs"
    and "length (fr_payload f) < 2 ^ 32" "ingest rq ord f s = (s', r)"
  shows "if fh_session_id (fr_header f) = rx_session_id s
    then r = Inr (receiver_is_complete s')
    else r = Inl (SessionMismatch (rx_session_id s) (fh_session_id (fr_header f))) \<and>
      s' = s\<lparr>rx_session_mismatch_streak := rx_session_mismatch_streak s + 1,
             rx_progress := (rx_progress s)\<lparr>pg_session_mismatch_streak := rx_session_mismatch_streak s + 1\<rparr>\<rparr>"
proof -
  from rx_reach_inv [OF assms(1,2)] obtain ss where "rx_inv rq ss s" by blast
  from ingest_step [OF this assms(2-4)] assms(4) show ?thesis by (auto simp: ingest_def Let_def)
qed

lemma log_grows:
  assumes "rx_inv rq ss s" "rx_meta s \<noteq> None" "\<And>xs. mset (ord xs) = mset xs"
    and "\<And>f. f \<in> set fs \<Longrightarrow> length (fr_payload f) < 2 ^ 32"
  shows "\<exists>xs. log_run rq ord s ss fs = ss @ xs"
  using assms
proof (induction fs arbitrary: s ss)
  case (Cons f fs)
  obtain s' r where i: "ingest rq ord f s = (s', r)" by (cases "ingest rq ord f s")
  have l: "length (fr_payload f) < 2 ^ 32" using Cons.prems(4) by simp
  from ingest_step [OF Cons.prems(1,3) l i] have s': "rx_inv rq (log_step rq ord f s ss) s'" "keeps s s'" by auto
  then have "rx_meta s' \<noteq> None" using Cons.prems(2) by (auto simp: keeps_def)
  from Cons.IH [OF s'(1) this Cons.prems(3)] Cons.prems(4) obtain xs where
    "log_run rq ord s' (log_step rq ord f s ss) fs = log_step rq ord f s ss @ xs" by auto
  moreover have "\<exists>ys. log_step rq ord f s ss = ss @ ys"
    using Cons.prems(2) by (auto simp: log_step_def adopts_def split: option.splits)
  ultimately show ?case using i by auto
qed simp

text \<open>
  C14: once the object metadata is known no sequence of frames replaces it or resets the
  decoder, which only ever receives further symbols; once a descriptor has been accepted its
  file and segment metadata never change either.
\<close>

theorem descriptor_immutable:
  assumes "rx_reach rq ord s" "\<And>xs. mset (ord xs) = mset xs"
    and "\<And>f. f \<in> set fs \<Longrightarrow> length (fr_payload f) < 2 ^ 32"
    and "rx_meta s = Some meta" "rx_decoder s = Some dec"
  shows "rx_meta (ingest_all rq ord s fs) = Some meta \<and>
    (\<exists>xs. rx_decoder (ingest_all rq ord s fs) = Some (foldl (feed rq) dec xs)) \<and>
    (rx_descriptor_seen s \<longrightarrow> rx_descriptor_seen (ingest_all rq ord s fs) \<and>
       rx_file_meta (ingest_all rq ord s fs) = rx_file_meta s \<and>
       rx_segment_meta (ingest_all rq ord s fs) = rx_segment_meta s)"
proof -
  from rx_reach_inv [OF assms(1,2)] obtain ss where inv: "rx_inv rq ss s" by blast
  obtain xs where xs: "log_run rq ord s ss fs = ss @ xs"
    using log_grows [OF inv _ assms(2,3)] assms(4) by auto
  from ingest_all_inv [OF inv assms(2), of fs] assms(3) have I: "rx_inv rq (ss @ xs) (ingest_all rq ord s fs)"
    and k: "keeps s (ingest_all rq ord s fs)" by (auto simp: xs)
  from k assms(4) have m: "rx_meta (ingest_all rq ord s fs) = Some meta" by (simp add: keeps_def)
  from inv assms(4,5) obtain dec0 where "decoder_new rq meta = Inr dec0" "dec = foldl (feed rq) dec0 ss"
    by (auto simp: rx_inv_def rx_core_def)
  with I m have "rx_decoder (ingest_all rq ord s fs) = Some (foldl (feed rq) dec xs)"
    by (auto simp: rx_inv_def rx_core_def)
  with m k show ?thesis by (auto simp: keeps_def)
qed

section \<open>Completion\<close>

lemma complete_log:
  assumes "rx_inv rq ss s" "receiver_is_complete s" "\<And>xs. mset (ord xs) = mset xs"
    and "\<And>f. f \<in> set fs \<Longrightarrow> length (fr_payload f) < 2 ^ 32"
  shows "log_run rq ord s ss fs = ss"
  using assms
proof (induction fs arbitrary: s)
  case (Cons f fs)
  obtain s' r where i: "ingest rq ord f s = (s', r)" by (cases "ingest rq ord f s")
  have l: "length (fr_payload f) < 2 ^ 32" using Cons.prems(4) by simp
  obtain meta where meta: "rx_meta s = Some meta"
    using Cons.prems(1,2) by (cases "rx_meta s") (auto simp: rx_inv_def receiver_is_complete_def)
  then have same: "log_step rq ord f s ss = ss"
    using Cons.prems(2) by (auto simp: log_step_def adopts_def split: option.splits)
  with ingest_step [OF Cons.prems(1,3) l i] have s': "rx_inv rq ss s'" "keeps s s'" by auto
  then have "rx_meta s' = Some meta" using meta by (simp add: keeps_def)
  from rx_inv_unique [OF Cons.prems(1) s'(1) meta this] have "receiver_is_complete s'"
    using Cons.prems(2) by (simp add: receiver_is_complete_def)
  from Cons.IH [OF s'(1) this Cons.prems(3)] Cons.prems(4) show ?case using same i by simp
qed simp

lemma complete_stays:
  assumes "rx_inv rq ss s" "receiver_is_complete s" "\<And>xs. mset (ord xs) = mset xs"
    and "\<And>f. f \<in> set fs \<Longrightarrow> length (fr_payload f) < 2 ^ 32"
  shows "rx_inv rq ss (ingest_all rq ord s fs) \<and> receiver_is_complete (ingest_all rq ord s fs) \<and>
    rx_decoder (ingest_all rq ord s fs) = rx_decoder s \<and> rx_received (ingest_all rq ord s fs) = rx_received s \<and>
    pg_received_symbols (rx_progress (ingest_all rq ord s fs)) = pg_received_symbols (rx_progress s)"
proof -
  obtain meta where meta: "rx_meta s = Some meta"
    using assms(1,2) by (cases "rx_meta s") (auto simp: rx_inv_def receiver_is_complete_def)
  from ingest_all_inv [OF assms(1,3,4)] have I: "rx_inv rq ss (ingest_all rq ord s fs)"
    and k: "keeps s (ingest_all rq ord s fs)" by (simp_all add: complete_log [OF assms])
  from k meta have "rx_meta (ingest_all rq ord s fs) = Some meta" by (simp add: keeps_def)
  from rx_inv_unique [OF assms(1) I meta this] I assms(2) show ?thesis by (simp add: receiver_is_complete_def)
qed

text \<open>
  C15: a session that has recovered its object stays complete and holds still: no further
  sequence of frames, however hostile, changes the object it assembles, the
  recorded ids (so its memory stops growing) or the count of received symbols.
\<close>

theorem completion_frozen:
  assumes "rx_reach rq ord s" "receiver_is_complete s" "\<And>xs. mset (ord xs) = mset xs"
    and "\<And>f. f \<in> set fs \<Longrightarrow> length (fr_payload f) < 2 ^ 32"
  shows "receiver_is_complete (ingest_all rq ord s fs) \<and>
    assemble_raw (ingest_all rq ord s fs) = assemble_raw s \<and>
    rx_received (ingest_all rq ord s fs) = rx_received s \<and>
    pg_received_symbols (rx_progress (ingest_all rq ord s fs)) = pg_received_symbols (rx_progress s)"
proof -
  from rx_reach_inv [OF assms(1,3)] obtain ss where "rx_inv rq ss s" by blast
  from complete_stays [OF this assms(2-4)] show ?thesis by (simp add: assemble_raw_def)
qed

section \<open>Progress\<close>

lemma core_meta_ok:
  "rx_core rq meta dec0 ss s \<Longrightarrow> meta_ok rq meta"
  by (simp add: rx_core_def decoder_new_Inr)

lemma meta_ok_sbn: "meta_ok rq meta \<Longrightarrow> i < length (m_blocks meta) \<Longrightarrow> unat (b_sbn (m_blocks meta ! i)) = i"
  using blocks_ok_nth [of "m_symbol_size meta" 0 "m_blocks meta" i]
  by (auto simp: meta_ok_def block_ok_def unat_of_nat_len)

text \<open>The symbols block \<open>i\<close> counts for: all of them once decoded, else its source symbols so far.\<close>

definition block_credit :: "object_meta \<Rightarrow> 'd decoder \<Rightarrow> symbol list \<Rightarrow> nat \<Rightarrow> nat" where
  "block_credit meta dec ss i =
     (if block_data dec i \<noteq> None then unat (b_num_source_symbols (m_blocks meta ! i))
      else card (source_in meta ss i))"

lemma card_below: "card {e :: u32. e < k} = unat k"
proof -
  have "{e :: u32. e < k} = of_nat ` {..<unat k}"
  proof
    show "{e. e < k} \<subseteq> of_nat ` {..<unat k}"
      by (auto simp: word_less_nat_alt intro!: image_eqI [of _ _ "unat _"])
    show "of_nat ` {..<unat k} \<subseteq> {e. e < k}"
      using unat_lt [of k] by (auto simp: word_less_nat_alt unat_of_nat_len)
  qed
  moreover have "inj_on (of_nat :: nat \<Rightarrow> u32) {..<unat k}"
  proof (rule inj_onI)
    fix a b assume ab: "a \<in> {..<unat k}" "b \<in> {..<unat k}" and eq: "(of_nat a :: u32) = of_nat b"
    have "unat (of_nat a :: u32) = a" "unat (of_nat b :: u32) = b"
      using ab unat_lt [of k] by (auto simp: unat_of_nat_len)
    then show "a = b" using eq by metis
  qed
  ultimately show ?thesis by (simp add: card_image)
qed

lemma source_in_card: "card (source_in meta ss i) \<le> unat (b_num_source_symbols (m_blocks meta ! i))"
proof -
  have "card (source_in meta ss i) \<le> card {e. e < b_num_source_symbols (m_blocks meta ! i)}"
    by (rule card_mono) (auto simp: source_in_def)
  then show ?thesis by (simp add: card_below)
qed

lemma block_credit_le: "block_credit meta dec ss i \<le> unat (b_num_source_symbols (m_blocks meta ! i))"
  using source_in_card by (simp add: block_credit_def)

lemma sum_symbols_sum: "sum_symbols bs = (\<Sum>i<length bs. unat (b_num_source_symbols (bs ! i)))"
  by (simp add: sum_symbols_def sum_list_sum_nth atLeast0LessThan)

lemma block_progress_data:
  assumes "meta_ok rq meta" "length (dec_blocks dec) = length (m_blocks meta)" "i < length (m_blocks meta)"
  shows "block_progress dec (b_sbn (m_blocks meta ! i)) \<noteq> None \<longleftrightarrow> block_data dec i \<noteq> None"
  using assms by (simp add: block_progress_def block_data_def meta_ok_sbn Let_def)

lemma sum_list_zip_upt:
  "sum_list (map (\<lambda>(i, b). g i b) (zip [0..<length bs] bs)) = (\<Sum>i<length bs. g i (bs ! i))"
  by (simp add: sum_list_sum_nth atLeast0LessThan)

lemma decoded_counts_exact:
  assumes "meta_ok rq meta" "length (dec_blocks dec) = length (m_blocks meta)"
    and "recv = map (\<lambda>i. of_nat (card (source_in meta ss i))) [0..<length (m_blocks meta)]"
  shows "decoded_counts meta dec recv =
    (of_nat (\<Sum>i<length (m_blocks meta). block_credit meta dec ss i), of_nat (decoded_block_count dec))"
proof -
  let ?bs = "m_blocks meta"
  have one: "decoded_of_block dec recv i (?bs ! i) =
      (of_nat (block_credit meta dec ss i), of_nat (if block_data dec i \<noteq> None then 1 else 0))" if i: "i < length ?bs" for i
  proof (cases "block_data dec i")
    case None
    have "unat (of_nat (card (source_in meta ss i)) :: u32) = card (source_in meta ss i)"
      using source_in_card [of meta ss i] unat_lt [of "b_num_source_symbols (?bs ! i)"] by (intro unat_of_nat_len) simp
    then have "min (of_nat (card (source_in meta ss i))) (b_num_source_symbols (?bs ! i)) = of_nat (card (source_in meta ss i))"
      using source_in_card [of meta ss i] by (simp add: min_def word_le_nat_alt)
    with None i show ?thesis
      using block_progress_data [OF assms(1,2) i] by (simp add: decoded_of_block_def block_credit_def assms(3))
  next
    case (Some d)
    then show ?thesis
      using block_progress_data [OF assms(1,2) i] by (simp add: decoded_of_block_def block_credit_def)
  qed
  have "decoded_block_count dec = (\<Sum>i<length ?bs. if block_data dec i \<noteq> None then 1 else 0)"
  proof -
    have "decoded_block_count dec = card {i. i < length (dec_blocks dec) \<and> bs_decoded (dec_blocks dec ! i) \<noteq> None}"
      by (simp add: decoded_block_count_def length_filter_conv_card)
    also have "{i. i < length (dec_blocks dec) \<and> bs_decoded (dec_blocks dec ! i) \<noteq> None} =
        {i \<in> {..<length ?bs}. block_data dec i \<noteq> None}"
      by (auto simp: block_data_def assms(2))
    finally show ?thesis by (simp add: sum.If_cases Int_def)
  qed
  moreover have "sum_list (map fst (map (\<lambda>(i, b). decoded_of_block dec recv i b) (zip [0..<length ?bs] ?bs))) =
      (\<Sum>i<length ?bs. of_nat (block_credit meta dec ss i))"
    using one sum_list_zip_upt [of "\<lambda>i b. fst (decoded_of_block dec recv i b)" ?bs]
    by (simp add: comp_def case_prod_unfold)
  moreover have "sum_list (map snd (map (\<lambda>(i, b). decoded_of_block dec recv i b) (zip [0..<length ?bs] ?bs))) =
      (\<Sum>i<length ?bs. of_nat (if block_data dec i \<noteq> None then 1 else 0))"
    using one sum_list_zip_upt [of "\<lambda>i b. snd (decoded_of_block dec recv i b)" ?bs]
    by (simp add: comp_def case_prod_unfold)
  ultimately show ?thesis by (simp add: decoded_counts_def Let_def)
qed

lemma length_filter_all: "list_all P xs \<longleftrightarrow> length (filter P xs) = length xs"
proof (induction xs)
  case (Cons x xs)
  then show ?case using length_filter_le [of P xs] by (cases "P x") (auto, metis Suc_n_not_le_n length_filter_le)
qed simp

lemma total_symbols_sum:
  assumes "meta_ok rq meta"
  shows "unat (total_symbols meta) = sum_symbols (m_blocks meta)"
proof -
  have "foldl (+) (of_nat a) (map b_num_source_symbols bs) = (of_nat (a + sum_symbols bs) :: u32)" for a bs
  proof (induction bs arbitrary: a)
    case (Cons b bs)
    have "foldl (+) (of_nat a) (map b_num_source_symbols (b # bs)) =
        foldl (+) (of_nat (a + unat (b_num_source_symbols b))) (map b_num_source_symbols bs)" by simp
    then show ?case unfolding Cons.IH by (simp only: sum_symbols_simps add.assoc)
  qed simp
  from this [of 0] have "total_symbols meta = of_nat (sum_symbols (m_blocks meta))"
    by (simp add: total_symbols_def)
  moreover have "sum_symbols (m_blocks meta) \<le> 524288" using assms by (simp add: meta_ok_def)
  ultimately show ?thesis by (simp add: unat_of_nat_len)
qed

text \<open>All ids are below \<open>2 ^ 24\<close> and there are at most 255 blocks: the count of ids fits its 32 bits.\<close>

lemma received_sum_small:
  assumes "rx_core rq meta dec0 ss s" "length (m_blocks meta) \<le> 255"
  shows "sum_list (map card (rx_received s)) < 2 ^ 32"
proof -
  have "card (received_in ss i) \<le> 16777216" for i
  proof -
    have "received_in ss i \<subseteq> {e. e < 16777216}"
      using assms(1) by (auto simp: received_in_def rx_core_def fits_def word_less_nat_alt)
    then have "card (received_in ss i) \<le> card {e :: u32. e < 16777216}" by (intro card_mono) simp_all
    then show ?thesis by (simp add: card_below)
  qed
  then have "(\<Sum>i < length (m_blocks meta). card (received_in ss i)) \<le> (\<Sum>i < length (m_blocks meta). 16777216)"
    by (rule sum_mono)
  moreover have "sum_list (map card (rx_received s)) = (\<Sum>i < length (m_blocks meta). card (received_in ss i))"
    using assms(1) by (simp add: rx_core_def sum_list_sum_nth atLeast0LessThan)
  ultimately have "sum_list (map card (rx_received s)) \<le> (\<Sum>i < length (m_blocks meta). 16777216)" by simp
  also have "\<dots> \<le> 255 * 16777216" using assms(2) by simp
  finally show ?thesis by simp
qed

lemma reach_progress:
  assumes "rx_reach rq ord s" "\<And>xs. mset (ord xs) = mset xs"
    and "rx_meta s = Some meta" "rx_decoder s = Some dec"
  defines "p \<equiv> rx_progress s"
  shows "unat (pg_received_symbols p) = sum_list (map card (rx_received s)) \<and>
    unat (pg_total_symbols p) = sum_symbols (m_blocks meta) \<and>
    unat (pg_total_blocks p) = length (m_blocks meta) \<and>
    unat (pg_decoded_blocks p) = decoded_block_count dec \<and>
    unat (pg_decoded_symbols p) = (\<Sum>i < length (m_blocks meta).
       if block_data dec i \<noteq> None then unat (b_num_source_symbols (m_blocks meta ! i))
       else card {e \<in> rx_received s ! i. e < b_num_source_symbols (m_blocks meta ! i)}) \<and>
    unat (pg_decoded_symbols p) \<le> sum_symbols (m_blocks meta) \<and>
    (progress_is_complete p \<longleftrightarrow> receiver_is_complete s) \<and>
    (receiver_is_complete s \<longrightarrow> pg_decoded_symbols p = pg_total_symbols p)"
proof -
  let ?bs = "m_blocks meta"
  from rx_reach_inv [OF assms(1,2)] assms(3) obtain ss dec0 where core: "rx_core rq meta dec0 ss s"
    and counts: "counts_ok meta ss s" by (auto simp: rx_inv_def)
  note ok = core_meta_ok [OF core]
  then have n: "length ?bs \<le> 255" "?bs \<noteq> []" and k: "sum_symbols ?bs \<le> 524288" by (auto simp: meta_ok_def)
  have dec: "length (dec_blocks dec) = length ?bs"
    using core assms(4) decoder_new_length [of rq meta dec0] by (auto simp: rx_core_def)
  have dc: "decoded_counts meta dec (rx_source_recv s) =
      (of_nat (\<Sum>i<length ?bs. block_credit meta dec ss i), of_nat (decoded_block_count dec))"
    using core by (intro decoded_counts_exact [OF ok dec]) (simp add: rx_core_def)
  then have pd: "pg_decoded_symbols p = of_nat (\<Sum>i<length ?bs. block_credit meta dec ss i)"
    "pg_decoded_blocks p = of_nat (decoded_block_count dec)"
    using counts assms(4) by (auto simp: counts_ok_def p_def)
  have le: "(\<Sum>i<length ?bs. block_credit meta dec ss i) \<le> sum_symbols ?bs"
    unfolding sum_symbols_sum by (intro sum_mono block_credit_le)
  have u1: "unat (pg_decoded_symbols p) = (\<Sum>i<length ?bs. block_credit meta dec ss i)"
    unfolding pd using le k by (intro unat_of_nat_len) simp
  have cnt: "decoded_block_count dec \<le> length ?bs" by (simp add: decoded_block_count_def dec [symmetric])
  have u2: "unat (pg_decoded_blocks p) = decoded_block_count dec"
    unfolding pd using cnt n by (intro unat_of_nat_len) simp
  have tb: "unat (pg_total_blocks p) = length ?bs"
    using core n by (simp add: rx_core_def p_def unat_of_nat_len)
  have ts: "unat (pg_total_symbols p) = sum_symbols ?bs"
    using core total_symbols_sum [OF ok] by (simp add: rx_core_def p_def)
  have c: "receiver_is_complete s \<longleftrightarrow> decoded_block_count dec = length ?bs"
    using assms(4) by (simp add: receiver_is_complete_def decoder_is_complete_def decoded_block_count_def
        dec [symmetric] length_filter_all)
  have "progress_is_complete p \<longleftrightarrow> receiver_is_complete s"
    using n tb u2 by (auto simp: c progress_is_complete_def word_less_nat_alt word_unat_eq_iff)
  moreover have "pg_decoded_symbols p = pg_total_symbols p" if "receiver_is_complete s"
  proof -
    have "block_data dec i \<noteq> None" if "i < length ?bs" for i
      using that \<open>receiver_is_complete s\<close> assms(4) dec by (simp add: receiver_is_complete_def complete_iff)
    then have "(\<Sum>i<length ?bs. block_credit meta dec ss i) = sum_symbols ?bs"
      unfolding sum_symbols_sum by (intro sum.cong) (auto simp: block_credit_def)
    then show ?thesis using u1 ts by (simp add: word_unat_eq_iff)
  qed
  moreover have "pg_received_symbols p = of_nat (sum_list (map card (rx_received s)))"
    using received_total [OF core] counts by (simp add: counts_ok_def p_def sum_of_nat)
  then have "unat (pg_received_symbols p) = sum_list (map card (rx_received s))"
    using received_sum_small [OF core n(1)] by (simp only:) (intro unat_of_nat_len, simp)
  moreover have "block_credit meta dec ss i = (if block_data dec i \<noteq> None
      then unat (b_num_source_symbols (?bs ! i)) else card {e \<in> rx_received s ! i. e < b_num_source_symbols (?bs ! i)})"
    if "i < length ?bs" for i
    using core that by (simp add: block_credit_def source_in_def rx_core_def)
  then have "(\<Sum>i<length ?bs. block_credit meta dec ss i) = (\<Sum>i<length ?bs. if block_data dec i \<noteq> None
      then unat (b_num_source_symbols (?bs ! i)) else card {e \<in> rx_received s ! i. e < b_num_source_symbols (?bs ! i)})"
    by (intro sum.cong) auto
  ultimately show ?thesis using u1 u2 tb ts le by simp
qed

text \<open>
  C17: the counters a host shows are exact.  Received symbols are the recorded ids, none lost to
  the width of the counter; the totals are those of the descriptor; decoded blocks are the blocks
  the decoder has; decoded symbols are all source symbols of the blocks that are decoded plus, for
  each block that is not, the source symbols among its recorded ids.  They never exceed the total,
  and the progress reads complete exactly when the decoder has the whole object, with every symbol
  counted as decoded.
\<close>

theorem progress_exact:
  assumes "rx_reach rq ord s" "\<And>xs. mset (ord xs) = mset xs"
    and "rx_meta s = Some meta" "rx_decoder s = Some dec"
  shows "unat (pg_received_symbols (rx_progress s)) = sum_list (map card (rx_received s)) \<and>
    unat (pg_total_symbols (rx_progress s)) = sum_symbols (m_blocks meta) \<and>
    unat (pg_total_blocks (rx_progress s)) = length (m_blocks meta) \<and>
    unat (pg_decoded_blocks (rx_progress s)) = decoded_block_count dec \<and>
    unat (pg_decoded_symbols (rx_progress s)) = (\<Sum>i < length (m_blocks meta).
       if block_data dec i \<noteq> None then unat (b_num_source_symbols (m_blocks meta ! i))
       else card {e \<in> rx_received s ! i. e < b_num_source_symbols (m_blocks meta ! i)}) \<and>
    unat (pg_decoded_symbols (rx_progress s)) \<le> sum_symbols (m_blocks meta) \<and>
    (progress_is_complete (rx_progress s) \<longleftrightarrow> receiver_is_complete s) \<and>
    (receiver_is_complete s \<longrightarrow> pg_decoded_symbols (rx_progress s) = pg_total_symbols (rx_progress s))"
  by (rule reach_progress [OF assms])

section \<open>The bootstrap cache\<close>

lemma ceil_div_times:
  fixes b d :: nat
  assumes "0 < d"
  shows "(b div d + (if 0 < b mod d then 1 else 0)) * d < b + d"
proof -
  obtain q r where q: "b div d = q" and r: "b mod d = r" by simp
  have "q * d + r = b" using div_mult_mod_eq [of b d] by (simp add: q r)
  then show ?thesis using assms unfolding q r by (cases "0 < r") (auto simp: add_mult_distrib)
qed

lemma pre_meta_cache_max_times:
  assumes "t \<noteq> 0"
  shows "pre_meta_cache_max t * max (unat t) 64 < 33554432 + max (unat t) 64"
  using assms ceil_div_times [of "max (unat t) 64" 33554432]
  by (simp add: pre_meta_cache_max_def PRE_META_CACHE_BYTES_BUDGET_def PRE_META_CACHE_BYTES_PER_ENTRY_def
      MAX_OBJECT_BYTES_def Let_def)

lemma pre_meta_cache_max_le: "pre_meta_cache_max t \<le> 524288"
proof (cases "t = 0")
  case False
  obtain d where d: "d = max (unat t) 64" by blast
  have t: "pre_meta_cache_max t * d < 33554432 + d" using pre_meta_cache_max_times [OF False] by (simp add: d)
  show ?thesis
  proof (rule ccontr)
    assume "\<not> pre_meta_cache_max t \<le> 524288"
    then have "524289 * d \<le> pre_meta_cache_max t * d" by (intro mult_right_mono) simp_all
    moreover have "64 \<le> d" by (simp add: d)
    ultimately show False using t by linarith
  qed
qed (simp add: pre_meta_cache_max_def PRE_META_SYMBOL_CACHE_MAX_def)

lemma cap_times:
  assumes "t \<noteq> 0" "n \<le> pre_meta_cache_max t"
  shows "n * max (unat t) 64 < 33554432 + max (unat t) 64"
proof -
  have "n * max (unat t) 64 \<le> pre_meta_cache_max t * max (unat t) 64" using assms(2) by (rule mult_right_mono) simp
  then show ?thesis using pre_meta_cache_max_times [OF assms(1)] by linarith
qed

lemma sum_list_const: "(\<And>x. x \<in> set xs \<Longrightarrow> g x = n) \<Longrightarrow> sum_list (map g xs) = length xs * (n :: nat)"
  by (induction xs) auto

text \<open>What a frame does to the cache.\<close>

lemma cache_step:
  assumes inv: "rx_inv rq ss s" and ord: "\<And>xs. mset (ord xs) = mset xs"
    and len: "length (fr_payload f) < 2 ^ 32" and i: "ingest rq ord f s = (s', r)"
  shows "rx_symbol_cache s' = [] \<or> rx_symbol_cache s' = rx_symbol_cache s \<or>
    length (rx_symbol_cache s) < pre_meta_cache_max (fh_symbol_size (fr_header f)) \<and>
    rx_symbol_cache s' = rx_symbol_cache s @ [((fh_sbn (fr_header f), fh_esi (fr_header f)), fr_payload f)]"
proof (cases "rx_meta s' = None")
  case False
  then show ?thesis using ingest_step [OF inv ord len i] by (auto simp: rx_inv_def split: option.splits)
next
  case True
  show ?thesis
  proof (cases "fh_session_id (fr_header f) = rx_session_id s")
    case False
    then show ?thesis using i by (auto simp: ingest_def Let_def)
  next
    case sid: True
    show ?thesis
    proof (cases "fh_flags (fr_header f) AND FLAG_DESCRIPTOR \<noteq> 0")
      case desc: True
      then have d: "ingest_descriptor rq ord f (begin_frame s) = (s', r)" using i sid by (simp add: ingest_def Let_def)
      have "adopts rq f (begin_frame s) = None"
        using ingest_descriptor_step [OF rx_inv_counters(3) [OF inv] ord d] True by (auto split: option.splits)
      then show ?thesis using d
        by (auto simp: ingest_descriptor_def adopts_def finish_def adopt_descriptor_def count_corrupt_def begin_frame_def
            split: option.splits if_splits)
    next
      case data: False
      have "keeps s s'" using ingest_step [OF inv ord len i] by blast
      then have "rx_meta s = None" using True by (auto simp: keeps_def)
      then have "ingest_pending f (begin_frame s) = (s', r)"
        using i sid data rx_inv_confirmed [OF inv] by (simp add: ingest_def Let_def)
      then show ?thesis
        by (auto simp: ingest_pending_def Let_def count_duplicate_def count_corrupt_def split: if_splits)
    qed
  qed
qed

text \<open>
  C37: before a descriptor arrives the replay cache holds at most 524288 symbols, whatever is
  on the screen; when the frames share one symbol size the
  cached payload stays below the 32 MiB budget and one more symbol.
\<close>

theorem bootstrap_cache_bounded:
  fixes rq :: "('e, 'd) raptorq" and sid :: u128
  assumes "\<And>xs. mset (ord xs) = mset xs" "\<And>f. f \<in> set fs \<Longrightarrow> length (fr_payload f) < 2 ^ 32"
  defines "c \<equiv> rx_symbol_cache (ingest_all rq ord (new_pending sid) fs)"
  shows "length c \<le> 524288 \<and>
    (\<forall>t. t \<noteq> 0 \<and> (\<forall>f \<in> set fs. fh_symbol_size (fr_header f) = t \<and> length (fr_payload f) = unat t) \<longrightarrow>
       sum_list (map (\<lambda>e. length (snd e)) c) < 33554432 + max (unat t) 64)"
proof -
  have grow: "length (rx_symbol_cache (ingest_all rq ord s fs)) \<le> m \<and>
      (\<forall>e \<in> set (rx_symbol_cache (ingest_all rq ord s fs)). Q e)"
    if "rx_inv rq ss s" "length (rx_symbol_cache s) \<le> m" "\<forall>e \<in> set (rx_symbol_cache s). Q e"
      "\<forall>f \<in> set fs. length (fr_payload f) < 2 ^ 32 \<and> pre_meta_cache_max (fh_symbol_size (fr_header f)) \<le> m \<and>
        Q ((fh_sbn (fr_header f), fh_esi (fr_header f)), fr_payload f)" for ss s m Q fs
    using that
  proof (induction fs arbitrary: s ss)
    case (Cons f fs)
    obtain s' r where i: "ingest rq ord f s = (s', r)" by (cases "ingest rq ord f s")
    have l: "length (fr_payload f) < 2 ^ 32" using Cons.prems by simp
    from ingest_step [OF Cons.prems(1) assms(1) l i] have s': "rx_inv rq (log_step rq ord f s ss) s'" by blast
    have "length (rx_symbol_cache s') \<le> m" "\<forall>e \<in> set (rx_symbol_cache s'). Q e"
      using cache_step [OF Cons.prems(1) assms(1) l i] Cons.prems(2-4) by auto
    from Cons.IH [OF s' this] Cons.prems(4) show ?case using i by simp
  qed simp
  have new: "rx_inv rq [] (new_pending sid)" "rx_symbol_cache (new_pending sid) = []"
    by (simp_all add: rx_inv_new_pending) (simp add: new_pending_def receiver_build_def)
  have "length c \<le> 524288"
    using grow [OF new(1), of 524288 "\<lambda>_. True" fs] assms(2) pre_meta_cache_max_le by (auto simp: new(2) c_def)
  moreover have "sum_list (map (\<lambda>e. length (snd e)) c) < 33554432 + max (unat t) 64"
    if t: "t \<noteq> 0" "\<forall>f \<in> set fs. fh_symbol_size (fr_header f) = t \<and> length (fr_payload f) = unat t" for t
  proof -
    have "length c \<le> pre_meta_cache_max t" "\<forall>e \<in> set c. length (snd e) = unat t"
      using grow [OF new(1), of "pre_meta_cache_max t" "\<lambda>e. length (snd e) = unat t" fs] t assms(2)
      by (auto simp: new(2) c_def)
    then have "sum_list (map (\<lambda>e. length (snd e)) c) = length c * unat t"
      by (intro sum_list_const) simp
    also have "\<dots> \<le> length c * max (unat t) 64" by simp
    finally show ?thesis using cap_times [OF t(1) \<open>length c \<le> pre_meta_cache_max t\<close>] by linarith
  qed
  ultimately show ?thesis by blast
qed

end
