(* ===== verification/Receiver_Assembly.thy ===== *)
theory Receiver_Assembly
  imports Receiver_Props
begin

text \<open>
  Assembly and checkpoints of a receiver session, and the deprecated
  \<open>derive_meta_from_totals\<close>.
\<close>

section \<open>Assembly\<close>

text \<open>The recovered payload without its padding, as the descriptor announces it.\<close>

definition trimmed :: "file_meta \<Rightarrow> bytes \<Rightarrow> bytes" where
  "trimmed fm raw = (if fm_compressed_size_known fm then take (unat (fm_compressed_size fm)) raw else raw)"

lemma try_from_same [simp]: "(try_from (x :: u64) :: u64 option) = Some x"
  by (simp add: try_from_Some)

lemma trim_payload_Inr:
  "trim_payload fm padded = Inr raw \<longleftrightarrow>
     (fm_compressed_size_known fm \<longrightarrow> unat (fm_compressed_size fm) \<le> length padded) \<and> raw = trimmed fm padded"
  by (auto simp: trim_payload_def trimmed_def)

lemma trim_payload_Inl: "trim_payload fm padded = Inl e \<Longrightarrow> fst e"
  by (auto simp: trim_payload_def split: if_splits)

lemma decompress_cap_Inr:
  "decompress_cap fm = Inr cap \<longleftrightarrow> unat (fm_original_size fm) \<le> 268435456 \<and>
     cap = (if fm_original_size fm = 0 then 268435456 else unat (fm_original_size fm))"
  by (auto simp: decompress_cap_def MAX_ORIGINAL_BYTES_def word_gt_0 split: if_splits)

lemma decompress_cap_Inl: "decompress_cap fm = Inl e \<Longrightarrow> fst e"
  by (auto simp: decompress_cap_def split: if_splits)

text \<open>What a successful assembly returns, as a specification on the recovered object.\<close>

definition assembled :: "codecs \<Rightarrow> file_meta \<Rightarrow> bytes \<Rightarrow> bytes \<Rightarrow> bool" where
  "assembled cx fm padded v \<longleftrightarrow>
     (fm_compressed_size_known fm \<longrightarrow> unat (fm_compressed_size fm) \<le> length padded) \<and>
     (if fm_compression fm = COMPRESSION_NONE then v = trimmed fm padded
      else unat (fm_original_size fm) \<le> 268435456 \<and> length v \<le> 268435456 \<and>
        (fm_original_size fm \<noteq> 0 \<longrightarrow> length v = unat (fm_original_size fm)) \<and>
        (is_known_compression_tag (fm_compression fm) \<or> trimmed fm padded = []) \<and>
        (\<exists>r. decoder_for cx (fm_compression fm) (trimmed fm padded) = Inr r \<and> rd_end r = None \<and>
           v = concat (rd_chunks r)))"

lemma assemble_spec:
  assumes "assemble_result cx s = (s', r)"
  shows "(case r of
      Inr None \<Rightarrow> assemble_raw s = None \<and> rx_last_assemble_error s' = None
    | Inr (Some v) \<Rightarrow> rx_last_assemble_error s' = None \<and>
        (\<exists>padded. assemble_raw s = Some padded \<and> assembled cx (rx_file_meta s) padded v)
    | Inl e \<Rightarrow> \<exists>m padded. e = TeCompress m \<and> rx_last_assemble_error s' = Some m \<and> assemble_raw s = Some padded \<and>
        (\<forall>v. \<not> assembled cx (rx_file_meta s) padded v))"
proof (cases "assemble_raw s")
  case None
  then show ?thesis using assms by (auto simp: assemble_result_def assemble_ok_def)
next
  case (Some padded)
  let ?fm = "rx_file_meta s"
  show ?thesis
  proof (cases "trim_payload ?fm padded")
    case (Inl e)
    then have "\<not> (fm_compressed_size_known ?fm \<longrightarrow> unat (fm_compressed_size ?fm) \<le> length padded)"
      using trim_payload_Inr [of ?fm padded "trimmed ?fm padded"] by auto
    then have "\<not> assembled cx ?fm padded v" for v by (auto simp: assembled_def)
    with Inl Some assms trim_payload_Inl [OF Inl] show ?thesis
      by (auto simp: assemble_result_def assemble_error_def assemble_fail_def)
  next
    case (Inr raw)
    then have raw: "raw = trimmed ?fm padded" "fm_compressed_size_known ?fm \<longrightarrow> unat (fm_compressed_size ?fm) \<le> length padded"
      by (simp_all add: trim_payload_Inr)
    show ?thesis
    proof (cases "fm_compression ?fm = COMPRESSION_NONE")
      case True
      with Inr Some assms raw show ?thesis
        by (auto simp: assemble_result_def assemble_ok_def assembled_def)
    next
      case comp: False
      show ?thesis
      proof (cases "decompress_cap ?fm")
        case (Inl e)
        then have "\<not> unat (fm_original_size ?fm) \<le> 268435456"
          using decompress_cap_Inr [of ?fm] by (cases "unat (fm_original_size ?fm) \<le> 268435456") auto
        with Inl Some Inr comp assms decompress_cap_Inl [OF Inl] show ?thesis
          by (auto simp: assemble_result_def assemble_error_def assemble_fail_def assembled_def)
      next
        case (Inr cap)
        then have cap: "unat (fm_original_size ?fm) \<le> 268435456"
          "cap = (if fm_original_size ?fm = 0 then 268435456 else unat (fm_original_size ?fm))"
          by (simp_all add: decompress_cap_Inr)
        then have c64: "cap < 2 ^ 64 - 1" by (auto split: if_splits)
        note D = decompress_capped [OF c64, of cx raw "fm_compression ?fm"]
        show ?thesis
        proof (cases "decompress_with_limit cx raw (fm_compression ?fm) cap")
          case (Inl e)
          then have "\<not> assembled cx ?fm padded v" for v
            using D [of v] comp cap raw by (auto simp: assembled_def split: if_splits)
          with Inl Inr \<open>trim_payload ?fm padded = Inr raw\<close> Some comp assms show ?thesis
            by (auto simp: assemble_result_def assemble_fail_def)
        next
          case v: (Inr v)
          with D [of v] have lv: "length v \<le> cap" by simp
          have w: "unat (of_nat (length v) :: u64) = length v"
            using lv c64 by (intro unat_of_nat_len) simp
          show ?thesis
          proof (cases "fm_original_size ?fm \<noteq> 0 \<and> of_nat (length v) \<noteq> fm_original_size ?fm")
            case True
            then have "length v \<noteq> unat (fm_original_size ?fm)" using w by (auto simp: word_unat_eq_iff)
            then have "\<not> assembled cx ?fm padded v'" for v'
              using D [of v'] v comp cap raw True by (auto simp: assembled_def split: if_splits)
            with True v Inr \<open>trim_payload ?fm padded = Inr raw\<close> Some comp assms show ?thesis
              by (auto simp: assemble_result_def assemble_fail_def word_gt_0)
          next
            case False
            then have "fm_original_size ?fm \<noteq> 0 \<longrightarrow> length v = unat (fm_original_size ?fm)"
              using w by (auto simp: word_unat_eq_iff)
            then have "assembled cx ?fm padded v"
              using D [of v] v comp cap raw lv by (auto simp: assembled_def)
            moreover have "assemble_result cx s = assemble_ok (Some v) s"
              using False v Inr \<open>trim_payload ?fm padded = Inr raw\<close> Some comp
              by (auto simp: assemble_result_def word_gt_0)
            ultimately show ?thesis using Some assms by (auto simp: assemble_ok_def)
          qed
        qed
      qed
    qed
  qed
qed

text \<open>
  C35: assembly returns bytes exactly when the recovered object holds the announced payload and that
  payload decodes, without error and to its end, to the announced size; the output of a
  decompressor never exceeds 256 MiB.  Every failure is reported and recorded, and nothing else
  of the session changes.
\<close>

theorem assemble_result_exact:
  assumes "assemble_result cx s = (s', r)"
  shows "s' = s\<lparr>rx_last_assemble_error := rx_last_assemble_error s'\<rparr> \<and>
    (r = Inr None \<longleftrightarrow> assemble_raw s = None) \<and>
    (\<forall>v. r = Inr (Some v) \<longleftrightarrow> (\<exists>padded. assemble_raw s = Some padded \<and> assembled cx (rx_file_meta s) padded v)) \<and>
    (\<forall>e. r = Inl e \<longrightarrow> (\<exists>m. e = TeCompress m \<and> rx_last_assemble_error s' = Some m))"
proof -
  obtain e where st: "s' = s\<lparr>rx_last_assemble_error := e\<rparr>" using assemble_result_state [OF assms] by blast
  have fun_like: "v = v'" if "assembled cx fm p v" "assembled cx fm p v'" for fm p v v'
    using that by (auto simp: assembled_def split: if_splits)
  note S = assemble_spec [OF assms]
  show ?thesis
  proof (cases r)
    case (Inl e)
    with S st show ?thesis by auto
  next
    case (Inr v)
    with S st fun_like show ?thesis by (cases v) auto
  qed
qed

lemma assemble_result_exact_witness:
  "\<exists>s' r. assemble_result demo_codecs (new_pending 7 :: nat receiver) = (s', r) \<and> r = Inr None"
proof -
  obtain s' r where a: "assemble_result demo_codecs (new_pending 7 :: nat receiver) = (s', r)"
    by (cases "assemble_result demo_codecs (new_pending 7 :: nat receiver)")
  have "assemble_raw (new_pending 7 :: nat receiver) = None"
    by (simp add: assemble_raw_def new_pending_def receiver_build_def)
  with a assemble_result_exact [OF a] show ?thesis by auto
qed

section \<open>Checkpoints\<close>

lemma save_state_confirmed:
  assumes inv: "rx_inv rq ss s" and meta: "rx_meta s = Some meta" and ord: "\<And>xs. mset (ord xs) = mset xs"
  shows "save_state ord s = Some \<lparr>re_session_id = rx_session_id s, re_meta = meta,
    re_received = replicate (length (m_blocks meta)) {}, re_symbols = []\<rparr>"
proof -
  have "ord [] = []" using ord [of "[]"] by simp
  moreover have "rx_symbol_cache s = []" using inv meta by (simp add: rx_inv_def)
  ultimately show ?thesis by (simp add: save_state_def meta)
qed

text \<open>
  A checkpoint taken once the metadata is known stores no symbol; restoring it never
  fails and gives a session with the same id and metadata that has received nothing.
\<close>

lemma checkpoint_restarts:
  assumes "rx_reach rq ord s" "\<And>xs. mset (ord xs) = mset xs" "rx_meta s = Some meta"
  shows "\<exists>st s2. save_state ord s = Some st \<and> re_symbols st = [] \<and> restore rq st = Inr s2 \<and>
    rx_session_id s2 = rx_session_id s \<and> rx_meta s2 = Some meta \<and>
    rx_received s2 = replicate (length (m_blocks meta)) {} \<and> pg_received_symbols (rx_progress s2) = 0"
proof -
  from rx_reach_inv [OF assms(1,2)] obtain ss where inv: "rx_inv rq ss s" by blast
  let ?st = "\<lparr>re_session_id = rx_session_id s, re_meta = meta,
    re_received = replicate (length (m_blocks meta)) {}, re_symbols = []\<rparr>"
  have "meta_ok rq meta" using inv assms(3) core_meta_ok by (auto simp: rx_inv_def)
  then have "resume_ok rq ?st" by (simp add: resume_ok_def stored_bytes_def sum_list_replicate)
  then obtain s2 where s2: "restore rq ?st = Inr s2" "rx_inv rq [] s2" "rx_meta s2 = Some meta"
    "rx_session_id s2 = rx_session_id s"
    using restore_spec [of ?st rq] by (cases "restore rq ?st") auto
  then have "rx_received s2 = replicate (length (m_blocks meta)) {}" "pg_received_symbols (rx_progress s2) = 0"
    by (auto simp: rx_inv_def rx_core_def counts_ok_def map_replicate_const)
  with s2 save_state_confirmed [OF inv assms(3,2)] show ?thesis by auto
qed

text \<open>
  C36: restoring succeeds exactly for the checkpoints that validate, whatever they claim, and
  every failure is an \<open>InvalidResume\<close>.  The decoder has then been fed the first stored symbol
  of each id, in order, and only their ids count as received: a claimed id
  without a payload can still arrive.
\<close>

theorem restore_exact:
  assumes "length (re_symbols st) < 2 ^ 64"
  defines "ss \<equiv> first_symbols [] (map record_symbol (re_symbols st))"
  shows "(is_ok (restore rq st) \<longleftrightarrow> resume_ok rq st) \<and>
    (\<forall>e. restore rq st = Inl e \<longrightarrow> (\<exists>m. e = InvalidResume m)) \<and>
    (\<forall>s. restore rq st = Inr s \<longrightarrow> (\<exists>dec0. decoder_new rq (re_meta st) = Inr dec0 \<and>
       rx_decoder s = Some (foldl (feed rq) dec0 ss) \<and>
       (\<forall>i < length (m_blocks (re_meta st)). rx_received s ! i = received_in ss i)))"
proof (cases "restore rq st")
  case (Inl e)
  with restore_spec [OF assms(1), of rq] show ?thesis by (auto simp: is_ok_iff)
next
  case (Inr s)
  with restore_spec [OF assms(1), of rq] have "resume_ok rq st" "rx_inv rq ss s" "rx_meta s = Some (re_meta st)"
    by (simp_all add: ss_def)
  with Inr show ?thesis by (auto simp: is_ok_iff rx_inv_def rx_core_def)
qed

section \<open>Metadata guessed from totals\<close>

text \<open>
  The deprecated heuristic.  The upstream constructor of the transmission information is a
  parameter; \<open>as u8\<close> truncates the block count, and a count of zero makes the
  division panic, which is \<open>None\<close>.
\<close>

definition derived_k :: "u32 \<Rightarrow> u32 \<Rightarrow> nat \<Rightarrow> u32" where
  "derived_k per rem i = (if of_nat i < rem then per + 1 else per)"

definition derive_meta_from_totals ::
  "('e, 'd) raptorq \<Rightarrow> (u64 \<Rightarrow> u16 \<Rightarrow> oti) \<Rightarrow> u32 \<Rightarrow> u32 \<Rightarrow> u32 \<Rightarrow> object_meta option" where
  "derive_meta_from_totals rq oti_with_defaults total_blocks tsymbols symbol_size =
     (let nblocks = (ucast (max total_blocks 1) :: u8);
          oti = oti_with_defaults (ucast tsymbols * ucast symbol_size) (ucast symbol_size + 4);
          raw = rq_oti_serialize rq oti
      in if nblocks = 0 then None
         else
           let per = tsymbols div ucast nblocks; rem = tsymbols mod ucast nblocks in
           Some \<lparr>m_transfer_length = ucast tsymbols * ucast symbol_size, m_symbol_size = symbol_size,
             m_oti_bytes = raw,
             m_blocks = map (\<lambda>i. \<lparr>b_sbn = of_nat i, b_num_source_symbols = derived_k per rem i,
                 b_block_length = ucast (derived_k per rem i) * ucast symbol_size\<rparr>) [0..<unat nblocks]\<rparr>)"

lemma derived_split:
  assumes "0 < n" "n < 256"
  shows "(\<Sum>i<n. (if i < t mod n then t div n + 1 else t div n)) = (t :: nat)"
proof -
  have "{..<n} \<inter> {i. i < t mod n} = {..<t mod n}"
    using assms by (auto intro: less_trans [OF _ mod_less_divisor])
  then have "(\<Sum>i<n. (if i < t mod n then 1 else 0)) = t mod n"
    by (simp add: sum.If_cases)
  moreover have "(if i < t mod n then t div n + 1 else t div n) = t div n + (if i < t mod n then 1 else 0)" for i
    by simp
  ultimately have "(\<Sum>i<n. (if i < t mod n then t div n + 1 else t div n)) = n * (t div n) + t mod n"
    by (simp only: sum.distrib sum_constant card_lessThan of_nat_id)
  then show ?thesis by simp
qed

text \<open>
  The heuristic panics exactly when the block count is a positive multiple of 256;
  otherwise it splits all the symbols over canonical blocks whose sizes differ by one at most.
\<close>

lemma derive_meta_split:
  "(derive_meta_from_totals rq od tb t ss = None \<longleftrightarrow> tb \<noteq> 0 \<and> unat tb mod 256 = 0) \<and>
   (\<forall>m. derive_meta_from_totals rq od tb t ss = Some m \<longrightarrow>
      sum_symbols (m_blocks m) = unat t \<and> 0 < length (m_blocks m) \<and> length (m_blocks m) < 256 \<and>
      (\<forall>i < length (m_blocks m). b_sbn (m_blocks m ! i) = of_nat i \<and>
         unat (b_num_source_symbols (m_blocks m ! i)) \<in>
           {unat t div length (m_blocks m), unat t div length (m_blocks m) + 1}))"
proof -
  let ?n = "ucast (max tb 1) :: u8" and ?N = "unat (ucast (max tb 1) :: u8)"
  have un: "?N = unat (max tb 1) mod 256" by (simp add: unsigned_ucast_eq take_bit_eq_mod)
  have "max tb 1 = (if tb = 0 then 1 else tb)"
    by (auto simp: max_def word_le_nat_alt word_unat_eq_iff)
  then have zero: "?n = 0 \<longleftrightarrow> tb \<noteq> 0 \<and> unat tb mod 256 = 0"
    by (auto simp: word_unat_eq_iff un)
  have n256: "?N < 256" using unat_lt [of ?n] by simp
  show ?thesis
  proof (cases "?n = 0")
    case True
    with zero show ?thesis by (simp add: derive_meta_from_totals_def Let_def)
  next
    case False
    let ?per = "t div ucast ?n" and ?rem = "t mod ucast ?n"
    have N: "0 < ?N" using False by (simp add: word_unat_eq_iff)
    have u: "unat (ucast ?n :: u32) = ?N" by simp
    have pr: "unat ?per = unat t div ?N" "unat ?rem = unat t mod ?N" by (simp_all add: unat_div unat_mod u)
    have k: "unat (derived_k ?per ?rem i) = (if i < unat t mod ?N then unat t div ?N + 1 else unat t div ?N)"
      if "i < ?N" for i
    proof -
      have i: "unat (of_nat i :: u32) = i" using that n256 by (intro unat_of_nat_len) simp
      have "unat t div ?N + 1 < 2 ^ 32" if "0 < unat t mod ?N"
      proof -
        have "1 < ?N" using that N by (cases "?N = 1") auto
        then have "unat t div ?N \<le> unat t div 2" by (intro div_le_mono2) auto
        then show ?thesis using unat_lt [of t] by simp
      qed
      then have "unat (?per + 1) = unat t div ?N + 1" if "0 < unat t mod ?N"
        using that by (simp add: unat_word_ariths pr)
      then show ?thesis by (auto simp: derived_k_def word_less_nat_alt i pr)
    qed
    obtain m where m: "derive_meta_from_totals rq od tb t ss = Some m" "length (m_blocks m) = ?N"
      "\<And>i. i < ?N \<Longrightarrow> b_sbn (m_blocks m ! i) = of_nat i \<and> b_num_source_symbols (m_blocks m ! i) = derived_k ?per ?rem i"
      using False by (simp add: derive_meta_from_totals_def Let_def)
    have "sum_symbols (m_blocks m) = (\<Sum>i<?N. (if i < unat t mod ?N then unat t div ?N + 1 else unat t div ?N))"
      unfolding sum_symbols_sum m(2) by (intro sum.cong) (simp_all add: m(3) k)
    then have "sum_symbols (m_blocks m) = unat t" using derived_split [OF N n256] by simp
    then show ?thesis using m k N n256 False zero by auto
  qed
qed

end
