(* ===== verification/End_To_End.thy ===== *)
theory End_To_End
  imports Sender Receiver_Assembly
begin

text \<open>
  A sender session and a receiver session together: what the receiver does with the frames a
  sender displays, in whatever order and multiplicity the camera sees them, with frames lost and
  frames of other sessions in between.
\<close>

section \<open>The descriptor of a session is adopted\<close>

text \<open>What the host's metadata has to satisfy for receivers to accept the descriptor.\<close>

definition announce_ok :: "'e sender \<Rightarrow> bool" where
  "announce_ok s \<longleftrightarrow> (let fm = sn_file_meta s in
     utf8_valid (fm_filename fm) \<and> is_known_compression_tag (fm_compression fm) \<and>
     fm_compressed_size fm \<le> m_transfer_length (sn_meta s) \<and>
     (sn_segment_meta s = None \<longrightarrow> fm_original_size fm \<le> MAX_ORIGINAL_BYTES \<and>
        (fm_compression fm \<noteq> COMPRESSION_NONE \<longrightarrow> fm_original_size fm \<noteq> 0)))"

definition announced :: "'e sender \<Rightarrow> descriptor_info" where
  "announced s = \<lparr>di_meta = sn_meta s,
     di_file_meta = sent_file_meta (sn_meta s) (sn_file_meta s) (sn_segment_meta s),
     di_segment = sn_segment_meta s\<rparr>"

lemma checked_total_exact:
  assumes "meta_ok rq meta"
  shows "checked_total (m_blocks meta) = Some (total_symbols meta)"
proof -
  have run: "foldl (\<lambda>acc b. Option.bind acc (\<lambda>k. checked_add k (b_num_source_symbols b))) (Some a) bs =
      Some (foldl (+) a (map b_num_source_symbols bs))" if "unat a + sum_symbols bs < 2 ^ 32" for a :: u32 and bs
    using that
  proof (induction bs arbitrary: a)
    case (Cons b bs)
    then have "unat a + unat (b_num_source_symbols b) < 2 ^ 32" by simp
    then have "unat (a + b_num_source_symbols b) = unat a + unat (b_num_source_symbols b)"
      by (simp add: unat_word_ariths)
    moreover from this have "checked_add a (b_num_source_symbols b) = Some (a + b_num_source_symbols b)"
      by (simp add: checked_add_Some)
    ultimately show ?case using Cons.IH [of "a + b_num_source_symbols b"] Cons.prems by simp
  qed simp
  have "sum_symbols (m_blocks meta) \<le> 524288" using assms by (simp add: meta_ok_def)
  then show ?thesis using run [of 0 "m_blocks meta"] by (simp add: checked_total_def total_symbols_def)
qed

lemma sender_desc_wf:
  assumes up: "upstream_ok rq" and inv: "sender_static rq data s" and dg: "digests_ok s"
    and len: "length data \<le> 33554432" and an: "announce_ok s"
  shows "desc_wf (sn_meta s) (sn_file_meta s) (sn_segment_meta s)"
proof -
  from inv have enc: "encoder_new rq data (sc_codec (sn_config s)) = Inr (sn_encoder s)" "sn_meta s = enc_meta (sn_encoder s)"
    and ok: "meta_ok rq (sn_meta s)" by (auto simp: sender_static_def)
  obtain mtu oti bs pad where "built_from rq data (sn_encoder s) mtu oti bs pad"
    using up enc(1) len encoder_new_facts unfolding upstream_ok_def by metis
  then have "length (m_oti_bytes (sn_meta s)) = 12" by (auto simp: built_from_def enc(2) from_encoder_def)
  moreover have "length (m_blocks (sn_meta s)) < 65536" using ok by (simp add: meta_ok_def)
  ultimately show ?thesis using dg an by (auto simp: desc_wf_def digests_ok_def announce_ok_def Let_def)
qed

lemma sent_descriptor:
  assumes up: "upstream_ok rq" and inv: "sender_static rq data s" and dg: "digests_ok s"
    and len: "length data \<le> 33554432" and an: "announce_ok s" and f: "sent_frame rq crc s f" "\<not> is_data f"
  shows "parse_payload (fr_payload f) = Some (announced s) \<and> \<not> descriptor_rejected rq f (announced s) \<and>
    fh_flags (fr_header f) = FLAG_DESCRIPTOR"
proof -
  let ?fm = "sent_file_meta (sn_meta s) (sn_file_meta s) (sn_segment_meta s)"
  have fl: "fh_flags (fr_header f) = FLAG_DESCRIPTOR"
    and p: "build_payload_inner (sn_meta s) (sn_file_meta s) (sn_segment_meta s) = Inr (fr_payload f)"
    using f by (auto simp: sent_frame_def is_data_def split: if_splits)
  have ok: "meta_ok rq (sn_meta s)" using inv unfolding sender_static_def by blast
  have "parse_payload (fr_payload f) = Some (announced s)"
    using parse_build [OF sender_desc_wf [OF up inv dg len an] p] by (simp add: announced_def)
  moreover have "\<not> frame_geometry_invalid f (sn_meta s)"
    using f(1) checked_total_exact [OF ok] by (simp add: frame_geometry_invalid_def sent_frame_def)
  moreover have "\<not> file_meta_invalid (announced s)"
    using an by (auto simp: file_meta_invalid_def announced_def sent_file_meta_def announce_ok_def Let_def)
  moreover have "\<not> segment_invalid f (announced s)"
  proof (cases "sn_segment_meta s")
    case None
    then show ?thesis by (simp add: segment_invalid_def announced_def)
  next
    case (Some seg)
    then have "segment_ok seg (sn_session_id s) (sn_file_meta s)"
      using inv by (simp add: sender_static_def segment_validate_ok)
    then have "segment_ok seg (sn_session_id s) ?fm" by (simp add: segment_ok_def sent_file_meta_def Let_def)
    then have "segment_validate seg (sn_session_id s) ?fm = Inr ()" by (simp add: segment_validate_ok)
    with Some f(1) show ?thesis by (simp add: segment_invalid_def announced_def sent_frame_def is_ok_iff)
  qed
  moreover have "is_ok (meta_validate rq (sn_meta s))" using ok by (simp add: meta_validate_iff [THEN iffD2])
  ultimately show ?thesis using fl by (simp add: descriptor_rejected_def) (simp add: announced_def)
qed

section \<open>A receiver watching one sender\<close>

text \<open>A frame with valid checksums that is of another session, or was sent by this one.\<close>

definition trusted :: "('e, 'd) raptorq \<Rightarrow> (bytes \<Rightarrow> u32) \<Rightarrow> 'e sender \<Rightarrow> frame \<Rightarrow> bool" where
  "trusted rq crc s f \<longleftrightarrow> frame_valid crc f \<and>
     (fh_session_id (fr_header f) \<noteq> sn_session_id s \<or> sent_frame rq crc s f)"

text \<open>
  \<open>follows\<close>: the session is of this sender, its log and its cache hold symbols of this sender only, and
  once it has read a descriptor it shows what the sender announced.  A session that started without
  metadata is moreover \<open>watching\<close>: whenever it knows the metadata it has read a descriptor.  A session
  restored from a checkpoint follows without watching.
\<close>

definition follows :: "('e, 'd) raptorq \<Rightarrow> 'e sender \<Rightarrow> symbol list \<Rightarrow> 'd receiver \<Rightarrow> bool" where
  "follows rq s ss rx \<longleftrightarrow>
     rx_inv rq ss rx \<and> rx_session_id rx = sn_session_id s \<and>
     (rx_meta rx = None \<or> rx_meta rx = Some (sn_meta s)) \<and>
     (rx_descriptor_seen rx \<longrightarrow> rx_meta rx \<noteq> None \<and>
        rx_file_meta rx = di_file_meta (announced s) \<and> rx_segment_meta rx = sn_segment_meta s) \<and>
     (\<forall>x \<in> set ss. genuine rq (sn_encoder s) x) \<and>
     (\<forall>e \<in> set (rx_symbol_cache rx). genuine rq (sn_encoder s) (entry_symbol e))"

definition watching :: "('e, 'd) raptorq \<Rightarrow> 'e sender \<Rightarrow> symbol list \<Rightarrow> 'd receiver \<Rightarrow> bool" where
  "watching rq s ss rx \<longleftrightarrow> follows rq s ss rx \<and> (rx_meta rx \<noteq> None \<longrightarrow> rx_descriptor_seen rx)"

lemma watching_pending: "sid = sn_session_id s \<Longrightarrow> watching rq s [] (new_pending sid)"
  by (simp add: watching_def follows_def rx_inv_new_pending) (simp add: new_pending_def receiver_build_def)

lemma watching_follows: "watching rq s ss rx \<Longrightarrow> follows rq s ss rx"
  by (simp add: watching_def)

lemma assembled_meta: "follows rq s ss rx \<Longrightarrow> assemble_raw rx = Some d \<Longrightarrow> rx_meta rx \<noteq> None"
  by (auto simp: follows_def rx_inv_def assemble_raw_def split: option.splits)

text \<open>What a watching session that holds an object shows of it.\<close>

lemma watching_header:
  assumes "watching rq s ss rx" "assemble_raw rx = Some d"
  shows "rx_file_meta rx = di_file_meta (announced s)" "rx_segment_meta rx = sn_segment_meta s"
    "rx_session_id rx = sn_session_id s" "rx_descriptor_seen rx"
proof -
  show seen: "rx_descriptor_seen rx"
    using assms(1) assembled_meta [OF watching_follows [OF assms(1)] assms(2)] by (simp add: watching_def)
  have "follows rq s ss rx" using assms(1) by (rule watching_follows)
  with seen show "rx_file_meta rx = di_file_meta (announced s)" "rx_segment_meta rx = sn_segment_meta s"
    "rx_session_id rx = sn_session_id s" unfolding follows_def by blast+
qed

lemma valid_length: "frame_valid crc f \<Longrightarrow> length (fr_payload f) < 2 ^ 32"
  using unat_lt [of "fh_symbol_size (fr_header f)"] by (simp add: frame_valid_def)

lemma sent_symbol:
  "sent_frame rq crc s f \<Longrightarrow> is_data f \<Longrightarrow> genuine rq (sn_encoder s) (symbol_of f)"
  by (simp add: sent_frame_def is_data_def symbol_of_def FLAG_DESCRIPTOR_def)

lemma usable_entries_set: "x \<in> set (usable_entries meta cache) \<Longrightarrow> \<exists>e \<in> set cache. x = entry_symbol e"
  by (auto simp: usable_entries_def)

text \<open>A data frame says nothing about the file.\<close>

lemma ingest_pending_header:
  "ingest_pending f s = (s', r) \<Longrightarrow> rx_descriptor_seen s' = rx_descriptor_seen s \<and>
     rx_file_meta s' = rx_file_meta s \<and> rx_segment_meta s' = rx_segment_meta s"
  by (auto simp: ingest_pending_def Let_def count_corrupt_def count_duplicate_def split: if_splits)

lemma data_header:
  assumes inv: "rx_inv rq ss rx" and len: "length (fr_payload f) < 2 ^ 32"
    and i: "ingest rq ord f rx = (rx', r)" and fl: "\<not> fh_flags (fr_header f) AND FLAG_DESCRIPTOR \<noteq> 0"
    and sid: "fh_session_id (fr_header f) = rx_session_id rx"
  shows "rx_descriptor_seen rx' = rx_descriptor_seen rx \<and> rx_file_meta rx' = rx_file_meta rx \<and>
    rx_segment_meta rx' = rx_segment_meta rx"
proof (cases "rx_meta rx")
  case None
  then have "ingest_pending f (begin_frame rx) = (rx', r)"
    using i fl sid rx_inv_confirmed [OF inv] by (simp add: ingest_def Let_def)
  from ingest_pending_header [OF this] show ?thesis by simp
next
  case (Some meta)
  then have "ingest_symbol rq f (begin_frame rx) = (rx', r)"
    using i fl sid rx_inv_confirmed [OF inv] by (simp add: ingest_def Let_def)
  from ingest_symbol_step [OF rx_inv_counters(3) [OF inv] _ len this] Some show ?thesis
    by (simp add: same_header_def)
qed

lemma follows_step:
  assumes up: "upstream_ok rq" and st: "sender_static rq data s" and dg: "digests_ok s"
    and len: "length data \<le> 33554432" and an: "announce_ok s"
    and w: "follows rq s ss rx" and f: "trusted rq crc s f" and ord: "\<And>xs. mset (ord xs) = mset xs"
    and i: "ingest rq ord f rx = (rx', r)"
  shows "follows rq s (log_step rq ord f rx ss) rx' \<and>
    (rx_meta rx = None \<and> rx_meta rx' \<noteq> None \<longrightarrow> rx_descriptor_seen rx') \<and>
    (fh_session_id (fr_header f) = sn_session_id s \<and> \<not> is_data f \<longrightarrow> rx_descriptor_seen rx')"
proof -
  have inv: "rx_inv rq ss rx" and sid: "rx_session_id rx = sn_session_id s" using w by (auto simp: follows_def)
  have l: "length (fr_payload f) < 2 ^ 32" using f valid_length [of crc f] by (simp add: trusted_def)
  note I = ingest_step [OF inv ord l i] and C = cache_step [OF inv ord l i]
  show ?thesis
  proof (cases "fh_session_id (fr_header f) = rx_session_id rx")
    case False
    then have "log_step rq ord f rx ss = ss" "rx_meta rx' = rx_meta rx" "rx_descriptor_seen rx' = rx_descriptor_seen rx"
      "rx_file_meta rx' = rx_file_meta rx" "rx_segment_meta rx' = rx_segment_meta rx" "rx_symbol_cache rx' = rx_symbol_cache rx"
      using i by (auto simp: ingest_def Let_def log_step_def)
    with w I sid False show ?thesis by (auto simp: follows_def keeps_def)
  next
    case True
    then have sent: "sent_frame rq crc s f" using f sid by (simp add: trusted_def)
    have sid': "rx_session_id rx' = sn_session_id s" using I sid by (simp add: keeps_def)
    show ?thesis
    proof (cases "is_data f")
      case data: True
      then have fl: "\<not> fh_flags (fr_header f) AND FLAG_DESCRIPTOR \<noteq> 0" by (simp add: is_data_def)
      note g = sent_symbol [OF sent data]
      have "\<forall>x \<in> set (log_step rq ord f rx ss). genuine rq (sn_encoder s) x"
        using w g fl True by (auto simp: log_step_def follows_def split: option.splits)
      moreover have "\<forall>e \<in> set (rx_symbol_cache rx'). genuine rq (sn_encoder s) (entry_symbol e)"
        using C w g by (auto simp: follows_def symbol_of_def)
      moreover have none: "rx_meta rx' = None" if "rx_meta rx = None"
      proof -
        have "ingest_pending f (begin_frame rx) = (rx', r)"
          using i True fl rx_inv_confirmed [OF inv] that by (simp add: ingest_def Let_def)
        then show ?thesis using ingest_pending_step [OF rx_inv_counters(3) [OF inv]] that by simp
      qed
      moreover have "rx_descriptor_seen rx' = rx_descriptor_seen rx \<and> rx_file_meta rx' = rx_file_meta rx \<and>
          rx_segment_meta rx' = rx_segment_meta rx"
        using data_header [OF inv l i fl True] .
      ultimately show ?thesis using I w sid' data by (auto simp: follows_def keeps_def)
    next
      case False
      have fl: "fh_flags (fr_header f) AND FLAG_DESCRIPTOR \<noteq> 0" and p: "parse_payload (fr_payload f) = Some (announced s)"
        and nr: "\<not> descriptor_rejected rq f (announced s)"
        using sent_descriptor [OF up st dg len an sent False] by (simp_all add: FLAG_DESCRIPTOR_def)
      have d: "ingest_descriptor rq ord f (begin_frame rx) = (rx', r)" using i True fl by (simp add: ingest_def Let_def)
      note D = ingest_descriptor_step [OF rx_inv_counters(3) [OF inv] ord d]
      show ?thesis
      proof (cases "rx_meta rx")
        case None
        then have "adopts rq f rx = Some (announced s)" by (simp add: adopts_def p nr)
        then have log: "log_step rq ord f rx ss = usable_entries (sn_meta s) (ord (rx_symbol_cache rx))"
          and D': "rx_meta rx' = Some (sn_meta s)" "rx_descriptor_seen rx'" "rx_file_meta rx' = di_file_meta (announced s)"
            "rx_segment_meta rx' = sn_segment_meta s"
          using D True fl by (auto simp: log_step_def) (simp_all add: announced_def)
        have "set (ord (rx_symbol_cache rx)) = set (rx_symbol_cache rx)"
          using ord by (metis set_mset_mset)
        then have "\<forall>x \<in> set (log_step rq ord f rx ss). genuine rq (sn_encoder s) x"
          using w by (auto simp: log follows_def dest!: usable_entries_set)
        moreover have "rx_symbol_cache rx' = []" using I D'(1) by (simp add: rx_inv_def)
        ultimately show ?thesis using I D' sid' by (simp add: follows_def)
      next
        case (Some m)
        then have "log_step rq ord f rx ss = ss" using True fl by (simp add: log_step_def adopts_def p)
        moreover have "rx_symbol_cache rx' = []"
          using I Some by (auto simp: keeps_def rx_inv_def split: option.splits)
        moreover have "rx_descriptor_seen rx' \<and> rx_file_meta rx' = di_file_meta (announced s) \<and>
            rx_segment_meta rx' = sn_segment_meta s"
        proof (cases "rx_descriptor_seen rx")
          case True
          then show ?thesis using w I by (auto simp: follows_def keeps_def)
        next
          case False
          moreover have "m = di_meta (announced s)" using w Some by (simp add: follows_def announced_def)
          ultimately have "rx' = adopt_descriptor (announced s) (begin_frame rx)"
            using d p nr Some by (simp add: ingest_descriptor_def finish_def)
          then show ?thesis by (simp add: adopt_descriptor_def) (simp add: announced_def)
        qed
        ultimately show ?thesis using I w Some sid' by (auto simp: follows_def keeps_def)
      qed
    qed
  qed
qed

lemma follows_all:
  assumes "upstream_ok rq" "sender_static rq data s" "digests_ok s" "length data \<le> 33554432" "announce_ok s"
    and "\<And>xs. mset (ord xs) = mset xs" "follows rq s ss rx" "\<And>f. f \<in> set fs \<Longrightarrow> trusted rq crc s f"
  shows "follows rq s (log_run rq ord rx ss fs) (ingest_all rq ord rx fs)"
  using assms(7,8)
proof (induction fs arbitrary: ss rx)
  case (Cons f fs)
  obtain rx' r where i: "ingest rq ord f rx = (rx', r)" by (cases "ingest rq ord f rx")
  have "trusted rq crc s f" using Cons.prems(2) by simp
  from follows_step [OF assms(1-5) Cons.prems(1) this assms(6) i] Cons.IH Cons.prems(2) i show ?case by simp
qed simp

lemma watching_step:
  assumes up: "upstream_ok rq" and st: "sender_static rq data s" and dg: "digests_ok s"
    and len: "length data \<le> 33554432" and an: "announce_ok s"
    and w: "watching rq s ss rx" and f: "trusted rq crc s f" and ord: "\<And>xs. mset (ord xs) = mset xs"
    and i: "ingest rq ord f rx = (rx', r)"
  shows "watching rq s (log_step rq ord f rx ss) rx'"
proof -
  have "rx_inv rq ss rx" using w by (simp add: watching_def follows_def)
  moreover have "length (fr_payload f) < 2 ^ 32" using f valid_length [of crc f] by (simp add: trusted_def)
  ultimately have "keeps rx rx'" using ingest_step [OF _ ord _ i] by blast
  with follows_step [OF up st dg len an watching_follows [OF w] f ord i] w show ?thesis
    by (auto simp: watching_def keeps_def)
qed

lemma watching_all:
  assumes "upstream_ok rq" "sender_static rq data s" "digests_ok s" "length data \<le> 33554432" "announce_ok s"
    and "\<And>xs. mset (ord xs) = mset xs" "watching rq s ss rx" "\<And>f. f \<in> set fs \<Longrightarrow> trusted rq crc s f"
  shows "watching rq s (log_run rq ord rx ss fs) (ingest_all rq ord rx fs)"
  using assms(7,8)
proof (induction fs arbitrary: ss rx)
  case (Cons f fs)
  obtain rx' r where i: "ingest rq ord f rx = (rx', r)" by (cases "ingest rq ord f rx")
  have "trusted rq crc s f" using Cons.prems(2) by simp
  from watching_step [OF assms(1-5) Cons.prems(1) this assms(6) i] Cons.IH Cons.prems(2) i show ?case by simp
qed simp

section \<open>What is assembled\<close>

lemma follows_decoder:
  assumes st: "sender_static rq data s" and w: "follows rq s ss rx" and m: "rx_meta rx \<noteq> None"
  obtains dec0 where "decoder_new rq (enc_meta (sn_encoder s)) = Inr dec0"
    "rx_decoder rx = Some (foldl (feed rq) dec0 ss)" "\<And>x. x \<in> set ss \<Longrightarrow> genuine rq (sn_encoder s) x"
proof -
  have "sn_meta s = enc_meta (sn_encoder s)" using st by (simp add: sender_static_def)
  with w m obtain dec0 where "decoder_new rq (enc_meta (sn_encoder s)) = Inr dec0"
    "rx_decoder rx = Some (foldl (feed rq) dec0 ss)" "\<forall>x \<in> set ss. genuine rq (sn_encoder s) x"
    by (auto simp: follows_def rx_inv_def rx_core_def)
  then show thesis by (intro that) blast+
qed

lemma follows_assemble:
  assumes up: "upstream_ok rq" and st: "sender_static rq data s" and len: "length data \<le> 33554432"
    and w: "follows rq s ss rx"
  shows "assemble_raw rx \<in> {None, Some data}"
proof (cases "rx_meta rx")
  case None
  then have "rx_decoder rx = None" using w by (simp add: follows_def rx_inv_def)
  then show ?thesis by (simp add: assemble_raw_def)
next
  case (Some m)
  then have "rx_meta rx \<noteq> None" by simp
  then obtain dec0 where d: "decoder_new rq (enc_meta (sn_encoder s)) = Inr dec0"
    "rx_decoder rx = Some (foldl (feed rq) dec0 ss)" "\<And>x. x \<in> set ss \<Longrightarrow> genuine rq (sn_encoder s) x"
    using follows_decoder [OF st w] by blast
  have "encoder_new rq data (sc_codec (sn_config s)) = Inr (sn_encoder s)" using st by (simp add: sender_static_def)
  then have "decoder_assemble (foldl (feed rq) dec0 ss) \<in> {None, Some data}"
    using up len d(1,3) unfolding upstream_ok_def by (intro feed_never_wrong) auto
  then show ?thesis by (simp add: assemble_raw_def d(2))
qed

text \<open>What the host gets out: the payload, or its decompression to the announced size.\<close>

definition delivers :: "codecs \<Rightarrow> file_meta \<Rightarrow> bytes \<Rightarrow> bytes \<Rightarrow> bool" where
  "delivers cx fm payload v \<longleftrightarrow>
     (if fm_compression fm = COMPRESSION_NONE then v = payload
      else (fm_original_size fm \<noteq> 0 \<longrightarrow> length v = unat (fm_original_size fm)) \<and>
        (\<exists>r. decoder_for cx (fm_compression fm) payload = Inr r \<and> rd_end r = None \<and> v = concat (rd_chunks r)))"

lemma assembled_delivers:
  assumes "fm_compressed_size fm = of_nat (length payload)" "length payload < 2 ^ 64"
    and "fm_compressed_size_known fm" "take (length payload) padded = payload"
    and "assembled cx fm padded v"
  shows "delivers cx fm payload v"
proof -
  have "unat (fm_compressed_size fm) = length payload" using assms(1,2) by (simp add: unat_of_nat_len)
  then have "trimmed fm padded = payload" using assms(3,4) by (simp add: trimmed_def)
  with assms(5) show ?thesis by (auto simp: assembled_def delivers_def split: if_splits)
qed

lemma delivers_announced [simp]:
  "delivers cx (di_file_meta (announced s)) payload v = delivers cx (sn_file_meta s) payload v"
  by (simp add: delivers_def announced_def sent_file_meta_def)

lemma watching_delivers:
  assumes up: "upstream_ok rq" and new: "sender_new rq payload sid cfg fm = Inr s"
    and len: "length (pad_to_symbols payload (sc_codec cfg)) \<le> 33554432"
    and size: "fm_compressed_size fm = of_nat (length payload)" and w: "watching rq s ss rx"
    and a: "assemble_result cx rx = (rx', Inr (Some v))"
  shows "delivers cx fm payload v"
proof -
  let ?data = "pad_to_symbols payload (sc_codec cfg)"
  note N = sender_new_inv [OF up new len]
  then have st: "sender_static rq ?data s" by (simp add: sender_inv_def)
  from assemble_spec [OF a] obtain padded where p: "assemble_raw rx = Some padded"
    "assembled cx (rx_file_meta rx) padded v" by auto
  have pd: "padded = ?data" using follows_assemble [OF up st len watching_follows [OF w]] p(1) by simp
  note fm = watching_header(1) [OF w p(1)]
  have "length payload < 2 ^ 64" using len length_pad_ge [of payload "sc_codec cfg"] by simp
  then have "delivers cx (rx_file_meta rx) payload v"
    using p(2) size N(8) unfolding fm pd
    by (intro assembled_delivers) (auto simp: announced_def sent_file_meta_def)
  then show ?thesis using N(8) by (simp add: fm)
qed

text \<open>The frames a host recovers from what the camera read.\<close>

definition received_frames :: "(bytes \<Rightarrow> u32) \<Rightarrow> bytes list \<Rightarrow> frame list" where
  "received_frames crc bss = concat (map (\<lambda>bs. case frame_from_bytes crc bs of Inr f \<Rightarrow> [f] | Inl _ \<Rightarrow> []) bss)"

lemma received_trusted:
  assumes sent: "\<And>f. f \<in> set fs \<Longrightarrow> sent_frame rq crc s f" and f: "f \<in> set (received_frames crc bss)"
    and read: "\<And>bs f. bs \<in> set bss \<Longrightarrow> frame_from_bytes crc bs = Inr f \<Longrightarrow>
      fh_session_id (fr_header f) = sn_session_id s \<Longrightarrow> bs \<in> frame_to_bytes ` set fs"
  shows "trusted rq crc s f"
proof -
  from f obtain bs where bs: "bs \<in> set bss" "frame_from_bytes crc bs = Inr f"
    by (auto simp: received_frames_def split: sum.splits)
  then have v: "frame_valid crc f" "bs = frame_to_bytes f" using frames.dec_exact by auto
  show ?thesis
  proof (cases "fh_session_id (fr_header f) = sn_session_id s")
    case True
    then obtain g where g: "g \<in> set fs" "bs = frame_to_bytes g" using read bs by blast
    then have "frame_valid crc g" using sent by (simp add: sent_frame_def)
    from frames.enc_inj [OF v(1) this] have "f = g" using v(2) g(2) by simp
    with v g(1) sent show ?thesis by (simp add: trusted_def)
  qed (use v in \<open>simp add: trusted_def\<close>)
qed

text \<open>
  C2: a host never gets wrong data.  Whatever part of a session's frames the camera reads, in
  whatever order, however often, mixed with damaged frames and frames of other sessions, an
  assembly that succeeds returns exactly the payload that was sent, or its decompression
  to the announced size.  The one assumption on the camera is that bytes which pass
  the checksums under this session id were displayed.
\<close>

theorem transfer_never_wrong:
  assumes "upstream_ok rq" "sender_new rq payload sid cfg fm = Inr s"
    and "length (pad_to_symbols payload (sc_codec cfg)) \<le> 33554432"
    and "announce_ok s" "fm_compressed_size fm = of_nat (length payload)"
    and "sender_run rq crc s fs s'" "\<And>xs. mset (ord xs) = mset xs"
    and "\<And>bs f. bs \<in> set bss \<Longrightarrow> frame_from_bytes crc bs = Inr f \<Longrightarrow>
      fh_session_id (fr_header f) = sid \<Longrightarrow> bs \<in> frame_to_bytes ` set fs"
    and "assemble_result cx (ingest_all rq ord (new_pending sid) (received_frames crc bss)) = (rx, Inr (Some v))"
  shows "delivers cx fm payload v"
proof -
  note N = sender_new_inv [OF assms(1-3)]
  then have st: "sender_static rq (pad_to_symbols payload (sc_codec cfg)) s" by (simp add: sender_inv_def)
  have sent: "f \<in> set fs \<Longrightarrow> sent_frame rq crc s f" for f
    using sender_run_positions [OF assms(6,1) N(1,2) assms(3)] by blast
  have tr: "f \<in> set (received_frames crc bss) \<Longrightarrow> trusted rq crc s f" for f
    using received_trusted [of fs rq crc s f bss] sent assms(8) N(3) by blast
  from watching_all [OF assms(1) st N(2) assms(3,4,7) watching_pending [OF N(3) [symmetric]] tr]
  show ?thesis using watching_delivers [OF assms(1-3,5) _ assms(9)] by blast
qed

section \<open>Completion\<close>

text \<open>A sent data frame that reaches a session with metadata is logged, unless it is complete.\<close>

lemma data_logged:
  assumes w: "follows rq s ss rx" and st: "sender_static rq data s" and m: "rx_meta rx \<noteq> None"
    and f: "sent_frame rq crc s f" "is_data f"
    and id: "unat (fh_sbn (fr_header f)) < length (m_blocks (sn_meta s))" "unat (fh_esi (fr_header f)) < 16777216"
  shows "receiver_is_complete rx \<or> sym_id (symbol_of f) \<in> sym_id ` set (log_step rq ord f rx ss)"
proof -
  from m w have meta: "rx_meta rx = Some (sn_meta s)" and sid: "rx_session_id rx = sn_session_id s"
    by (auto simp: follows_def)
  have "length (fr_payload f) = unat (m_symbol_size (sn_meta s))" using f(1) by (simp add: sent_frame_def frame_valid_def)
  then have "fits (sn_meta s) (symbol_of f)" using id by (simp add: fits_def symbol_of_def)
  moreover have "\<not> fh_flags (fr_header f) AND FLAG_DESCRIPTOR \<noteq> 0" using f(2) by (simp add: is_data_def)
  moreover have "fh_session_id (fr_header f) = rx_session_id rx" using f(1) sid by (simp add: sent_frame_def)
  ultimately show ?thesis using meta by (auto simp: log_step_def)
qed

lemma follows_collects:
  assumes up: "upstream_ok rq" and st: "sender_static rq data s" and dg: "digests_ok s"
    and len: "length data \<le> 33554432" and an: "announce_ok s" and ord: "\<And>xs. mset (ord xs) = mset xs"
    and w: "follows rq s ss rx" and m: "rx_meta rx \<noteq> None" and tr: "\<And>f. f \<in> set fs \<Longrightarrow> trusted rq crc s f"
    and f: "f \<in> set fs" "sent_frame rq crc s f" "is_data f"
    and id: "unat (fh_sbn (fr_header f)) < length (m_blocks (sn_meta s))" "unat (fh_esi (fr_header f)) < 16777216"
  shows "receiver_is_complete (ingest_all rq ord rx fs) \<or>
    sym_id (symbol_of f) \<in> sym_id ` set (log_run rq ord rx ss fs)"
  using w m tr f(1)
proof (induction fs arbitrary: ss rx)
  case (Cons g fs)
  have inv: "rx_inv rq ss rx" using Cons.prems(1) by (simp add: follows_def)
  obtain rx' r where i: "ingest rq ord g rx = (rx', r)" by (cases "ingest rq ord g rx")
  have tg: "trusted rq crc s g" using Cons.prems(3) by simp
  note w' = follows_step [OF up st dg len an Cons.prems(1) tg ord i, THEN conjunct1]
  have lg: "length (fr_payload h) < 2 ^ 32" if "h \<in> set (g # fs)" for h
    using Cons.prems(3) [OF that] valid_length [of crc h] by (simp add: trusted_def)
  then have "keeps rx rx'" using ingest_step [OF inv ord _ i] by simp
  then have m': "rx_meta rx' \<noteq> None" using Cons.prems(2) by (auto simp: keeps_def)
  show ?case
  proof (cases "f \<in> set fs")
    case True
    with Cons.IH [OF w' m'] Cons.prems(3) i show ?thesis by simp
  next
    case False
    then have g: "g = f" using Cons.prems(4) by simp
    from data_logged [OF Cons.prems(1) st Cons.prems(2) f(2,3) id, of ord] show ?thesis
    proof
      assume "receiver_is_complete rx"
      from complete_stays [OF inv this ord, of "g # fs"] lg show ?thesis by simp
    next
      assume l: "sym_id (symbol_of f) \<in> sym_id ` set (log_step rq ord f rx ss)"
      have inv': "rx_inv rq (log_step rq ord g rx ss) rx'" using w' by (simp add: follows_def)
      obtain xs where "log_run rq ord rx' (log_step rq ord g rx ss) fs = log_step rq ord g rx ss @ xs"
        using log_grows [OF inv' m' ord, of fs] lg by auto
      with l show ?thesis using i by (auto simp: g)
    qed
  qed
qed simp

text \<open>Every source symbol of the object is among the frames.\<close>

definition covers :: "'e sender \<Rightarrow> frame list \<Rightarrow> bool" where
  "covers s fs \<longleftrightarrow> (\<forall>sbn esi. unat sbn < length (m_blocks (sn_meta s)) \<and>
     unat esi < unat (b_num_source_symbols (m_blocks (sn_meta s) ! unat sbn)) \<longrightarrow>
     (\<exists>f \<in> set fs. is_data f \<and> data_id f = (sbn, esi)))"

lemma follows_completes:
  assumes up: "upstream_ok rq" and st: "sender_static rq data s" and dg: "digests_ok s"
    and len: "length data \<le> 33554432" and an: "announce_ok s" and ord: "\<And>xs. mset (ord xs) = mset xs"
    and w: "follows rq s ss rx" and m: "rx_meta rx \<noteq> None" and tr: "\<And>f. f \<in> set fs \<Longrightarrow> trusted rq crc s f"
    and gs: "set gs \<subseteq> set fs" "\<And>f. f \<in> set gs \<Longrightarrow> sent_frame rq crc s f" "covers s gs"
  shows "receiver_is_complete (ingest_all rq ord rx fs) \<and> assemble_raw (ingest_all rq ord rx fs) = Some data"
proof -
  let ?rx = "ingest_all rq ord rx fs" and ?ss = "log_run rq ord rx ss fs" and ?enc = "sn_encoder s"
  have w': "follows rq s ?ss ?rx" by (rule follows_all [OF up st dg len an ord w tr])
  have inv: "rx_inv rq ss rx" using w by (simp add: follows_def)
  have lg: "length (fr_payload h) < 2 ^ 32" if "h \<in> set fs" for h
    using tr [OF that] valid_length [of crc h] by (simp add: trusted_def)
  have "keeps rx ?rx" using ingest_all_inv [OF inv ord, of fs] lg by simp
  then have m': "rx_meta ?rx \<noteq> None" using m by (auto simp: keeps_def)
  obtain dec0 where d: "decoder_new rq (enc_meta ?enc) = Inr dec0"
    "rx_decoder ?rx = Some (foldl (feed rq) dec0 ?ss)" "\<And>x. x \<in> set ?ss \<Longrightarrow> genuine rq ?enc x"
    using follows_decoder [OF st w' m'] by blast
  have enc: "encoder_new rq data (sc_codec (sn_config s)) = Inr ?enc" "sn_meta s = enc_meta ?enc"
    and ok: "plan_ok (m_blocks (sn_meta s))"
    using st plan_ok_meta by (auto simp: sender_static_def meta_ok_def)
  have comp: "receiver_is_complete ?rx"
  proof (rule ccontr)
    assume nc: "\<not> receiver_is_complete ?rx"
    have all: "\<exists>x \<in> set ?ss. unat (sid_sbn (sym_id x)) = i \<and> sid_esi (sym_id x) = of_nat k"
      if i: "i < num_blocks ?enc" and k: "k < unat (block_k ?enc (of_nat i))" for i k
    proof -
      have n: "num_blocks ?enc = length (m_blocks (sn_meta s))"
        using up enc len encoder_new_facts unfolding upstream_ok_def
        by (metis (no_types, lifting) built_from_def enc(2) from_encoder_simps(4) length_map num_blocks_def)
      have iu: "unat (of_nat i :: u32) = i" using i n ok by (intro unat_of_nat_len) (simp add: plan_ok_def)
      have K: "block_k ?enc (of_nat i) = b_num_source_symbols (m_blocks (sn_meta s) ! i)"
        by (simp add: block_k_def iu enc(2))
      have "unat (block_k ?enc (of_nat i)) \<le> 56403" using i n ok by (simp add: K plan_ok_def)
      then have ku: "unat (of_nat k :: u32) = k" "k < 16777216" using k by (simp_all add: unat_of_nat_len)
      obtain f where f: "f \<in> set gs" "is_data f" "data_id f = (of_nat i, of_nat k)"
        using gs(3) [unfolded covers_def, rule_format, of "of_nat i" "of_nat k"] i k n by (auto simp: iu ku K)
      then have "sym_id (symbol_of f) \<in> sym_id ` set ?ss"
        using follows_collects [OF up st dg len an ord w m tr, of fs f] gs f nc i n ku iu
        by (auto simp: data_id_def)
      then obtain x where "sym_id (symbol_of f) = sym_id x" "x \<in> set ?ss" by (rule imageE)
      then show ?thesis using f(3) iu
        by (intro bexI [of _ x]) (simp_all add: symbol_of_def data_id_def flip: \<open>sym_id (symbol_of f) = sym_id x\<close>)
    qed
    have "decoder_is_complete (foldl (feed rq) dec0 ?ss)"
      using feed_roundtrip [OF _ _ enc(1) len d(1,3) all] up by (simp add: upstream_ok_def)
    with nc d(2) show False by (simp add: receiver_is_complete_def)
  qed
  then have "assemble_raw ?rx \<noteq> None" using d(2) by (simp add: assemble_raw_def receiver_is_complete_def decoder_assemble_def)
  with comp follows_assemble [OF up st len w'] show ?thesis by auto
qed

lemma after_descriptor:
  assumes up: "upstream_ok rq" and st: "sender_static rq data s" and dg: "digests_ok s"
    and len: "length data \<le> 33554432" and an: "announce_ok s" and ord: "\<And>xs. mset (ord xs) = mset xs"
    and w: "follows rq s ss rx" and d: "sent_frame rq crc s d" "\<not> is_data d"
  shows "\<exists>ss'. watching rq s ss' (fst (ingest rq ord d rx)) \<and> rx_meta (fst (ingest rq ord d rx)) \<noteq> None"
proof -
  obtain rx' r where i: "ingest rq ord d rx = (rx', r)" by (cases "ingest rq ord d rx")
  have inv: "rx_inv rq ss rx" and sid: "rx_session_id rx = sn_session_id s" using w by (auto simp: follows_def)
  have tr: "trusted rq crc s d" using d(1) by (simp add: trusted_def sent_frame_def)
  then have l: "length (fr_payload d) < 2 ^ 32" using valid_length [of crc d] by (simp add: trusted_def)
  have "fh_flags (fr_header d) AND FLAG_DESCRIPTOR \<noteq> 0" "parse_payload (fr_payload d) = Some (announced s)"
    "\<not> descriptor_rejected rq d (announced s)" "fh_session_id (fr_header d) = rx_session_id rx"
    using sent_descriptor [OF up st dg len an d] d(1) sid by (simp_all add: FLAG_DESCRIPTOR_def sent_frame_def)
  then have "rx_meta rx' \<noteq> None"
    using ingest_descriptor_step [OF rx_inv_counters(3) [OF inv] ord, of d rx' r] i ingest_step [OF inv ord l i]
    by (cases "rx_meta rx") (auto simp: ingest_def Let_def adopts_def keeps_def)
  with follows_step [OF up st dg len an w tr ord i] i d show ?thesis by (auto simp: watching_def sent_frame_def)
qed

text \<open>What a complete session yields when the payload is announced truthfully.\<close>

lemma complete_payload:
  assumes up: "upstream_ok rq" and new: "sender_new rq payload sid cfg fm = Inr s"
    and len: "length (pad_to_symbols payload (sc_codec cfg)) \<le> 33554432"
    and size: "fm_compressed_size fm = of_nat (length payload)" and w: "watching rq s ss rx"
    and raw: "assemble_raw rx = Some (pad_to_symbols payload (sc_codec cfg))"
    and none: "fm_compression fm = COMPRESSION_NONE"
  shows "\<exists>rx'. assemble_result cx rx = (rx', Inr (Some payload))"
proof -
  let ?data = "pad_to_symbols payload (sc_codec cfg)"
  obtain rx' r where a: "assemble_result cx rx = (rx', r)" by (cases "assemble_result cx rx")
  note N = sender_new_inv [OF up new len]
  note fm = watching_header(1) [OF w raw]
  have lp: "length payload \<le> length ?data" by (rule length_pad_ge)
  then have u: "unat (fm_compressed_size fm) = length payload" using len size by (simp add: unat_of_nat_len)
  then have "assembled cx (rx_file_meta rx) ?data payload"
    using none N(8) lp unfolding fm by (simp add: assembled_def announced_def sent_file_meta_def trimmed_def)
  with assemble_spec [OF a] raw have "\<exists>v. r = Inr (Some v)" by (auto split: sum.splits option.splits)
  then obtain v where r: "r = Inr (Some v)" by blast
  from watching_delivers [OF up new len size w a [unfolded r]] none have "v = payload" by (simp add: delivers_def)
  with a r show ?thesis by simp
qed

lemma session_completes:
  assumes up: "upstream_ok rq" and st: "sender_static rq data s" and dg: "digests_ok s"
    and len: "length data \<le> 33554432" and an: "announce_ok s" and ord: "\<And>xs. mset (ord xs) = mset xs"
    and tr: "\<And>f. f \<in> set (pre @ d # post) \<Longrightarrow> trusted rq crc s f"
    and d: "sent_frame rq crc s d" "\<not> is_data d"
    and gs: "set gs \<subseteq> set post" "\<And>f. f \<in> set gs \<Longrightarrow> sent_frame rq crc s f" "covers s gs"
  defines "rx \<equiv> ingest_all rq ord (new_pending (sn_session_id s)) (pre @ d # post)"
  obtains ss where "watching rq s ss rx" "receiver_is_complete rx" "assemble_raw rx = Some data"
proof -
  let ?rx0 = "ingest_all rq ord (new_pending (sn_session_id s)) pre"
  have w0: "watching rq s (log_run rq ord (new_pending (sn_session_id s)) [] pre) ?rx0"
    by (rule watching_all [where crc = crc, OF up st dg len an ord watching_pending [OF refl]]) (use tr in simp)
  from after_descriptor [OF up st dg len an ord watching_follows [OF w0] d] obtain ss where
    w1: "watching rq s ss (fst (ingest rq ord d ?rx0))" and m1: "rx_meta (fst (ingest rq ord d ?rx0)) \<noteq> None" by blast
  have rx: "rx = ingest_all rq ord (fst (ingest rq ord d ?rx0)) post" by (simp add: rx_def ingest_all_append)
  have tr': "f \<in> set post \<Longrightarrow> trusted rq crc s f" for f using tr by simp
  show thesis
  proof (rule that)
    show "watching rq s (log_run rq ord (fst (ingest rq ord d ?rx0)) ss post) rx"
      unfolding rx by (rule watching_all [OF up st dg len an ord w1 tr'])
    show "receiver_is_complete rx" "assemble_raw rx = Some data"
      unfolding rx using follows_completes [OF up st dg len an ord watching_follows [OF w1] m1 tr' gs] by simp_all
  qed
qed

lemma completes_after_descriptor:
  assumes "upstream_ok rq" "sender_new rq payload sid cfg fm = Inr s"
    and "length (pad_to_symbols payload (sc_codec cfg)) \<le> 33554432"
    and "announce_ok s" "fm_compressed_size fm = of_nat (length payload)"
    and "\<And>xs. mset (ord xs) = mset xs"
    and "\<And>f. f \<in> set (pre @ d # post) \<Longrightarrow> trusted rq crc s f"
    and "sent_frame rq crc s d" "\<not> is_data d"
    and "set gs \<subseteq> set post" "\<And>f. f \<in> set gs \<Longrightarrow> sent_frame rq crc s f" "covers s gs"
  defines "rx \<equiv> ingest_all rq ord (new_pending sid) (pre @ d # post)"
  shows "receiver_is_complete rx \<and> assemble_raw rx = Some (pad_to_symbols payload (sc_codec cfg)) \<and>
    (fm_compression fm = COMPRESSION_NONE \<longrightarrow> (\<exists>rx'. assemble_result cx rx = (rx', Inr (Some payload))))"
proof -
  note N = sender_new_inv [OF assms(1-3)]
  then have st: "sender_static rq (pad_to_symbols payload (sc_codec cfg)) s" by (simp add: sender_inv_def)
  obtain ss where "watching rq s ss rx" "receiver_is_complete rx"
    "assemble_raw rx = Some (pad_to_symbols payload (sc_codec cfg))"
    using session_completes [OF assms(1) st N(2) assms(3,4,6-12)] unfolding rx_def N(3) by blast
  with complete_payload [OF assms(1-3,5)] show ?thesis by blast
qed

text \<open>
  C3: a host gets the data.  As soon as the camera has read one descriptor and, afterwards, one
  frame for every source symbol, in any order and among any other frames, the receiver is
  complete and holds exactly the padded payload; if it was sent uncompressed, assembly returns it.
\<close>

theorem transfer_completes:
  assumes "upstream_ok rq" "sender_new rq payload sid cfg fm = Inr s"
    and "length (pad_to_symbols payload (sc_codec cfg)) \<le> 33554432"
    and "announce_ok s" "fm_compressed_size fm = of_nat (length payload)"
    and "\<And>xs. mset (ord xs) = mset xs"
    and "\<And>f. f \<in> set (pre @ d # post) \<Longrightarrow> trusted rq crc s f"
    and "sent_frame rq crc s d" "\<not> is_data d"
    and "set gs \<subseteq> set post" "\<And>f. f \<in> set gs \<Longrightarrow> sent_frame rq crc s f" "covers s gs"
  defines "rx \<equiv> ingest_all rq ord (new_pending sid) (pre @ d # post)"
  shows "receiver_is_complete rx \<and> assemble_raw rx = Some (pad_to_symbols payload (sc_codec cfg)) \<and>
    (fm_compression fm = COMPRESSION_NONE \<longrightarrow> (\<exists>rx'. assemble_result cx rx = (rx', Inr (Some payload))))"
  unfolding rx_def using assms(1-12) by (rule completes_after_descriptor)

text \<open>A channel that loses nothing.\<close>

lemma received_all:
  assumes "\<And>f. f \<in> set fs \<Longrightarrow> frame_valid crc f"
  shows "received_frames crc (map frame_to_bytes fs) = fs"
  using assms by (induction fs) (auto simp: received_frames_def from_to_bytes)

lemma scheduled_frames:
  assumes "length rs = n" "\<forall>i < n. scheduled rq crc s i (rs ! i)"
  obtains fs where "rs = map Inr fs" "\<And>f. f \<in> set fs \<Longrightarrow> sent_frame rq crc s f"
    "n \<noteq> 0 \<Longrightarrow> \<not> is_data (hd fs)"
proof -
  define fs where "fs = map (\<lambda>r. case r of Inr f \<Rightarrow> f) rs"
  have s: "scheduled rq crc s i (Inr (fs ! i)) \<and> rs ! i = Inr (fs ! i)" if "i < n" for i
    using assms that by (auto simp: scheduled_def fs_def)
  have 1: "rs = map Inr fs" using s assms(1) by (intro nth_equalityI) (auto simp: fs_def)
  have 2: "sent_frame rq crc s f" if "f \<in> set fs" for f
    using that s assms(1) by (auto simp: in_set_conv_nth fs_def scheduled_def)
  have 3: "\<not> is_data (hd fs)" if "n \<noteq> 0"
    using s [of 0] that assms(1) by (auto simp: scheduled_def hd_conv_nth fs_def)
  show thesis by (rule that [OF 1 2 3])
qed

lemma session_lossless:
  fixes rq :: "('e, 'd) raptorq"
  assumes up: "upstream_ok rq" and inv: "sender_inv rq data s" and dg: "digests_ok s"
    and len: "length data \<le> 33554432" and an: "announce_ok s"
    and fresh: "position_of s = 0" "sn_frame_index s = 0" "sn_descriptor_interval s = 17"
    and ord: "\<And>xs. mset (ord xs) = mset xs"
    and n: "n \<le> 16720813" "sum_symbols (m_blocks (sn_meta s)) \<le> n - descriptors_before n"
    and e: "emit_n rq crc clock n s = (s', rs)"
  obtains fs ss where "rs = map Inr fs" "fs \<noteq> []" "\<And>f. f \<in> set fs \<Longrightarrow> sent_frame rq crc s f"
    "(from_first_frame (hd fs) :: 'd receiver) = new_pending (sn_session_id s)"
    "received_frames crc (map frame_to_bytes fs) = fs"
    "watching rq s ss (ingest_all rq ord (new_pending (sn_session_id s)) fs)"
    "receiver_is_complete (ingest_all rq ord (new_pending (sn_session_id s)) fs)"
    "assemble_raw (ingest_all rq ord (new_pending (sn_session_id s)) fs) = Some data"
proof -
  have st: "sender_static rq data s" using inv by (simp add: sender_inv_def)
  have ok: "plan_ok (m_blocks (sn_meta s))" "m_blocks (sn_meta s) \<noteq> []" using sender_inv_plan [OF inv] by auto
  have sch: "length rs = n" "\<forall>i < n. scheduled rq crc s i (rs ! i)"
    using emit_n_schedule [OF up inv dg len fresh n(1) e] by simp_all
  obtain fs where fs: "rs = map Inr fs" "\<And>f. f \<in> set fs \<Longrightarrow> sent_frame rq crc s f"
    "n \<noteq> 0 \<Longrightarrow> \<not> is_data (hd fs)"
    using scheduled_frames [OF sch] by blast
  have "0 < sum_symbols (m_blocks (sn_meta s))"
    using source_plan_nonempty [OF ok] source_plan_length [OF ok(1)] by (cases "build_source_plan (sn_meta s)") auto
  then have n0: "n \<noteq> 0" using n(2) by auto
  then obtain d post where dp: "fs = d # post" using sch(1) fs(1) by (cases fs) auto
  have d: "sent_frame rq crc s d" "\<not> is_data d" using fs(2,3) n0 dp by auto
  have cov: "covers s post"
    unfolding covers_def
  proof (intro allI impI)
    fix sbn esi :: u32
    assume a: "unat sbn < length (m_blocks (sn_meta s)) \<and>
      unat esi < unat (b_num_source_symbols (m_blocks (sn_meta s) ! unat sbn))"
    obtain f where "Inr f \<in> set rs" "is_data f" "data_id f = (sbn, esi)"
      using schedule_covers [OF ok(1) sch n(2), of sbn esi] a by blast
    then show "\<exists>f \<in> set post. is_data f \<and> data_id f = (sbn, esi)" using fs(1) d(2) dp by auto
  qed
  have tr: "trusted rq crc s f" if "f \<in> set ([] @ d # post)" for f
    using fs(2) [of f] that dp by (simp add: trusted_def sent_frame_def)
  have sp: "sent_frame rq crc s f" if "f \<in> set post" for f using fs(2) that dp by simp
  obtain ss where w: "watching rq s ss (ingest_all rq ord (new_pending (sn_session_id s)) ([] @ d # post))"
    "receiver_is_complete (ingest_all rq ord (new_pending (sn_session_id s)) ([] @ d # post))"
    "assemble_raw (ingest_all rq ord (new_pending (sn_session_id s)) ([] @ d # post)) = Some data"
    using session_completes [where pre = "[]" and gs = post, OF up st dg len an ord tr d subset_refl sp cov] by blast
  have "(from_first_frame d :: 'd receiver) = new_pending (sn_session_id s)"
    using d(1) by (simp add: from_first_frame_def new_pending_def sent_frame_def)
  moreover have "received_frames crc (map frame_to_bytes fs) = fs"
    using fs(2) by (intro received_all) (simp add: sent_frame_def)
  ultimately show thesis using that [OF fs(1) _ fs(2)] w dp by simp
qed

text \<open>
  C1: sender, wire format and receiver compose to the identity.  A fresh session is asked for
  \<open>n\<close> frames, enough for its source symbols; they are serialized, parsed and fed to a receiver
  made from the first of them; assembly then returns exactly the payload.
\<close>

theorem lossless_transfer:
  fixes rq :: "('e, 'd) raptorq"
  assumes "upstream_ok rq" "sender_new rq payload sid cfg fm = Inr s"
    and "length (pad_to_symbols payload (sc_codec cfg)) \<le> 33554432"
    and "announce_ok s" "fm_compressed_size fm = of_nat (length payload)" "fm_compression fm = COMPRESSION_NONE"
    and "\<And>xs. mset (ord xs) = mset xs"
    and "n \<le> 16720813" "sum_symbols (m_blocks (sn_meta s)) \<le> n - descriptors_before n"
    and "emit_n rq crc clock n s = (s', rs)"
  shows "\<exists>fs rx'. rs = map Inr fs \<and>
    assemble_result cx (ingest_all rq ord (from_first_frame (hd fs))
       (received_frames crc (map frame_to_bytes fs))) = (rx', Inr (Some payload))"
proof -
  note N = sender_new_inv [OF assms(1-3)]
  obtain fs ss where fs: "rs = map Inr fs" "(from_first_frame (hd fs) :: 'd receiver) = new_pending (sn_session_id s)"
    "received_frames crc (map frame_to_bytes fs) = fs"
    "watching rq s ss (ingest_all rq ord (new_pending (sn_session_id s)) fs)"
    "assemble_raw (ingest_all rq ord (new_pending (sn_session_id s)) fs) = Some (pad_to_symbols payload (sc_codec cfg))"
    using session_lossless [OF assms(1) N(1,2) assms(3,4) N(4,5,7) assms(7-10)] by metis
  from complete_payload [OF assms(1-3,5) fs(4,5) assms(6)] show ?thesis
    using fs(1-3) by (intro exI [of _ fs]) simp
qed

end
