(* ===== verification/Assembler.thy ===== *)
theory Assembler
  imports Segment
begin

text \<open>
  Large-transfer assembly, \<open>core/transfer-engine/src/assembler.rs\<close>: the receiving side collects the
  compressed bytes of the segments and concatenates them once all are there.  SHA-256 and the
  answers of the allocator (whether a reservation of that many elements is granted) are
  parameters.  The operations are shown to refine a partial map from segment indices to bytes.
\<close>

definition MAX_IN_MEMORY_ASSEMBLY_BYTES :: u64 where
  "MAX_IN_MEMORY_ASSEMBLY_BYTES = 256 * 1024 * 1024"

record assembler =
  as_root_session_id :: u128
  as_filename :: bytes
  as_total_segments :: u32
  as_root_compressed_size :: u64
  as_root_original_size :: u64
  as_root_sha256 :: bytes
  as_segments :: "bytes option list"
  as_meta :: "segment_meta option list"
  as_received_count :: u32

definition expected_segment_count :: "u64 \<Rightarrow> u32 option" where
  "expected_segment_count root_compressed_size =
     (if root_compressed_size = 0 then Some 0
      else Option.bind (checked_sub root_compressed_size 1) (\<lambda>n.
           Option.bind (checked_div n SEGMENT_RAW_BYTES) (\<lambda>q.
           Option.bind (checked_add q 1) (\<lambda>count. try_from count))))"

definition segment_raw_len :: "u64 \<Rightarrow> u32 \<Rightarrow> u64" where
  "segment_raw_len root_size segment_index =
     (let off = ucast segment_index * SEGMENT_RAW_BYTES;
          remaining = saturating_sub root_size off
      in min remaining SEGMENT_RAW_BYTES)"

definition validate_segment_range :: "segment_meta \<Rightarrow> file_meta \<Rightarrow> u64 \<Rightarrow> (unit, te_error) result" where
  "validate_segment_range seg fm root_compressed_size =
     (if sg_segment_count seg = 0 \<or> MAX_SEGMENT_COUNT < sg_segment_count seg
      then Inl (InvalidSegment ''segment count out of range'')
      else if expected_segment_count root_compressed_size \<noteq> Some (sg_segment_count seg)
      then Inl (InvalidSegment ''segment count inconsistent with compressed root size'')
      else if sg_segment_count seg \<le> sg_segment_index seg
      then Inl (InvalidSegment ''segment index out of range'')
      else if sg_root_original_size seg \<noteq> root_compressed_size
      then Inl (InvalidSegment ''segment root size does not match assembler'')
      else bind_result (ok_or (InvalidSegment ''segment offset overflow'')
             (checked_mul (ucast (sg_segment_index seg)) SEGMENT_RAW_BYTES))
        (\<lambda>expected_offset.
           if sg_original_offset seg \<noteq> expected_offset
           then Inl (InvalidSegment ''segment offset is not canonical'')
           else if segment_raw_len root_compressed_size (sg_segment_index seg) < fm_compressed_size fm
           then Inl (InvalidSegment ''segment compressed length exceeds canonical compressed range'')
           else Inr ()))"

definition assembler_new ::
  "(nat \<Rightarrow> bool) \<Rightarrow> (nat \<Rightarrow> bool) \<Rightarrow> segment_meta \<Rightarrow> file_meta \<Rightarrow> (assembler, te_error) result" where
  "assembler_new grant_segments grant_meta seg fm =
     (if sg_segment_count seg = 0 \<or> MAX_SEGMENT_COUNT < sg_segment_count seg
      then Inl (InvalidSegment ''segment count out of range'')
      else let n = unat (sg_segment_count seg) in
      if sg_root_original_size seg = 0 then Inl (InvalidSegment ''segment compressed root size is empty'')
      else bind_result (ok_or (InvalidSegment ''segment count overflow'')
             (expected_segment_count (sg_root_original_size seg)))
        (\<lambda>expected.
           if expected \<noteq> sg_segment_count seg
           then Inl (InvalidSegment ''segment count inconsistent with compressed root size'')
           else bind_result (validate_segment_range seg fm (sg_root_original_size seg)) (\<lambda>_.
             if \<not> grant_segments n then Inl (InvalidSegment ''segment slot allocation failed'')
             else if \<not> grant_meta n then Inl (InvalidSegment ''segment metadata allocation failed'')
             else Inr \<lparr>as_root_session_id = sg_root_session_id seg, as_filename = fm_filename fm,
               as_total_segments = sg_segment_count seg, as_root_compressed_size = sg_root_original_size seg,
               as_root_original_size = fm_original_size fm, as_root_sha256 = sg_root_sha256 seg,
               as_segments = replicate n None, as_meta = replicate n None, as_received_count = 0\<rparr>)))"

definition assembler_is_complete :: "assembler \<Rightarrow> bool" where
  "assembler_is_complete a \<longleftrightarrow> as_received_count a = as_total_segments a"

definition has_segment :: "assembler \<Rightarrow> u32 \<Rightarrow> bool" where
  "has_segment a segment_index =
     (unat segment_index < length (as_segments a) \<and> as_segments a ! unat segment_index \<noteq> None)"

text \<open>The write at the end of \<open>add_segment\<close>.\<close>

definition store_segment :: "nat \<Rightarrow> bytes \<times> segment_meta \<Rightarrow> assembler \<Rightarrow> assembler" where
  "store_segment idx v a =
     a\<lparr>as_segments := (as_segments a)[idx := Some (fst v)], as_meta := (as_meta a)[idx := Some (snd v)],
       as_received_count := as_received_count a + 1\<rparr>"

definition add_segment ::
  "(bytes \<Rightarrow> bytes) \<Rightarrow> segment_meta \<Rightarrow> file_meta \<Rightarrow> bytes \<Rightarrow> assembler \<Rightarrow> assembler \<times> (bool, te_error) result" where
  "add_segment sha seg fm data a =
     (if sg_root_session_id seg \<noteq> as_root_session_id a
      then (a, Inl (InvalidSegment ''segment root id does not match assembler''))
      else if sg_segment_count seg \<noteq> as_total_segments a
      then (a, Inl (InvalidSegment ''segment count does not match assembler''))
      else if sg_root_sha256 seg \<noteq> as_root_sha256 a
      then (a, Inl (InvalidSegment ''segment root sha256 does not match assembler''))
      else if fm_filename fm \<noteq> as_filename a
      then (a, Inl (InvalidSegment ''segment filename does not match assembler''))
      else case validate_segment_range seg fm (as_root_compressed_size a) of
        Inl e \<Rightarrow> (a, Inl e)
      | Inr _ \<Rightarrow>
          (let idx = unat (sg_segment_index seg) in
           if of_nat (length data) \<noteq> fm_compressed_size fm
           then (a, Inl (InvalidSegment ''segment length mismatch''))
           else if segment_raw_len (as_root_compressed_size a) (sg_segment_index seg) < of_nat (length data)
           then (a, Inl (InvalidSegment ''segment length exceeds canonical range''))
           else if sha data \<noteq> sg_raw_sha256 seg
           then (a, Inl (InvalidSegment ''segment sha256 mismatch''))
           else if as_segments a ! idx \<noteq> None then
             (if as_meta a ! idx \<noteq> Some seg
              then (a, Inl (InvalidSegment ''duplicate segment metadata conflicts with stored segment''))
              else (a, Inr False))
           else (store_segment idx (data, seg) a, Inr True)))"

fun append_slots :: "bytes option list \<Rightarrow> bytes \<Rightarrow> bytes option" where
  "append_slots [] out = Some out"
| "append_slots (slot # slots) out =
     (case slot of None \<Rightarrow> None | Some data \<Rightarrow> append_slots slots (out @ data))"

definition reassemble :: "(nat \<Rightarrow> bool) \<Rightarrow> assembler \<Rightarrow> bytes option" where
  "reassemble grant a =
     (if \<not> assembler_is_complete a then None
      else if MAX_IN_MEMORY_ASSEMBLY_BYTES < as_root_compressed_size a then None
      else if \<not> grant (unat (as_root_compressed_size a)) then None
      else Option.bind (append_slots (as_segments a) []) (\<lambda>out.
             if of_nat (length out) \<noteq> as_root_compressed_size a then None else Some out))"

definition segment_ranges :: "assembler \<Rightarrow> (u32 \<times> u64 \<times> u64 \<times> bytes) list" where
  "segment_ranges a =
     map (\<lambda>seg. (sg_segment_index seg, sg_original_offset seg,
                 segment_raw_len (as_root_compressed_size a) (sg_segment_index seg), sg_raw_sha256 seg))
       (concat (map (\<lambda>m. case m of None \<Rightarrow> [] | Some seg \<Rightarrow> [seg]) (as_meta a)))"

section \<open>The range checks\<close>

lemma expected_segment_count_Some:
  assumes "0 < unat n"
  shows "expected_segment_count n = Some c \<longleftrightarrow> unat c = seg_count (unat n)"
proof -
  have n0: "n \<noteq> 0" using assms by auto
  define q where "q = (of_nat ((unat n - 1) div seg_bytes) :: u64)"
  have qle: "(unat n - 1) div seg_bytes < 2 ^ 63"
    using div_le_mono [of "unat n - 1" "2 ^ 64 - 2" seg_bytes] unat_lt [of n] by (simp add: seg_bytes_def)
  have q: "unat q = (unat n - 1) div seg_bytes" unfolding q_def using qle by (intro unat_of_nat_len) simp
  have d: "checked_sub n 1 = Some (n - 1)" using assms by (simp add: checked_sub_Some unat_sub word_le_nat_alt)
  have dv: "checked_div (n - 1) SEGMENT_RAW_BYTES = Some q"
    using assms by (simp add: checked_div_Some q unat_sub word_le_nat_alt)
  have u: "unat (q + 1) = seg_count (unat n)"
    using qle by (simp add: unat_word_ariths q seg_count_def)
  then have ad: "checked_add q 1 = Some (q + 1)" by (simp add: checked_add_Some q seg_count_def)
  show ?thesis by (auto simp: expected_segment_count_def n0 d dv ad try_from_Some u)
qed

lemma raw_len_unat: "unat (segment_raw_len n i) = seg_len (unat n) (unat i)"
proof -
  have "unat (ucast i :: u64) * seg_bytes < 2 ^ 64"
    using mult_strict_right_mono [OF unat_lt [of i], of seg_bytes] by (simp add: seg_bytes_def)
  then have "unat (ucast i * SEGMENT_RAW_BYTES) = unat i * seg_bytes"
    by (simp add: unat_word_ariths)
  then show ?thesis
    by (auto simp: segment_raw_len_def Let_def min_def word_le_nat_alt seg_len_def)
qed

text \<open>The specification: canonical coordinates in a stream of \<open>n\<close> bytes.\<close>

definition range_ok :: "segment_meta \<Rightarrow> file_meta \<Rightarrow> nat \<Rightarrow> bool" where
  "range_ok seg fm n \<longleftrightarrow> (let i = unat (sg_segment_index seg) in
     0 < n \<and> unat (sg_segment_count seg) = seg_count n \<and> seg_count n \<le> 131072 \<and> i < seg_count n \<and>
     unat (sg_root_original_size seg) = n \<and> unat (sg_original_offset seg) = i * seg_bytes \<and>
     unat (fm_compressed_size fm) \<le> seg_len n i)"

lemma validate_range_iff: "validate_segment_range seg fm root = Inr () \<longleftrightarrow> range_ok seg fm (unat root)"
proof (cases "0 < unat root")
  case False
  then have "root = 0" by (simp add: unat_eq_0)
  then show ?thesis by (auto simp: validate_segment_range_def range_ok_def expected_segment_count_def)
next
  case n: True
  note E = expected_segment_count_Some [OF n, of "sg_segment_count seg"]
  show ?thesis
  proof (cases "unat (sg_segment_index seg) < seg_count (unat root) \<and> unat (sg_segment_count seg) = seg_count (unat root)
      \<and> seg_count (unat root) \<le> 131072")
    case False
    then show ?thesis
      using E by (auto simp: validate_segment_range_def range_ok_def MAX_SEGMENT_COUNT_def word_less_nat_alt
          word_le_nat_alt Let_def)
  next
    case True
    let ?i = "unat (sg_segment_index seg)"
    have i: "?i * seg_bytes < unat root" using True n by (simp add: seg_index_in)
    define off where "off = (of_nat (?i * seg_bytes) :: u64)"
    have off: "unat off = ?i * seg_bytes" unfolding off_def using i unat_lt [of root] by (intro unat_of_nat_len) simp
    have mul: "checked_mul (ucast (sg_segment_index seg)) SEGMENT_RAW_BYTES = Some off"
      by (simp add: checked_mul_Some off)
    have "\<not> (sg_segment_count seg = 0 \<or> MAX_SEGMENT_COUNT < sg_segment_count seg)"
      "\<not> sg_segment_count seg \<le> sg_segment_index seg" "expected_segment_count root = Some (sg_segment_count seg)"
      using True E by (auto simp: MAX_SEGMENT_COUNT_def word_less_nat_alt word_le_nat_alt unat_eq_0 [symmetric] seg_count_def)
    then have "validate_segment_range seg fm root = Inr () \<longleftrightarrow> sg_root_original_size seg = root \<and>
        sg_original_offset seg = off \<and> \<not> segment_raw_len root (sg_segment_index seg) < fm_compressed_size fm"
      by (auto simp: validate_segment_range_def mul)
    then show ?thesis
      using True n by (auto simp: range_ok_def word_unat_eq_iff off word_less_nat_alt raw_len_unat Let_def)
  qed
qed

section \<open>The table of slots as a map\<close>

text \<open>
  The contract between \<open>add_segment\<close> and its table: a fixed number of slots, and a write that
  changes one slot.  What a sequence of writes to empty slots leaves behind follows from it.
\<close>

locale slot_table =
  fixes get :: "'s \<Rightarrow> nat \<Rightarrow> 'v option"
    and put :: "nat \<Rightarrow> 'v \<Rightarrow> 's \<Rightarrow> 's"
    and slot_count :: "'s \<Rightarrow> nat"
  assumes get_put: "i < slot_count s \<Longrightarrow> get (put i v s) = (get s)(i \<mapsto> v)"
    and slot_count_put: "slot_count (put i v s) = slot_count s"
    and get_bound: "get s i \<noteq> None \<Longrightarrow> i < slot_count s"
begin

lemma filled_subset: "{i. get s i \<noteq> None} \<subseteq> {..<slot_count s}"
  using get_bound by auto

lemma filled_finite: "finite {i. get s i \<noteq> None}"
  using filled_subset by (rule finite_subset) simp

lemma card_put: "i < slot_count s \<Longrightarrow> get s i = None \<Longrightarrow>
    card {j. get (put i v s) j \<noteq> None} = Suc (card {j. get s j \<noteq> None})"
proof -
  assume i: "i < slot_count s" "get s i = None"
  have "{j. get (put i v s) j \<noteq> None} = insert i {j. get s j \<noteq> None}" by (auto simp: get_put [OF i(1)])
  with i filled_finite show ?thesis by simp
qed

lemma full_iff_card: "card {i. get s i \<noteq> None} = slot_count s \<longleftrightarrow> (\<forall>i < slot_count s. get s i \<noteq> None)"
proof
  assume "card {i. get s i \<noteq> None} = slot_count s"
  then have "{i. get s i \<noteq> None} = {..<slot_count s}" by (intro card_subset_eq filled_subset) simp_all
  then show "\<forall>i < slot_count s. get s i \<noteq> None" by auto
next
  assume "\<forall>i < slot_count s. get s i \<noteq> None"
  then have "{i. get s i \<noteq> None} = {..<slot_count s}" using filled_subset by auto
  then show "card {i. get s i \<noteq> None} = slot_count s" by simp
qed

lemma card_le: "card {i. get s i \<noteq> None} \<le> slot_count s"
  using card_mono [OF _ filled_subset] by force

end

definition slot_of :: "assembler \<Rightarrow> nat \<Rightarrow> (bytes \<times> segment_meta) option" where
  "slot_of a i =
     (if i < length (as_segments a) \<and> i < length (as_meta a) then
        (case (as_segments a ! i, as_meta a ! i) of (Some b, Some m) \<Rightarrow> Some (b, m) | _ \<Rightarrow> None) else None)"

interpretation slots: slot_table slot_of store_segment "\<lambda>a. min (length (as_segments a)) (length (as_meta a))"
  by unfold_locales (auto simp: slot_of_def store_segment_def fun_eq_iff nth_list_update split: if_splits)

section \<open>The invariant\<close>

text \<open>What is stored in slot \<open>i\<close> of a stream of \<open>n\<close> bytes.\<close>

definition slot_ok :: "(bytes \<Rightarrow> bytes) \<Rightarrow> assembler \<Rightarrow> nat \<Rightarrow> bool" where
  "slot_ok sha a i \<longleftrightarrow>
     (case (as_segments a ! i, as_meta a ! i) of
        (None, None) \<Rightarrow> True
      | (Some b, Some m) \<Rightarrow> unat (sg_segment_index m) = i \<and> sha b = sg_raw_sha256 m \<and>
          length b \<le> seg_len (unat (as_root_compressed_size a)) i \<and>
          sg_root_session_id m = as_root_session_id a \<and> sg_root_sha256 m = as_root_sha256 a
      | _ \<Rightarrow> False)"

definition asm_inv :: "(bytes \<Rightarrow> bytes) \<Rightarrow> assembler \<Rightarrow> bool" where
  "asm_inv sha a \<longleftrightarrow> (let N = seg_count (unat (as_root_compressed_size a)) in
     0 < unat (as_root_compressed_size a) \<and> N \<le> 131072 \<and> unat (as_total_segments a) = N \<and>
     length (as_segments a) = N \<and> length (as_meta a) = N \<and>
     as_received_count a = of_nat (card {i. slot_of a i \<noteq> None}) \<and> (\<forall>i < N. slot_ok sha a i))"

lemma asm_inv_new:
  assumes "assembler_new g1 g2 seg fm = Inr a"
  shows "asm_inv sha a \<and> slot_of a = Map.empty \<and> as_root_compressed_size a = sg_root_original_size seg \<and>
    as_root_session_id a = sg_root_session_id seg \<and> as_root_sha256 a = sg_root_sha256 seg \<and>
    as_filename a = fm_filename fm \<and> as_total_segments a = sg_segment_count seg \<and>
    range_ok seg fm (unat (sg_root_original_size seg))"
proof -
  from assms have v: "validate_segment_range seg fm (sg_root_original_size seg) = Inr ()"
    and a: "a = \<lparr>as_root_session_id = sg_root_session_id seg, as_filename = fm_filename fm,
               as_total_segments = sg_segment_count seg, as_root_compressed_size = sg_root_original_size seg,
               as_root_original_size = fm_original_size fm, as_root_sha256 = sg_root_sha256 seg,
               as_segments = replicate (unat (sg_segment_count seg)) None,
               as_meta = replicate (unat (sg_segment_count seg)) None, as_received_count = 0\<rparr>"
    by (auto simp: assembler_new_def Let_def split: if_splits)
  from v have r: "range_ok seg fm (unat (sg_root_original_size seg))" by (simp add: validate_range_iff)
  have "slot_of a = Map.empty" by (auto simp: a slot_of_def fun_eq_iff)
  with r show ?thesis by (simp add: a asm_inv_def range_ok_def slot_ok_def Let_def)
qed

text \<open>The conditions under which \<open>add_segment\<close> gets as far as the table.\<close>

definition admissible :: "(bytes \<Rightarrow> bytes) \<Rightarrow> assembler \<Rightarrow> segment_meta \<Rightarrow> file_meta \<Rightarrow> bytes \<Rightarrow> bool" where
  "admissible sha a seg fm data \<longleftrightarrow>
     sg_root_session_id seg = as_root_session_id a \<and> sg_segment_count seg = as_total_segments a \<and>
     sg_root_sha256 seg = as_root_sha256 a \<and> fm_filename fm = as_filename a \<and>
     range_ok seg fm (unat (as_root_compressed_size a)) \<and>
     length data = unat (fm_compressed_size fm) \<and> sha data = sg_raw_sha256 seg"

text \<open>The abstract operation: a map that accepts one value per key and the same metadata again.\<close>

definition map_add_segment ::
  "(nat \<Rightarrow> (bytes \<times> segment_meta) option) \<Rightarrow> nat \<Rightarrow> bytes \<times> segment_meta \<Rightarrow>
   (nat \<Rightarrow> (bytes \<times> segment_meta) option) \<times> bool option" where
  "map_add_segment m i v =
     (case m i of
        None \<Rightarrow> (m(i \<mapsto> v), Some True)
      | Some w \<Rightarrow> (m, if snd w = snd v then Some False else None))"

lemma slot_of_Some: "slot_of a i = Some (b, m) \<Longrightarrow> as_segments a ! i = Some b \<and> as_meta a ! i = Some m"
  by (auto simp: slot_of_def split: if_splits option.splits)

lemma asm_inv_slot:
  assumes "asm_inv sha a" "i < seg_count (unat (as_root_compressed_size a))"
  shows "(as_segments a ! i = None \<longleftrightarrow> slot_of a i = None) \<and> (as_meta a ! i = None \<longleftrightarrow> slot_of a i = None) \<and>
    (\<forall>b m. slot_of a i = Some (b, m) \<longleftrightarrow> as_segments a ! i = Some b \<and> as_meta a ! i = Some m)"
proof -
  have "slot_ok sha a i" "i < length (as_segments a)" "i < length (as_meta a)" using assms by (auto simp: asm_inv_def Let_def)
  then show ?thesis by (auto simp: slot_ok_def slot_of_def split: option.splits)
qed

lemma asm_inv_store:
  assumes inv: "asm_inv sha a" and adm: "admissible sha a seg fm data"
    and free: "slot_of a (unat (sg_segment_index seg)) = None"
  shows "asm_inv sha (store_segment (unat (sg_segment_index seg)) (data, seg) a)"
proof -
  let ?i = "unat (sg_segment_index seg)" and ?N = "seg_count (unat (as_root_compressed_size a))"
  let ?a = "store_segment ?i (data, seg) a"
  have i: "?i < ?N" using adm by (simp add: admissible_def range_ok_def Let_def)
  have len: "length (as_segments a) = ?N" "length (as_meta a) = ?N" using inv by (auto simp: asm_inv_def Let_def)
  have card: "card {j. slot_of ?a j \<noteq> None} = Suc (card {j. slot_of a j \<noteq> None})"
    using slots.card_put [of ?i a] i len free by simp
  have "slot_ok sha ?a j" if "j < ?N" for j
  proof (cases "j = ?i")
    case True
    then show ?thesis using adm len i
      by (simp add: slot_ok_def store_segment_def admissible_def range_ok_def Let_def)
  next
    case False
    then have "slot_ok sha ?a j = slot_ok sha a j"
      by (simp add: slot_ok_def store_segment_def cong: option.case_cong)
    then show ?thesis using inv that by (simp add: asm_inv_def Let_def)
  qed
  moreover have "as_received_count ?a = of_nat (card {j. slot_of ?a j \<noteq> None})"
  proof -
    have "as_received_count ?a = as_received_count a + 1" by (simp add: store_segment_def)
    also have "as_received_count a = of_nat (card {j. slot_of a j \<noteq> None})"
      using inv unfolding asm_inv_def Let_def by blast
    finally show ?thesis unfolding card by (simp add: add.commute)
  qed
  ultimately show ?thesis using inv
    by (simp add: asm_inv_def Let_def) (simp add: store_segment_def)
qed

lemma add_segment_refines:
  assumes inv: "asm_inv sha a" and len: "length data < 2 ^ 64" and add: "add_segment sha seg fm data a = (a', r)"
  shows "asm_inv sha a' \<and>
    (as_root_session_id a' = as_root_session_id a \<and> as_root_compressed_size a' = as_root_compressed_size a \<and>
     as_total_segments a' = as_total_segments a \<and> as_root_sha256 a' = as_root_sha256 a \<and>
     as_filename a' = as_filename a) \<and>
    (if admissible sha a seg fm data
     then (slot_of a', case r of Inr x \<Rightarrow> Some x | Inl _ \<Rightarrow> None) =
            map_add_segment (slot_of a) (unat (sg_segment_index seg)) (data, seg)
     else a' = a \<and> (\<exists>m. r = Inl (InvalidSegment m)))"
proof -
  let ?i = "unat (sg_segment_index seg)" and ?n = "unat (as_root_compressed_size a)"
  have w: "of_nat (length data) = fm_compressed_size fm \<longleftrightarrow> length data = unat (fm_compressed_size fm)"
    using len by (auto simp: word_unat_eq_iff unat_of_nat_len)
  show ?thesis
  proof (cases "admissible sha a seg fm data")
    case False
    have "a' = a \<and> (\<exists>m. r = Inl (InvalidSegment m))"
    proof (cases "validate_segment_range seg fm (as_root_compressed_size a)")
      case (Inl e)
      then have "\<exists>m. e = InvalidSegment m"
        by (auto simp: validate_segment_range_def Let_def bind_result_Inl split: if_splits)
      with Inl add show ?thesis by (auto simp: add_segment_def split: if_splits)
    next
      case (Inr u)
      then have "range_ok seg fm ?n" using validate_range_iff [of seg fm "as_root_compressed_size a"] by simp
      with False w add Inr show ?thesis
        by (auto simp: add_segment_def admissible_def Let_def split: if_splits)
    qed
    with False inv show ?thesis by auto
  next
    case True
    then have ro: "range_ok seg fm ?n" by (simp add: admissible_def)
    then have v: "validate_segment_range seg fm (as_root_compressed_size a) = Inr ()" by (simp add: validate_range_iff)
    have i: "?i < seg_count ?n" using ro by (simp add: range_ok_def Let_def)
    have ld: "length data = unat (fm_compressed_size fm)" using True by (simp add: admissible_def)
    then have ul: "unat (of_nat (length data) :: u64) = length data" by simp
    have fit: "\<not> segment_raw_len (as_root_compressed_size a) (sg_segment_index seg) < of_nat (length data)"
      using ro ld by (simp add: word_less_nat_alt raw_len_unat range_ok_def Let_def not_less)
    note S = asm_inv_slot [OF inv i]
    have res: "(a', r) = (if slot_of a ?i \<noteq> None
        then if as_meta a ! ?i \<noteq> Some seg
             then (a, Inl (InvalidSegment ''duplicate segment metadata conflicts with stored segment'')) else (a, Inr False)
        else (store_segment ?i (data, seg) a, Inr True))"
      using add True v fit w ld S by (auto simp: add_segment_def admissible_def Let_def)
    show ?thesis
    proof (cases "slot_of a ?i")
      case None
      have "?i < min (length (as_segments a)) (length (as_meta a))" using inv i by (auto simp: asm_inv_def Let_def)
      with None res True asm_inv_store [OF inv True None] show ?thesis
        by (simp add: map_add_segment_def slots.get_put) (simp add: store_segment_def)
    next
      case (Some v)
      with S have "as_meta a ! ?i = Some (snd v)" by (cases v) auto
      with Some res True inv show ?thesis by (auto simp: map_add_segment_def split: if_splits)
    qed
  qed
qed

section \<open>Reachable assemblers\<close>

inductive asm_reach :: "(bytes \<Rightarrow> bytes) \<Rightarrow> assembler \<Rightarrow> bool" for sha where
  asm_start: "assembler_new g1 g2 seg fm = Inr a \<Longrightarrow> asm_reach sha a"
| asm_add: "asm_reach sha a \<Longrightarrow> length data < 2 ^ 64 \<Longrightarrow> add_segment sha seg fm data a = (a', r) \<Longrightarrow>
    asm_reach sha a'"

lemma asm_reach_inv: "asm_reach sha a \<Longrightarrow> asm_inv sha a"
  by (induction rule: asm_reach.induct) (auto dest: asm_inv_new add_segment_refines)

text \<open>
  C33: the assembler refines a map from segment indices to bytes.  A call that passes the
  checks is the map's insertion: it fills an empty slot, recognises the same
  segment again, and refuses different metadata for a filled slot; any other call is an error that
  changes nothing.  \<open>has_segment\<close>, the count and \<open>is_complete\<close> read the map.
\<close>

theorem assembler_refines_map:
  assumes "asm_reach sha a" "length data < 2 ^ 64" "add_segment sha seg fm data a = (a', r)"
  shows "(if admissible sha a seg fm data
     then (slot_of a', case r of Inr x \<Rightarrow> Some x | Inl _ \<Rightarrow> None) =
            map_add_segment (slot_of a) (unat (sg_segment_index seg)) (data, seg)
     else a' = a \<and> (\<exists>m. r = Inl (InvalidSegment m))) \<and>
    (\<forall>k. has_segment a' k \<longleftrightarrow> slot_of a' (unat k) \<noteq> None) \<and>
    unat (as_received_count a') = card (dom (slot_of a')) \<and>
    (assembler_is_complete a' \<longleftrightarrow> dom (slot_of a') = {..<unat (as_total_segments a')})"
proof -
  have R: "asm_inv sha a'" "if admissible sha a seg fm data
     then (slot_of a', case r of Inr x \<Rightarrow> Some x | Inl _ \<Rightarrow> None) =
            map_add_segment (slot_of a) (unat (sg_segment_index seg)) (data, seg)
     else a' = a \<and> (\<exists>m. r = Inl (InvalidSegment m))"
    using add_segment_refines [OF asm_reach_inv [OF assms(1)] assms(2,3)] by blast+
  let ?N = "seg_count (unat (as_root_compressed_size a'))"
  have N: "?N \<le> 131072" "unat (as_total_segments a') = ?N" "length (as_segments a') = ?N" "length (as_meta a') = ?N"
    "as_received_count a' = of_nat (card (dom (slot_of a')))"
    using R(1) by (auto simp: asm_inv_def Let_def dom_def)
  have sub: "dom (slot_of a') \<subseteq> {..<?N}" using slots.filled_subset [of a'] N by (simp add: dom_def)
  then have c: "card (dom (slot_of a')) \<le> ?N" using card_mono [OF _ sub] by simp
  then have cnt: "unat (as_received_count a') = card (dom (slot_of a'))"
    unfolding N(5) using N(1) by (intro unat_of_nat_len) simp
  have "assembler_is_complete a' \<longleftrightarrow> card (dom (slot_of a')) = ?N"
    by (simp add: assembler_is_complete_def word_unat_eq_iff cnt N(2))
  also have "\<dots> \<longleftrightarrow> dom (slot_of a') = {..<?N}"
  proof
    assume "card (dom (slot_of a')) = ?N"
    then show "dom (slot_of a') = {..<?N}" by (intro card_subset_eq sub) simp_all
  qed simp
  finally have comp: "assembler_is_complete a' \<longleftrightarrow> dom (slot_of a') = {..<unat (as_total_segments a')}" by (simp add: N)
  have "has_segment a' k \<longleftrightarrow> slot_of a' (unat k) \<noteq> None" for k
  proof (cases "unat k < ?N")
    case True
    then show ?thesis using asm_inv_slot [OF R(1) True] N by (simp add: has_segment_def)
  next
    case False
    then have "unat k \<notin> dom (slot_of a')" using sub by blast
    then have "slot_of a' (unat k) = None" unfolding domIff by blast
    with False show ?thesis by (simp add: has_segment_def N)
  qed
  with R(2) cnt comp show ?thesis by blast
qed

section \<open>The whole stream\<close>

lemma append_slots_eq:
  "append_slots slots out = (if None \<in> set slots then None else Some (out @ concat (map the slots)))"
  by (induction slots arbitrary: out) (auto split: option.splits)

definition stored :: "assembler \<Rightarrow> nat \<Rightarrow> bytes" where
  "stored a i = fst (the (slot_of a i))"

text \<open>Every slot is filled, to its canonical length.\<close>

definition all_full :: "assembler \<Rightarrow> bool" where
  "all_full a \<longleftrightarrow> (\<forall>i < seg_count (unat (as_root_compressed_size a)). slot_of a i \<noteq> None \<and>
     length (stored a i) = seg_len (unat (as_root_compressed_size a)) i)"

lemma sum_le_eq:
  assumes "\<And>i. i < n \<Longrightarrow> f i \<le> (g i :: nat)"
  shows "sum_list (map f [0..<n]) = sum_list (map g [0..<n]) \<longleftrightarrow> (\<forall>i < n. f i = g i)"
  using assms
proof (induction n)
  case (Suc n)
  have "sum_list (map f [0..<n]) \<le> sum_list (map g [0..<n])" using Suc.prems by (intro sum_list_mono) simp
  moreover have "f n \<le> g n" using Suc.prems by simp
  ultimately have "sum_list (map f [0..<n]) + f n = sum_list (map g [0..<n]) + g n \<longleftrightarrow>
      sum_list (map f [0..<n]) = sum_list (map g [0..<n]) \<and> f n = g n" by linarith
  moreover have "sum_list (map f [0..<n]) = sum_list (map g [0..<n]) \<longleftrightarrow> (\<forall>i < n. f i = g i)"
    using Suc.IH Suc.prems by simp
  ultimately show ?case by (auto simp: less_Suc_eq)
qed simp

lemma reassemble_spec:
  assumes inv: "asm_inv sha a"
  defines "n \<equiv> unat (as_root_compressed_size a)"
  shows "reassemble grant a =
    (if all_full a \<and> n \<le> 268435456 \<and> grant n
     then Some (concat (map (stored a) [0..<seg_count n])) else None)"
proof -
  let ?N = "seg_count n"
  have N: "?N \<le> 131072" "unat (as_total_segments a) = ?N" "length (as_segments a) = ?N" "length (as_meta a) = ?N"
    "as_received_count a = of_nat (card {i. slot_of a i \<noteq> None})" "0 < n"
    using inv by (auto simp: asm_inv_def Let_def n_def)
  have "card {i. slot_of a i \<noteq> None} \<le> ?N" using slots.card_le [of a] N by simp
  then have "unat (as_received_count a) = card {i. slot_of a i \<noteq> None}"
    unfolding N(5) using N(1) by (intro unat_of_nat_len) simp
  then have comp: "assembler_is_complete a \<longleftrightarrow> (\<forall>i < ?N. slot_of a i \<noteq> None)"
    using slots.full_iff_card [of a] N by (simp add: assembler_is_complete_def word_unat_eq_iff)
  show ?thesis
  proof (cases "\<forall>i < ?N. slot_of a i \<noteq> None")
    case False
    then show ?thesis using comp by (auto simp: reassemble_def all_full_def n_def)
  next
    case True
    have seg: "as_segments a ! i = Some (stored a i)" "length (stored a i) \<le> seg_len n i" if i: "i < ?N" for i
    proof -
      from True i obtain b m where bm: "slot_of a i = Some (b, m)" by fastforce
      then have "as_segments a ! i = Some b" "as_meta a ! i = Some m"
        by (auto dest: slot_of_Some)
      moreover have "slot_ok sha a i" using inv i by (simp add: asm_inv_def Let_def n_def)
      ultimately show "as_segments a ! i = Some (stored a i)" "length (stored a i) \<le> seg_len n i"
        using bm by (simp_all add: stored_def slot_ok_def n_def)
    qed
    then have l: "as_segments a = map (\<lambda>i. Some (stored a i)) [0..<?N]"
      using N(3) by (intro nth_equalityI) simp_all
    let ?out = "concat (map (stored a) [0..<?N])"
    have app: "append_slots (as_segments a) [] = Some ?out" by (auto simp: append_slots_eq l comp_def)
    have "length ?out = sum_list (map (\<lambda>i. length (stored a i)) [0..<?N])" by (simp add: length_concat comp_def)
    also have "\<dots> \<le> sum_list (map (seg_len n) [0..<?N])" using seg(2) by (intro sum_list_mono) simp
    finally have le: "length ?out \<le> n" using seg_len_total [OF N(6)] by simp
    have "(of_nat (length ?out) :: u64) = as_root_compressed_size a \<longleftrightarrow> length ?out = n"
    proof -
      have "unat (of_nat (length ?out) :: u64) = length ?out"
        using le unat_lt [of "as_root_compressed_size a"] by (intro unat_of_nat_len) (simp add: n_def)
      then show ?thesis by (simp add: word_unat_eq_iff n_def)
    qed
    also have "length ?out = n \<longleftrightarrow> sum_list (map (\<lambda>i. length (stored a i)) [0..<?N]) = sum_list (map (seg_len n) [0..<?N])"
      using seg_len_total [OF N(6)] by (simp add: length_concat comp_def)
    also have "\<dots> \<longleftrightarrow> all_full a"
      using sum_le_eq [of ?N "\<lambda>i. length (stored a i)" "seg_len n"] seg(2) True by (auto simp: all_full_def n_def)
    finally have "(of_nat (length ?out) :: u64) = as_root_compressed_size a \<longleftrightarrow> all_full a" .
    with app comp True show ?thesis
      by (auto simp: reassemble_def MAX_IN_MEMORY_ASSEMBLY_BYTES_def word_less_nat_alt n_def)
  qed
qed

definition stream_segment :: "bytes \<Rightarrow> nat \<Rightarrow> bytes" where
  "stream_segment st i = take (seg_len (length st) i) (drop (i * seg_bytes) st)"

lemma stream_segment_length:
  "length (stream_segment st i) = seg_len (length st) i"
  by (simp add: stream_segment_def seg_len_def)

lemma concat_stream_segments: "0 < length st \<Longrightarrow> concat (map (stream_segment st) [0..<seg_count (length st)]) = st"
proof -
  assume n: "0 < length st"
  have "concat (map (stream_segment st) [0..<k]) = take (k * seg_bytes) st" for k
  proof (induction k)
    case (Suc k)
    have "take (seg_len (length st) k) (drop (k * seg_bytes) st) = take seg_bytes (drop (k * seg_bytes) st)"
      by (auto simp: seg_len_def min_def)
    then show ?case using Suc by (simp add: stream_segment_def add.commute [of seg_bytes] take_add)
  qed simp
  moreover have "length st \<le> seg_count (length st) * seg_bytes"
    using seg_index_in [OF n, of "seg_count (length st)"] by simp
  ultimately show ?thesis by simp
qed

text \<open>Slots that hold the segments of one stream reassemble to that stream.\<close>

lemma reassemble_right:
  assumes inv: "asm_inv sha a" and len: "unat (as_root_compressed_size a) = length st"
    and right: "\<And>i b m. slot_of a i = Some (b, m) \<Longrightarrow> b = stream_segment st i"
  shows "reassemble grant a =
    (if (\<forall>i < seg_count (length st). slot_of a i \<noteq> None) \<and> length st \<le> 268435456 \<and> grant (length st)
     then Some st else None)"
proof -
  have n: "0 < length st" using inv len by (simp add: asm_inv_def Let_def)
  have st: "stored a i = stream_segment st i" if "slot_of a i \<noteq> None" for i
    using that right by (fastforce simp: stored_def)
  then have full: "all_full a \<longleftrightarrow> (\<forall>i < seg_count (length st). slot_of a i \<noteq> None)"
    by (auto simp: all_full_def len stream_segment_length)
  have cc: "concat (map (stored a) [0..<seg_count (length st)]) = st"
    if "\<forall>i < seg_count (length st). slot_of a i \<noteq> None"
  proof -
    have "map (stored a) [0..<seg_count (length st)] = map (stream_segment st) [0..<seg_count (length st)]"
      using st that by simp
    then show ?thesis using concat_stream_segments [OF n] by (simp only:)
  qed
  show ?thesis unfolding reassemble_spec [OF inv] full len
  proof (rule if_cong [OF refl])
    assume "(\<forall>i < seg_count (length st). slot_of a i \<noteq> None) \<and> length st \<le> 268435456 \<and> grant (length st)"
    then have "\<forall>i < seg_count (length st). slot_of a i \<noteq> None" by blast
    from cc [OF this] show "Some (concat (map (stored a) [0..<seg_count (length st)])) = Some st" by (rule arg_cong)
  qed (rule refl)
qed

section \<open>Short segments\<close>

lemma stored_stays:
  assumes "asm_inv sha a" "length data < 2 ^ 64" "add_segment sha seg fm data a = (a', r)" "slot_of a i = Some v"
  shows "slot_of a' i = Some v"
  using add_segment_refines [OF assms(1-3)] assms(4)
  by (auto simp: map_add_segment_def split: if_splits option.splits)

text \<open>A sequence of calls of \<open>add_segment\<close>, whatever each of them answers.\<close>

fun add_all :: "(bytes \<Rightarrow> bytes) \<Rightarrow> (segment_meta \<times> file_meta \<times> bytes) list \<Rightarrow> assembler \<Rightarrow> assembler" where
  "add_all sha [] a = a"
| "add_all sha ((seg, fm, data) # calls) a = add_all sha calls (fst (add_segment sha seg fm data a))"

text \<open>What the calls leave in the slots: every slot holds a call that passed the checks, and every such call
  has filled its slot.\<close>

lemma add_all_slots:
  assumes "asm_inv sha a" "\<forall>c \<in> set calls. length (snd (snd c)) < 2 ^ 64"
  shows "asm_inv sha (add_all sha calls a) \<and> as_root_compressed_size (add_all sha calls a) = as_root_compressed_size a \<and>
    (\<forall>i b m. slot_of (add_all sha calls a) i = Some (b, m) \<longrightarrow> slot_of a i = Some (b, m) \<or>
       (\<exists>fm. (m, fm, b) \<in> set calls \<and> admissible sha a m fm b \<and> unat (sg_segment_index m) = i)) \<and>
    (\<forall>i. slot_of a i \<noteq> None \<longrightarrow> slot_of (add_all sha calls a) i \<noteq> None) \<and>
    (\<forall>seg fm data. (seg, fm, data) \<in> set calls \<and> admissible sha a seg fm data \<longrightarrow>
       slot_of (add_all sha calls a) (unat (sg_segment_index seg)) \<noteq> None)"
  using assms
proof (induction calls arbitrary: a)
  case (Cons call calls)
  obtain seg fm data where call: "call = (seg, fm, data)" by (cases call)
  obtain a' r where add: "add_segment sha seg fm data a = (a', r)" by fastforce
  have len: "length data < 2 ^ 64" using Cons.prems(2) by (simp add: call)
  note R = add_segment_refines [OF Cons.prems(1) len add]
  then have inv: "asm_inv sha a'" and static: "as_root_session_id a' = as_root_session_id a"
    "as_root_compressed_size a' = as_root_compressed_size a" "as_total_segments a' = as_total_segments a"
    "as_root_sha256 a' = as_root_sha256 a" "as_filename a' = as_filename a" by blast+
  have adm: "admissible sha a' m f b \<longleftrightarrow> admissible sha a m f b" for m f b by (simp add: admissible_def static)
  let ?i = "unat (sg_segment_index seg)" and ?z = "add_all sha (call # calls) a"
  have z: "?z = add_all sha calls a'" by (simp add: call add)
  have len': "\<forall>c \<in> set calls. length (snd (snd c)) < 2 ^ 64" using Cons.prems(2) by simp
  note I = Cons.IH [OF inv len', folded z, unfolded static(2) adm]
  from I have IH: "asm_inv sha ?z" "as_root_compressed_size ?z = as_root_compressed_size a"
    "\<And>i b m. slot_of ?z i = Some (b, m) \<Longrightarrow> slot_of a' i = Some (b, m) \<or>
       (\<exists>fm. (m, fm, b) \<in> set calls \<and> admissible sha a m fm b \<and> unat (sg_segment_index m) = i)"
    "\<And>i. slot_of a' i \<noteq> None \<Longrightarrow> slot_of ?z i \<noteq> None"
    "\<And>m f b. (m, f, b) \<in> set calls \<Longrightarrow> admissible sha a m f b \<Longrightarrow> slot_of ?z (unat (sg_segment_index m)) \<noteq> None"
    by blast+
  have step: "slot_of a' i = Some (b, m) \<Longrightarrow> slot_of a i = Some (b, m) \<or>
      (b = data \<and> m = seg \<and> admissible sha a seg fm data \<and> i = ?i)" for i b m
    using R by (auto simp: map_add_segment_def split: if_splits option.splits)
  have keep: "slot_of a i \<noteq> None \<Longrightarrow> slot_of a' i \<noteq> None" for i
    using R by (auto simp: map_add_segment_def split: if_splits option.splits)
  have fill: "admissible sha a seg fm data \<Longrightarrow> slot_of a' ?i \<noteq> None"
    using R by (auto simp: map_add_segment_def split: if_splits option.splits)
  show ?case
  proof (intro conjI allI impI ballI)
    show "asm_inv sha ?z" "as_root_compressed_size ?z = as_root_compressed_size a" by (rule IH(1), rule IH(2))
    show "slot_of a i = Some (b, m) \<or>
       (\<exists>fm. (m, fm, b) \<in> set (call # calls) \<and> admissible sha a m fm b \<and> unat (sg_segment_index m) = i)"
      if "slot_of ?z i = Some (b, m)" for i b m
      using IH(3) [OF that] step [of i b m] by (auto simp: call)
    show "slot_of ?z i \<noteq> None" if "slot_of a i \<noteq> None" for i using IH(4) [OF keep [OF that]] .
    show "slot_of ?z (unat (sg_segment_index m)) \<noteq> None"
      if "(m, f, b) \<in> set (call # calls) \<and> admissible sha a m f b" for m f b
    proof (cases "(m, f, b) \<in> set calls")
      case True
      then show ?thesis using that by (intro IH(5)) auto
    next
      case False
      then have "m = seg" "f = fm" "b = data" using that by (simp_all add: call)
      then show ?thesis using that by (simp only:) (intro IH(4) fill, blast)
    qed
  qed
qed auto

text \<open>A call that presents segment \<open>i\<close> of a stream with its coordinates to an assembler.\<close>

definition presents :: "assembler \<Rightarrow> bytes \<Rightarrow> nat \<Rightarrow> segment_meta \<times> file_meta \<times> bytes \<Rightarrow> bool" where
  "presents a st i = (\<lambda>(seg, fm, data).
     sg_root_session_id seg = as_root_session_id a \<and> sg_segment_count seg = as_total_segments a \<and>
     sg_root_sha256 seg = as_root_sha256 a \<and> fm_filename fm = as_filename a \<and>
     sg_root_original_size seg = as_root_compressed_size a \<and>
     unat (sg_segment_index seg) = i \<and> unat (sg_original_offset seg) = i * seg_bytes \<and>
     unat (fm_compressed_size fm) = length data \<and> data = stream_segment st i)"

lemma presents_admissible:
  assumes "asm_inv sha a" "unat (as_root_compressed_size a) = length st" "i < seg_count (length st)"
    and "unat (sg_segment_index seg) = i" "sg_raw_sha256 seg = sha (stream_segment st i)"
    and "sha data = sha (stream_segment st i) \<Longrightarrow> data = stream_segment st i"
  shows "admissible sha a seg fm data \<longleftrightarrow> presents a st i (seg, fm, data)"
proof -
  have n: "0 < length st" "seg_count (length st) \<le> 131072" "unat (as_total_segments a) = seg_count (length st)"
    using assms(1,2) by (simp_all add: asm_inv_def Let_def)
  have size: "unat (sg_root_original_size seg) = length st \<longleftrightarrow> sg_root_original_size seg = as_root_compressed_size a"
    using assms(2) by (auto simp: word_unat_eq_iff)
  show ?thesis
    using assms(3-6) n size unfolding admissible_def presents_def range_ok_def Let_def assms(2)
    by (auto simp: stream_segment_length)
qed

text \<open>
  C34: adding the segments of a stream puts the stream together.  Take a new assembler for a
  stream and any sequence of \<open>add_segment\<close> calls, in any order, with repetitions, wrong coordinates
  and corrupt data among them, as long as what names this transfer announces the digests of the
  stream's segments and no data that is presented has the digest of a segment without being it.  Then
  \<open>reassemble\<close> gives the stream if every segment has been presented with its coordinates at least
  once, the stream is at most 256 MiB long and the allocation is granted; otherwise it gives nothing.
\<close>

theorem reassemble_stream:
  assumes "assembler_new g1 g2 seg0 fm0 = Inr a" "unat (sg_root_original_size seg0) = length st"
    and "\<And>seg fm data. (seg, fm, data) \<in> set calls \<Longrightarrow> length data < 2 ^ 64"
    and "\<And>seg fm data. (seg, fm, data) \<in> set calls \<Longrightarrow> sg_root_session_id seg = as_root_session_id a \<Longrightarrow>
      sg_root_sha256 seg = as_root_sha256 a \<Longrightarrow>
      sg_raw_sha256 seg = sha (stream_segment st (unat (sg_segment_index seg)))"
    and "\<And>seg fm data. (seg, fm, data) \<in> set calls \<Longrightarrow> sha data = sha (stream_segment st (unat (sg_segment_index seg))) \<Longrightarrow>
      data = stream_segment st (unat (sg_segment_index seg))"
  shows "reassemble grant (add_all sha calls a) =
    (if (\<forall>i < seg_count (length st). \<exists>call \<in> set calls. presents a st i call) \<and>
        length st \<le> 268435456 \<and> grant (length st)
     then Some st else None)"
proof -
  let ?z = "add_all sha calls a" and ?N = "seg_count (length st)"
  from asm_inv_new [OF assms(1), of sha] assms(2) have inv: "asm_inv sha a" and empty: "slot_of a = Map.empty"
    and n: "unat (as_root_compressed_size a) = length st" by auto
  have "\<forall>c \<in> set calls. length (snd (snd c)) < 2 ^ 64" using assms(3) by auto
  note A = add_all_slots [OF inv this]
  then have zinv: "asm_inv sha ?z" and zn: "unat (as_root_compressed_size ?z) = length st"
    using n by simp_all
  have stored: "\<exists>fm. (m, fm, b) \<in> set calls \<and> admissible sha a m fm b \<and> unat (sg_segment_index m) = i"
    if "slot_of ?z i = Some (b, m)" for i b m
  proof -
    have "slot_of a i \<noteq> Some (b, m)" by (simp add: empty)
    with A that show ?thesis by blast
  qed
  have filled: "slot_of ?z (unat (sg_segment_index seg)) \<noteq> None"
    if "(seg, fm, data) \<in> set calls" "admissible sha a seg fm data" for seg fm data
    using A that by blast
  have digest: "sg_raw_sha256 seg = sha (stream_segment st (unat (sg_segment_index seg)))"
    if "(seg, fm, data) \<in> set calls" "admissible sha a seg fm data \<or> presents a st i (seg, fm, data)" for seg fm data i
    using assms(4) [OF that(1)] that(2) by (auto simp: admissible_def presents_def)
  have "slot_of ?z i \<noteq> None \<longleftrightarrow> (\<exists>call \<in> set calls. presents a st i call)" if i: "i < ?N" for i
  proof
    assume "slot_of ?z i \<noteq> None"
    then obtain b m where "slot_of ?z i = Some (b, m)" by fastforce
    from stored [OF this] obtain fm where c: "(m, fm, b) \<in> set calls" "admissible sha a m fm b" "unat (sg_segment_index m) = i"
      by blast
    from presents_admissible [OF inv n i c(3), of b fm] digest [OF c(1)] assms(5) [OF c(1)] c
    show "\<exists>call \<in> set calls. presents a st i call" by auto
  next
    assume "\<exists>call \<in> set calls. presents a st i call"
    then obtain seg fm data where c: "(seg, fm, data) \<in> set calls" "presents a st i (seg, fm, data)" by auto
    then have idx: "unat (sg_segment_index seg) = i" by (simp add: presents_def)
    from presents_admissible [OF inv n i idx, of data fm] digest [OF c(1)] assms(5) [OF c(1)] c(2) idx
    have "admissible sha a seg fm data" by auto
    from filled [OF c(1) this] show "slot_of ?z i \<noteq> None" unfolding idx .
  qed
  then have full: "(\<forall>i < ?N. slot_of ?z i \<noteq> None) \<longleftrightarrow> (\<forall>i < ?N. \<exists>call \<in> set calls. presents a st i call)" by blast
  have right: "b = stream_segment st i" if s: "slot_of ?z i = Some (b, m)" for i b m
  proof -
    from stored [OF s] obtain fm where c: "(m, fm, b) \<in> set calls" "admissible sha a m fm b" "unat (sg_segment_index m) = i"
      by blast
    from c(2) have "sha b = sg_raw_sha256 m" by (simp add: admissible_def)
    with digest [OF c(1)] c(2) assms(5) [OF c(1)] c(3) show ?thesis by auto
  qed
  show ?thesis unfolding full [symmetric] by (rule reassemble_right [OF zinv zn right])
qed

text \<open>The states an assembler passes through.\<close>

inductive asm_steps :: "(bytes \<Rightarrow> bytes) \<Rightarrow> assembler \<Rightarrow> assembler \<Rightarrow> bool" for sha where
  steps_refl: "asm_steps sha a a"
| steps_add: "asm_steps sha a a' \<Longrightarrow> length data < 2 ^ 64 \<Longrightarrow> add_segment sha seg fm data a' = (a'', r) \<Longrightarrow>
    asm_steps sha a a''"

text \<open>
  C40: a segment shorter than its canonical range is accepted and counted, but the slot is
  then taken for good: no later sequence of segments makes \<open>reassemble\<close> return anything, even
  once the assembler reports itself complete.
\<close>

theorem short_segment_stuck:
  assumes "asm_reach sha a" "slot_of a i = Some (b, m)"
    and "length b < seg_len (unat (as_root_compressed_size a)) i" "asm_steps sha a a'"
  shows "slot_of a' i = Some (b, m) \<and> reassemble grant a' = None"
proof -
  have "asm_inv sha a' \<and> slot_of a' i = Some (b, m) \<and> as_root_compressed_size a' = as_root_compressed_size a"
    using assms(4,1,2)
  proof (induction rule: asm_steps.induct)
    case (steps_refl a)
    then show ?case by (simp add: asm_reach_inv)
  next
    case (steps_add a a' data seg fm a'' r)
    then show ?case using stored_stays add_segment_refines by metis
  qed
  then have inv: "asm_inv sha a'" "slot_of a' i = Some (b, m)" "as_root_compressed_size a' = as_root_compressed_size a"
    by simp_all
  have "i < seg_count (unat (as_root_compressed_size a'))"
    using slots.get_bound [of a' i] inv(1,2) by (simp add: asm_inv_def Let_def)
  moreover have "length (stored a' i) \<noteq> seg_len (unat (as_root_compressed_size a')) i"
    using inv(2,3) assms(3) by (simp add: stored_def)
  ultimately have "\<not> all_full a'" by (auto simp: all_full_def)
  with inv(1,2) show ?thesis by (simp add: reassemble_spec)
qed

section \<open>A small transfer\<close>

text \<open>Five bytes in one segment, under a digest that is the text itself.\<close>

definition demo_stream :: bytes where "demo_stream = [9, 8, 7, 6, 5]"

definition demo_segment :: "bytes \<Rightarrow> segment_meta" where
  "demo_segment digest = \<lparr>sg_root_session_id = 3, sg_segment_index = 0, sg_segment_count = 1, sg_original_offset = 0,
     sg_root_original_size = 5, sg_root_sha256 = [1], sg_raw_sha256 = digest\<rparr>"

definition demo_segment_file :: "u64 \<Rightarrow> file_meta" where
  "demo_segment_file n = file_meta_default\<lparr>fm_compressed_size := n, fm_compressed_size_known := True\<rparr>"

definition demo_assembler :: assembler where
  "demo_assembler = \<lparr>as_root_session_id = 3, as_filename = [], as_total_segments = 1, as_root_compressed_size = 5,
     as_root_original_size = 0, as_root_sha256 = [1], as_segments = [None], as_meta = [None], as_received_count = 0\<rparr>"

lemma demo_range: "unat n \<le> 5 \<Longrightarrow> range_ok (demo_segment d) (demo_segment_file n) 5"
  by (simp add: range_ok_def demo_segment_def demo_segment_file_def seg_count_def seg_len_def seg_bytes_def)

lemma demo_assembler_new:
  "assembler_new (\<lambda>_. True) (\<lambda>_. True) (demo_segment d) (demo_segment_file 5) = Inr demo_assembler"
proof -
  have "validate_segment_range (demo_segment d) (demo_segment_file 5) 5 = Inr ()"
    by (simp add: validate_range_iff demo_range)
  moreover have "expected_segment_count 5 = Some 1"
    by (simp add: expected_segment_count_Some seg_count_def seg_bytes_def)
  ultimately show ?thesis
    by (simp add: assembler_new_def demo_segment_def demo_segment_file_def demo_assembler_def
        MAX_SEGMENT_COUNT_def file_meta_default_def)
qed

lemma demo_add:
  assumes "length data \<le> 5"
  shows "add_segment (\<lambda>x. x) (demo_segment data) (demo_segment_file (of_nat (length data))) data demo_assembler =
    (store_segment 0 (data, demo_segment data) demo_assembler, Inr True)"
proof -
  have u: "unat (of_nat (length data) :: u64) = length data" using assms by (intro unat_of_nat_len) simp
  have "validate_segment_range (demo_segment data) (demo_segment_file (of_nat (length data))) 5 = Inr ()"
    using assms by (simp add: validate_range_iff demo_range u)
  moreover have "\<not> segment_raw_len 5 0 < of_nat (length data)"
    using assms by (simp add: word_less_nat_alt raw_len_unat u seg_len_def seg_bytes_def)
  ultimately show ?thesis
    by (simp add: add_segment_def demo_segment_def demo_assembler_def demo_segment_file_def file_meta_default_def Let_def)
qed

lemma demo_slot: "slot_of (store_segment 0 v demo_assembler) = [0 \<mapsto> v]"
  using slots.get_put [of 0 demo_assembler v] by (auto simp: demo_assembler_def slot_of_def fun_eq_iff)

lemma demo_reach:
  assumes "length data \<le> 5"
  shows "asm_reach (\<lambda>x. x) (store_segment 0 (data, demo_segment data) demo_assembler)"
  by (rule asm_add [OF asm_start [OF demo_assembler_new] _ demo_add [OF assms]]) (use assms in simp)

lemma assembler_refines_map_witness:
  "\<exists>a'. add_segment (\<lambda>x. x) (demo_segment demo_stream) (demo_segment_file 5) demo_stream demo_assembler = (a', Inr True) \<and>
     assembler_is_complete a' \<and> has_segment a' 0"
proof -
  have l: "length demo_stream = 5" by (simp add: demo_stream_def)
  have add: "add_segment (\<lambda>x. x) (demo_segment demo_stream) (demo_segment_file 5) demo_stream demo_assembler =
      (store_segment 0 (demo_stream, demo_segment demo_stream) demo_assembler, Inr True)"
    using demo_add [of demo_stream] l by simp
  have "as_total_segments (store_segment 0 v demo_assembler) = 1" for v
    by (simp add: store_segment_def demo_assembler_def)
  with assembler_refines_map [OF asm_start [OF demo_assembler_new] _ add] show ?thesis
    by (auto simp: add demo_slot l lessThan_Suc)
qed

text \<open>A repeat and a corrupt segment among the calls.\<close>

lemma reassemble_stream_witness:
  "reassemble (\<lambda>_. True) (add_all (\<lambda>x. x) [(demo_segment demo_stream, demo_segment_file 5, [1, 2]),
      (demo_segment demo_stream, demo_segment_file 5, demo_stream),
      (demo_segment demo_stream, demo_segment_file 5, demo_stream)] demo_assembler) = Some demo_stream"
proof -
  let ?good = "(demo_segment demo_stream, demo_segment_file 5, demo_stream)"
  let ?calls = "[(demo_segment demo_stream, demo_segment_file 5, [1, 2]), ?good, ?good]"
  have l: "length demo_stream = 5" "seg_count 5 = 1" by (simp_all add: demo_stream_def seg_count_def seg_bytes_def)
  have s: "stream_segment demo_stream 0 = demo_stream"
    by (simp add: stream_segment_def demo_stream_def seg_len_def seg_bytes_def)
  have p: "presents demo_assembler demo_stream 0 ?good"
    using l s by (simp add: presents_def demo_assembler_def demo_segment_def demo_segment_file_def file_meta_default_def)
  have "reassemble (\<lambda>_. True) (add_all (\<lambda>x. x) ?calls demo_assembler) =
      (if (\<forall>i < seg_count (length demo_stream). \<exists>call \<in> set ?calls. presents demo_assembler demo_stream i call) \<and>
         length demo_stream \<le> 268435456 \<and> True then Some demo_stream else None)"
    by (rule reassemble_stream [OF demo_assembler_new]) (use s l in \<open>auto simp: demo_segment_def\<close>)
  then show ?thesis using p l by simp
qed

lemma short_segment_stuck_witness:
  "reassemble (\<lambda>_. True) (store_segment 0 ([1], demo_segment [1]) demo_assembler) = None"
proof -
  let ?a = "store_segment 0 ([1], demo_segment [1]) demo_assembler"
  have r: "asm_reach (\<lambda>x. x) ?a" by (intro demo_reach) simp
  have "slot_of ?a 0 = Some ([1], demo_segment [1])" by (simp add: demo_slot)
  moreover have "length [1 :: u8] < seg_len (unat (as_root_compressed_size ?a)) 0"
    by (simp add: store_segment_def demo_assembler_def seg_len_def seg_bytes_def)
  ultimately show ?thesis using short_segment_stuck [OF r _ _ steps_refl] by blast
qed

end
