(* ===== verification/End_To_End_Demo.thy ===== *)
theory End_To_End_Demo
  imports End_To_End Assembler Sender_Demo
begin

text \<open>
  The witnesses of the receiver's and the transfer's properties: the three-byte session of
  \<open>Sender_Demo\<close> received in full, and a receiver restored from a checkpoint.
\<close>

section \<open>A restored receiver\<close>

definition demo_state :: resume_state where
  "demo_state = \<lparr>re_session_id = 7, re_meta = demo_meta, re_received = [{5}], re_symbols = [(0, 0, demo_packet)]\<rparr>"

lemma demo_meta_ok: "meta_ok ref_rq demo_meta"
  using demo_decoder_new by (simp add: decoder_new_Inr)

lemma demo_resume_ok: "resume_ok ref_rq demo_state"
  using demo_meta_ok by (simp add: resume_ok_def demo_state_def symbol_record_ok_def stored_bytes_def) (simp add: demo_meta_def)

lemma demo_restored:
  obtains s where "restore ref_rq demo_state = Inr s" "rx_inv ref_rq [demo_symbol] s" "rx_meta s = Some demo_meta"
    "rx_session_id s = 7" "receiver_is_complete s" "rx_decoder s = Some (feed ref_rq demo_decoder demo_symbol)"
proof -
  have l: "length (re_symbols demo_state) < 2 ^ 64" by (simp add: demo_state_def)
  have log: "first_symbols [] (map record_symbol (re_symbols demo_state)) = [demo_symbol]"
    by (simp add: demo_state_def record_symbol_def demo_symbol_def)
  from restore_spec [OF l, of ref_rq] demo_resume_ok log obtain s where s: "restore ref_rq demo_state = Inr s"
    "rx_inv ref_rq [demo_symbol] s" "rx_meta s = Some demo_meta" "rx_session_id s = 7"
    by (cases "restore ref_rq demo_state") (auto simp: demo_state_def)
  then have d: "rx_decoder s = Some (feed ref_rq demo_decoder demo_symbol)"
    using demo_decoder_new by (auto simp: rx_inv_def rx_core_def)
  have "decoder_is_complete (feed ref_rq demo_decoder demo_symbol)"
    by (simp add: feed_def add_symbol_def demo_decoder_def demo_symbol_def demo_meta_def ref_rq_def
        ref_decode_def decoder_is_complete_def esi_limit)
  with s d show thesis by (intro that) (auto simp: receiver_is_complete_def)
qed

lemma resume_validate_exact_witness: "resume_validate ref_rq demo_state = Inr ()"
  using resume_validate_exact [of demo_state ref_rq] demo_resume_ok by (simp add: demo_state_def)

lemma restore_exact_witness:
  "\<exists>s. restore ref_rq demo_state = Inr s \<and> rx_received s ! 0 = {0}"
proof -
  have "length (re_symbols demo_state) < 2 ^ 64" by (simp add: demo_state_def)
  note R = restore_exact [OF this, of ref_rq]
  have "received_in (first_symbols [] (map record_symbol (re_symbols demo_state))) 0 = {0}"
    by (auto simp: demo_state_def record_symbol_def received_in_def symbol_new_def)
  moreover have "0 < length (m_blocks (re_meta demo_state))" by (simp add: demo_state_def demo_meta_def)
  ultimately show ?thesis using R demo_resume_ok by (cases "restore ref_rq demo_state") (auto simp: is_ok_iff)
qed

text \<open>A repair symbol the restored session no longer needs.\<close>

definition late_frame :: frame where
  "late_frame = frame_build (\<lambda>_. 5) 7 0 0 9 1 1 64 3 4 demo_packet"

lemma late_length: "length (fr_payload late_frame) < 2 ^ 32"
  by (simp add: late_frame_def)

lemma demo_restored_reach:
  obtains s where "rx_reach ref_rq (\<lambda>c. c) s" "receiver_is_complete s" "rx_meta s = Some demo_meta"
    "rx_decoder s = Some (feed ref_rq demo_decoder demo_symbol)" "rx_session_id s = 7"
proof -
  obtain s where "restore ref_rq demo_state = Inr s" "rx_inv ref_rq [demo_symbol] s" "rx_meta s = Some demo_meta"
    "rx_session_id s = 7" "receiver_is_complete s" "rx_decoder s = Some (feed ref_rq demo_decoder demo_symbol)"
    by (rule demo_restored)
  moreover from this have "rx_reach ref_rq (\<lambda>c. c) s" by (intro reach_restored) (simp_all add: demo_state_def)
  ultimately show thesis by (intro that)
qed

lemma ingest_never_fails_witness:
  "\<exists>s s' r. rx_reach ref_rq (\<lambda>c. c) s \<and> ingest ref_rq (\<lambda>c. c) late_frame s = (s', r) \<and> r = Inr (receiver_is_complete s')"
proof -
  obtain s where s: "rx_reach ref_rq (\<lambda>c. c) s" "rx_session_id s = 7" by (rule demo_restored_reach)
  obtain s' r where i: "ingest ref_rq (\<lambda>c. c) late_frame s = (s', r)" by (cases "ingest ref_rq (\<lambda>c. c) late_frame s")
  have "fh_session_id (fr_header late_frame) = rx_session_id s" by (simp add: late_frame_def s)
  with ingest_never_fails [OF s(1) refl late_length i] s(1) i show ?thesis by auto
qed

lemma descriptor_immutable_witness:
  "\<exists>s. rx_reach ref_rq (\<lambda>c. c) s \<and> rx_meta (ingest_all ref_rq (\<lambda>c. c) s [late_frame]) = Some demo_meta"
proof -
  obtain s where s: "rx_reach ref_rq (\<lambda>c. c) s" "rx_meta s = Some demo_meta"
    "rx_decoder s = Some (feed ref_rq demo_decoder demo_symbol)" by (rule demo_restored_reach)
  have "length (fr_payload f) < 2 ^ 32" if "f \<in> set [late_frame]" for f using that late_length by simp
  from descriptor_immutable [OF s(1) refl this s(2,3)] s(1) show ?thesis by blast
qed

lemma completion_frozen_witness:
  "\<exists>s. rx_reach ref_rq (\<lambda>c. c) s \<and> receiver_is_complete (ingest_all ref_rq (\<lambda>c. c) s [late_frame, late_frame])"
proof -
  obtain s where s: "rx_reach ref_rq (\<lambda>c. c) s" "receiver_is_complete s" by (rule demo_restored_reach)
  have "length (fr_payload f) < 2 ^ 32" if "f \<in> set [late_frame, late_frame]" for f using that late_length by simp
  from completion_frozen [OF s refl this] s(1) show ?thesis by blast
qed

lemma progress_exact_witness:
  "\<exists>s. rx_reach ref_rq (\<lambda>c. c) s \<and> progress_is_complete (rx_progress s) \<and> unat (pg_total_symbols (rx_progress s)) = 1"
proof -
  obtain s where s: "rx_reach ref_rq (\<lambda>c. c) s" "rx_meta s = Some demo_meta"
    "rx_decoder s = Some (feed ref_rq demo_decoder demo_symbol)" "receiver_is_complete s" by (rule demo_restored_reach)
  have "sum_symbols (m_blocks demo_meta) = 1" by (simp add: demo_meta_def)
  with progress_exact [OF s(1) refl s(2,3)] s(1,4) show ?thesis by auto
qed

lemma checkpoint_restarts_witness:
  "\<exists>s st. rx_reach ref_rq (\<lambda>c. c) s \<and> save_state (\<lambda>c. c) s = Some st \<and> re_symbols st = []"
proof -
  obtain s where s: "rx_reach ref_rq (\<lambda>c. c) s" "rx_meta s = Some demo_meta" by (rule demo_restored_reach)
  from checkpoint_restarts [OF s(1) refl s(2)] s(1) show ?thesis by blast
qed

lemma bootstrap_cache_bounded_witness:
  "length (rx_symbol_cache (ingest_all ref_rq (\<lambda>c. c) (new_pending 7) [late_frame])) \<le> 524288"
proof -
  have "length (fr_payload f) < 2 ^ 32" if "f \<in> set [late_frame]" for f using that late_length by simp
  from bootstrap_cache_bounded [OF refl this] show ?thesis by blast
qed

section \<open>A whole transfer\<close>

lemma demo_announce: "announce_ok demo_sender"
  using demo_desc_wf
  by (simp add: announce_ok_def demo_sender_def desc_wf_def)
    (simp add: demo_file_def demo_desc_meta_def is_known_compression_tag_def COMPRESSION_NONE_def MAX_ORIGINAL_BYTES_def
      word_le_nat_alt)

lemma demo_size: "fm_compressed_size demo_file = of_nat (length [1 :: u8, 2, 3])" "fm_compression demo_file = COMPRESSION_NONE"
  by (simp_all add: demo_file_def COMPRESSION_NONE_def)

lemma demo_blocks: "m_blocks (sn_meta demo_sender) = [\<lparr>b_sbn = 0, b_num_source_symbols = 1, b_block_length = 72\<rparr>]"
  by (simp add: demo_sender_def demo_desc_meta_def)

lemma demo_enough: "sum_symbols (m_blocks (sn_meta demo_sender)) \<le> 2 - descriptors_before 2"
  by (simp add: demo_blocks descriptors_before_def)

lemma lossless_transfer_witness:
  "\<exists>s' rs fs rx. emit_n ref_rq (\<lambda>_. 5) (\<lambda>_. (1, 2, 3)) 2 demo_sender = (s', rs) \<and> rs = map Inr fs \<and>
     assemble_result demo_codecs (ingest_all ref_rq (\<lambda>c. c) (from_first_frame (hd fs))
       (received_frames (\<lambda>_. 5) (map frame_to_bytes fs))) = (rx, Inr (Some [1, 2, 3]))"
proof -
  obtain s' rs where e: "emit_n ref_rq (\<lambda>_. 5) (\<lambda>_. (1, 2, 3)) 2 demo_sender = (s', rs)"
    by (cases "emit_n ref_rq (\<lambda>_. 5) (\<lambda>_. (1, 2, 3)) 2 demo_sender")
  from lossless_transfer [OF ref_upstream demo_sender_new sent_len demo_announce demo_size refl _ demo_enough e,
      where cx = demo_codecs] e show ?thesis by auto
qed

text \<open>The two frames of the session.\<close>

lemma sender_run_append:
  "sender_run rq crc s fs s1 \<Longrightarrow> next_frame rq crc clock s1 = (s2, Inr f) \<Longrightarrow> sender_run rq crc s (fs @ [f]) s2"
proof (induction rule: sender_run.induct)
  case (run_done s)
  from run_emit [OF run_done sender_run.run_done] show ?case by simp
qed (auto intro: sender_run.intros)

lemma emit_n_run:
  "emit_n rq crc clock n s = (s', map Inr fs) \<Longrightarrow> sender_run rq crc s fs s'"
proof (induction n arbitrary: s' fs)
  case 0
  then show ?case by (auto intro: sender_run.run_done)
next
  case (Suc n)
  obtain s1 rs where e: "emit_n rq crc clock n s = (s1, rs)" by (cases "emit_n rq crc clock n s")
  obtain r where r: "next_frame rq crc (clock n) s1 = (s', r)" "map Inr fs = rs @ [r]"
    using Suc.prems e by (auto split: prod.splits)
  then obtain gs f where g: "fs = gs @ [f]" "rs = map Inr gs" "r = Inr f"
    by (auto simp: map_eq_append_conv)
  with Suc.IH e r show ?case by (auto intro: sender_run_append)
qed

lemma demo_frames:
  obtains d f s' where "sender_run ref_rq (\<lambda>_. 5) demo_sender [d, f] s'"
    "sent_frame ref_rq (\<lambda>_. 5) demo_sender d" "\<not> is_data d" "sent_frame ref_rq (\<lambda>_. 5) demo_sender f"
    "is_data f" "data_id f = (0, 0)"
proof -
  note N = sender_new_inv [OF ref_upstream demo_sender_new sent_len]
  obtain s' rs where e: "emit_n ref_rq (\<lambda>_. 5) (\<lambda>_. (1, 2, 3)) 2 demo_sender = (s', rs)"
    by (cases "emit_n ref_rq (\<lambda>_. 5) (\<lambda>_. (1, 2, 3)) 2 demo_sender")
  from emit_n_schedule [OF ref_upstream N(1,2) sent_len N(4,5,7) _ e]
  have sch: "length rs = 2" "\<forall>i < 2. scheduled ref_rq (\<lambda>_. 5) demo_sender i (rs ! i)" by simp_all
  have "scheduled ref_rq (\<lambda>_. 5) demo_sender 0 (rs ! 0)" "scheduled ref_rq (\<lambda>_. 5) demo_sender 1 (rs ! 1)"
    using sch(2) by simp_all
  then obtain d f where d: "rs ! 0 = Inr d" "sent_frame ref_rq (\<lambda>_. 5) demo_sender d" "\<not> is_data d"
    and f: "rs ! 1 = Inr f" "sent_frame ref_rq (\<lambda>_. 5) demo_sender f" "is_data f"
      "id_at (sn_meta demo_sender) (1 - descriptors_before 1) = Some (data_id f)"
    unfolding scheduled_def by auto
  have "rs = map Inr [d, f]" using sch(1) d(1) f(1)
    by (intro nth_equalityI) (auto simp: less_Suc_eq numeral_2_eq_2)
  then have run: "sender_run ref_rq (\<lambda>_. 5) demo_sender [d, f] s'" using e by (intro emit_n_run) simp
  have "build_source_plan (sn_meta demo_sender) = [(0, 0)]"
    by (simp add: build_source_plan_def max_k_def demo_blocks)
  then have "data_id f = (0, 0)" using f(4) by (simp add: id_at_def descriptors_before_def)
  with run d f show thesis by (intro that)
qed

lemma demo_covers: "is_data f \<Longrightarrow> data_id f = (0, 0) \<Longrightarrow> covers demo_sender [f]"
  by (auto simp: covers_def demo_blocks word_unat_eq_iff)

lemma transfer_completes_witness:
  "\<exists>d f rx. \<not> is_data d \<and> is_data f \<and>
     assemble_result demo_codecs (ingest_all ref_rq (\<lambda>c. c) (new_pending 7) ([] @ d # [f, f])) = (rx, Inr (Some [1, 2, 3]))"
proof -
  obtain d f s' where d: "sent_frame ref_rq (\<lambda>_. 5) demo_sender d" "\<not> is_data d"
    and f: "sent_frame ref_rq (\<lambda>_. 5) demo_sender f" "is_data f" "data_id f = (0, 0)" by (rule demo_frames)
  have tr: "trusted ref_rq (\<lambda>_. 5) demo_sender g" if "g \<in> set ([] @ d # [f, f])" for g
    using that d f by (auto simp: trusted_def sent_frame_def)
  have "set [f] \<subseteq> set [f, f]" "\<And>g. g \<in> set [f] \<Longrightarrow> sent_frame ref_rq (\<lambda>_. 5) demo_sender g" using f by auto
  from transfer_completes [OF ref_upstream demo_sender_new sent_len demo_announce demo_size(1) refl tr d this
      demo_covers [OF f(2,3)], where cx = demo_codecs] demo_size(2) d f show ?thesis by blast
qed

lemma transfer_never_wrong_witness:
  "\<exists>fs s' rx v. sender_run ref_rq (\<lambda>_. 5) demo_sender fs s' \<and>
     assemble_result demo_codecs (ingest_all ref_rq (\<lambda>c. c) (new_pending 7)
       (received_frames (\<lambda>_. 5) (map frame_to_bytes fs))) = (rx, Inr (Some v)) \<and> v = [1, 2, 3]"
proof -
  obtain d f s' where run: "sender_run ref_rq (\<lambda>_. 5) demo_sender [d, f] s'"
    and d: "sent_frame ref_rq (\<lambda>_. 5) demo_sender d" "\<not> is_data d"
    and f: "sent_frame ref_rq (\<lambda>_. 5) demo_sender f" "is_data f" "data_id f = (0, 0)" by (rule demo_frames)
  let ?bss = "map frame_to_bytes [d, f]"
  have rf: "received_frames (\<lambda>_. 5) ?bss = [] @ d # [f]"
    unfolding append_Nil by (rule received_all) (use d(1) f(1) in \<open>auto simp: sent_frame_def\<close>)
  have tr: "trusted ref_rq (\<lambda>_. 5) demo_sender g" if "g \<in> set ([] @ d # [f])" for g
    using that d f by (auto simp: trusted_def sent_frame_def)
  have "set [f] \<subseteq> set [f]" "\<And>g. g \<in> set [f] \<Longrightarrow> sent_frame ref_rq (\<lambda>_. 5) demo_sender g" using f by auto
  from completes_after_descriptor [OF ref_upstream demo_sender_new sent_len demo_announce demo_size(1) refl tr d this
      demo_covers [OF f(2,3)], where cx = demo_codecs] demo_size(2) obtain rx where
    a: "assemble_result demo_codecs (ingest_all ref_rq (\<lambda>c. c) (new_pending 7) (received_frames (\<lambda>_. 5) ?bss)) =
      (rx, Inr (Some [1, 2, 3]))" unfolding rf by blast
  have "bs \<in> frame_to_bytes ` set [d, f]" if "bs \<in> set ?bss" for bs using that by auto
  from transfer_never_wrong [OF ref_upstream demo_sender_new sent_len demo_announce demo_size(1) run refl this a]
  have "delivers demo_codecs demo_file [1, 2, 3] [1, 2, 3]" .
  with run a show ?thesis by blast
qed

end
