(* ===== verification/Native_Sender.thy ===== *)
theory Native_Sender
  imports Sender Assembler
begin

text \<open>
  The sender that native hosts own, \<open>CffiSender\<close> of \<open>core/transfer-engine/src/cffi.rs\<close>: it keeps the
  whole uncompressed payload, splits it into canonical segments, and runs one sender session
  at a time.  The \<open>crc32fast\<close> and \<open>sha2\<close> functions are those of the record \<open>codecs\<close>.
\<close>

section \<open>Definitions\<close>

record 'e native_sender =
  ns_payload :: bytes
  ns_filename :: bytes
  ns_config :: sender_config
  ns_root_session_id :: u128
  ns_crc32 :: u32
  ns_root_sha256 :: bytes
  ns_segment_count :: u32
  ns_segment_index :: u32
  ns_session :: "'e sender"

text \<open>\<open>slice.get(a..b)\<close>.\<close>

definition get_range :: "'a list \<Rightarrow> nat \<Rightarrow> nat \<Rightarrow> 'a list option" where
  "get_range xs a b = (if a \<le> b \<and> b \<le> length xs then Some (take (b - a) (drop a xs)) else None)"

definition native_file_meta :: "bytes \<Rightarrow> u64 \<Rightarrow> u32 \<Rightarrow> u64 \<Rightarrow> file_meta" where
  "native_file_meta filename original_size crc compressed_size =
     \<lparr>fm_filename = filename, fm_original_size = original_size, fm_crc32 = crc,
      fm_compression = COMPRESSION_NONE, fm_compressed_size = compressed_size,
      fm_compressed_size_known = True, fm_crc32_known = True\<rparr>"

definition native_segment_meta :: "u128 \<Rightarrow> u32 \<Rightarrow> u32 \<Rightarrow> u64 \<Rightarrow> u64 \<Rightarrow> bytes \<Rightarrow> bytes \<Rightarrow> segment_meta" where
  "native_segment_meta root index count start original_size root_sha raw_sha =
     \<lparr>sg_root_session_id = root, sg_segment_index = index, sg_segment_count = count,
      sg_original_offset = start, sg_root_original_size = original_size,
      sg_root_sha256 = root_sha, sg_raw_sha256 = raw_sha\<rparr>"

definition build_session ::
  "('e, 'd) raptorq \<Rightarrow> codecs \<Rightarrow> bytes \<Rightarrow> bytes \<Rightarrow> sender_config \<Rightarrow> u128 \<Rightarrow> u32 \<Rightarrow> bytes \<Rightarrow> u32 \<Rightarrow> u32 \<Rightarrow>
   ('e sender, te_error) result" where
  "build_session rq cx payload filename cfg root crc root_sha count index =
     (let original_size = (of_nat (length payload) :: u64) in
      if count \<le> 1
      then sender_new rq payload root cfg (native_file_meta filename original_size crc original_size)
      else bind_result (ok_or (InvalidSegment ''segment offset overflow'')
             (checked_mul (ucast index) SEGMENT_RAW_BYTES)) (\<lambda>start.
        let stop = min (saturating_add start SEGMENT_RAW_BYTES) original_size in
        bind_result (ok_or (InvalidSegment ''segment offset exceeds host size'') (try_from start :: u64 option))
          (\<lambda>start_usize.
        bind_result (ok_or (InvalidSegment ''segment end exceeds host size'') (try_from stop :: u64 option))
          (\<lambda>end_usize.
        bind_result (ok_or (InvalidSegment ''segment range outside payload'')
             (get_range payload (unat start_usize) (unat end_usize))) (\<lambda>seg.
          sender_new_segment rq seg (derive_segment root index) cfg
            (native_file_meta filename original_size crc (of_nat (length seg)))
            (native_segment_meta root index count start original_size root_sha (sha256_of cx seg)))))))"

definition native_new ::
  "('e, 'd) raptorq \<Rightarrow> codecs \<Rightarrow> bytes \<Rightarrow> bytes \<Rightarrow> u64 \<Rightarrow> u8 \<Rightarrow> u32 \<Rightarrow> ('e native_sender, te_error) result" where
  "native_new rq cx payload filename modified_ms redundancy_pct symbol_size =
     (if payload = [] \<or> MAX_ORIGINAL_BYTES < of_nat (length payload) then Inl NoPayload
      else bind_result (map_err Raptorq (config_new symbol_size)) (\<lambda>codec.
        let cfg = \<lparr>sc_codec = codec, sc_redundancy_pct = redundancy_pct\<rparr> in
        bind_result (sender_config_validate cfg) (\<lambda>_.
        let head_end = min (length payload) 1024;
            tail_start = length payload - 1024;
            fingerprint = content_fingerprint (take head_end payload) (drop tail_start payload);
            root = derive filename (of_nat (length payload)) modified_ms fingerprint;
            crc = crc32_of cx payload;
            root_sha = sha256_of cx payload
        in bind_result (ok_or (InvalidSegment ''segment count overflow'')
             (Option.bind (checked_div (saturating_sub (of_nat (length payload) :: u64) 1) SEGMENT_RAW_BYTES)
               (\<lambda>n. checked_add n 1))) (\<lambda>count_u64.
           bind_result (ok_or (InvalidSegment ''segment count exceeds protocol budget'') (try_from count_u64))
             (\<lambda>count.
           bind_result (build_session rq cx payload filename cfg root crc root_sha count 0) (\<lambda>session.
             Inr \<lparr>ns_payload = payload, ns_filename = filename, ns_config = cfg, ns_root_session_id = root,
                  ns_crc32 = crc, ns_root_sha256 = root_sha, ns_segment_count = count,
                  ns_segment_index = 0, ns_session = session\<rparr>))))))"

definition native_select ::
  "('e, 'd) raptorq \<Rightarrow> codecs \<Rightarrow> 'e native_sender \<Rightarrow> u32 \<Rightarrow> 'e native_sender \<times> (unit, te_error) result" where
  "native_select rq cx h index =
     (if ns_segment_count h \<le> index then (h, Inl (InvalidSegment ''segment index out of range''))
      else case build_session rq cx (ns_payload h) (ns_filename h) (ns_config h) (ns_root_session_id h)
                  (ns_crc32 h) (ns_root_sha256 h) (ns_segment_count h) index of
             Inl e \<Rightarrow> (h, Inl e)
           | Inr next \<Rightarrow> (h\<lparr>ns_segment_index := index, ns_session := next\<rparr>, Inr ()))"

section \<open>What a session of a segment sends\<close>

text \<open>The bytes of segment \<open>i\<close>, and the metadata they are announced with.\<close>

definition segment_data :: "bytes \<Rightarrow> nat \<Rightarrow> bytes" where
  "segment_data payload i = (if seg_count (length payload) = 1 then payload else stream_segment payload i)"

definition segment_file :: "'e native_sender \<Rightarrow> nat \<Rightarrow> file_meta" where
  "segment_file h i = native_file_meta (ns_filename h) (of_nat (length (ns_payload h))) (ns_crc32 h)
     (of_nat (length (segment_data (ns_payload h) i)))"

definition segment_info :: "codecs \<Rightarrow> 'e native_sender \<Rightarrow> nat \<Rightarrow> segment_meta option" where
  "segment_info cx h i =
     (if seg_count (length (ns_payload h)) = 1 then None
      else Some (native_segment_meta (ns_root_session_id h) (of_nat i) (ns_segment_count h)
             (of_nat (i * seg_bytes)) (of_nat (length (ns_payload h))) (ns_root_sha256 h)
             (sha256_of cx (segment_data (ns_payload h) i))))"

definition segment_session_id :: "'e native_sender \<Rightarrow> nat \<Rightarrow> u128" where
  "segment_session_id h i =
     (if seg_count (length (ns_payload h)) = 1 then ns_root_session_id h
      else derive_segment (ns_root_session_id h) (of_nat i))"

text \<open>A handle: a payload within the limits, and its identity.\<close>

definition native_ok :: "codecs \<Rightarrow> 'e native_sender \<Rightarrow> bool" where
  "native_ok cx h \<longleftrightarrow> 0 < length (ns_payload h) \<and> length (ns_payload h) \<le> 268435456 \<and>
     unat (ns_segment_count h) = seg_count (length (ns_payload h)) \<and>
     unat (ns_segment_index h) < seg_count (length (ns_payload h)) \<and>
     ns_crc32 h = crc32_of cx (ns_payload h) \<and> ns_root_sha256 h = sha256_of cx (ns_payload h) \<and>
     (\<exists>s. config_new s = Inr (sc_codec (ns_config h))) \<and> sender_config_validate (ns_config h) = Inr ()"

lemma seg_count_native: "0 < n \<Longrightarrow> n \<le> 268435456 \<Longrightarrow> seg_count n \<le> 9"
proof -
  assume "0 < n" "n \<le> 268435456"
  then have "(n - 1) div seg_bytes \<le> 268435456 div seg_bytes" by (intro div_le_mono) simp
  then show ?thesis by (simp add: seg_count_def seg_bytes_def)
qed

lemma seg_count_one: "0 < n \<Longrightarrow> seg_count n = Suc 0 \<longleftrightarrow> n \<le> seg_bytes"
  by (auto simp: seg_count_def div_eq_0_iff) (simp add: seg_bytes_def)

lemma segment_data_length:
  assumes "0 < length p" "i < seg_count (length p)"
  shows "0 < length (segment_data p i)" "length (segment_data p i) \<le> seg_bytes"
    "length (segment_data p i) = seg_len (length p) i"
proof -
  have i: "i * seg_bytes < length p" using assms by (simp add: seg_index_in)
  show l: "length (segment_data p i) = seg_len (length p) i"
  proof (cases "seg_count (length p) = 1")
    case True
    with assms have "i = 0" "length p \<le> seg_bytes" by (simp_all add: seg_count_one)
    with True show ?thesis by (simp add: segment_data_def seg_len_def)
  qed (simp add: segment_data_def stream_segment_length)
  show "0 < length (segment_data p i)" "length (segment_data p i) \<le> seg_bytes"
    using i unfolding l by (simp_all add: seg_len_def)
qed

lemma segment_data_concat:
  assumes "0 < length p"
  shows "concat (map (segment_data p) [0..<seg_count (length p)]) = p"
proof (cases "seg_count (length p) = 1")
  case False
  then have "segment_data p = stream_segment p" by (simp add: segment_data_def fun_eq_iff)
  then show ?thesis using concat_stream_segments [OF assms] by simp
qed (simp add: segment_data_def)

lemma build_session_iff:
  assumes ok: "native_ok cx h" and i: "unat index < seg_count (length (ns_payload h))"
  shows "build_session rq cx (ns_payload h) (ns_filename h) (ns_config h) (ns_root_session_id h) (ns_crc32 h)
      (ns_root_sha256 h) (ns_segment_count h) index =
    (case segment_info cx h (unat index) of
       None \<Rightarrow> sender_new rq (segment_data (ns_payload h) (unat index)) (segment_session_id h (unat index))
         (ns_config h) (segment_file h (unat index))
     | Some seg \<Rightarrow> sender_new_segment rq (segment_data (ns_payload h) (unat index))
         (segment_session_id h (unat index)) (ns_config h) (segment_file h (unat index)) seg)"
proof -
  let ?n = "length (ns_payload h)"
  have n: "0 < ?n" "?n \<le> 268435456" and c: "unat (ns_segment_count h) = seg_count ?n"
    using ok by (auto simp: native_ok_def)
  have one: "ns_segment_count h \<le> 1 \<longleftrightarrow> seg_count ?n = 1"
    using c by (auto simp: word_le_nat_alt seg_count_def)
  show ?thesis
  proof (cases "seg_count ?n = 1")
    case True
    then show ?thesis
      by (simp add: build_session_def one segment_info_def segment_data_def segment_session_id_def
          segment_file_def Let_def)
  next
    case False
    have off: "unat index * seg_bytes < ?n" using i n by (simp add: seg_index_in)
    define start where "start = (of_nat (unat index * seg_bytes) :: u64)"
    have s: "unat start = unat index * seg_bytes"
      unfolding start_def using off n by (intro unat_of_nat_len) simp
    have mul: "checked_mul (ucast index) SEGMENT_RAW_BYTES = Some start"
      by (simp add: checked_mul_Some s)
    have un: "unat (of_nat ?n :: u64) = ?n" using n by (intro unat_of_nat_len) simp
    let ?stop = "min (saturating_add start SEGMENT_RAW_BYTES) (of_nat ?n)"
    have "unat (saturating_add start SEGMENT_RAW_BYTES) = unat index * seg_bytes + seg_bytes"
      using off n by (simp add: saturating_add_def s unat_word_ariths seg_bytes_def)
    then have stop: "unat ?stop = min (unat index * seg_bytes + seg_bytes) ?n"
      by (simp add: min_def word_le_nat_alt un)
    have get: "get_range (ns_payload h) (unat start) (unat ?stop) = Some (segment_data (ns_payload h) (unat index))"
    proof -
      have "min (unat index * seg_bytes + seg_bytes) ?n - unat index * seg_bytes = seg_len ?n (unat index)"
        by (auto simp: seg_len_def min_def)
      moreover have "unat index * seg_bytes \<le> min (unat index * seg_bytes + seg_bytes) ?n" using off by simp
      ultimately show ?thesis
        using False unfolding get_range_def s stop by (simp add: segment_data_def stream_segment_def)
    qed
    have tf: "(try_from x :: u64 option) = Some x" for x :: u64 using unat_lt [of x] by (simp add: try_from_def)
    show ?thesis
      using False get by (simp add: build_session_def one segment_info_def segment_session_id_def segment_file_def
          mul tf Let_def) (simp add: start_def)
  qed
qed

section \<open>Creating a handle and moving between segments\<close>

lemma native_new_ok:
  assumes "native_new rq cx payload filename modified_ms redundancy symbol_size = Inr h" "length payload < 2 ^ 64"
  shows "native_ok cx h \<and> ns_payload h = payload \<and> ns_filename h = filename \<and> ns_segment_index h = 0 \<and>
    build_session rq cx payload filename (ns_config h) (ns_root_session_id h) (ns_crc32 h) (ns_root_sha256 h)
      (ns_segment_count h) 0 = Inr (ns_session h)"
proof -
  from assms have len: "0 < length payload" "of_nat (length payload) \<le> MAX_ORIGINAL_BYTES"
    by (auto simp: native_new_def not_less split: if_splits)
  obtain codec count_u64 where codec: "config_new symbol_size = Inr codec"
    and cfg: "sender_config_validate \<lparr>sc_codec = codec, sc_redundancy_pct = redundancy\<rparr> = Inr ()"
    and c64: "Option.bind (checked_div (saturating_sub (of_nat (length payload) :: u64) 1) SEGMENT_RAW_BYTES)
        (\<lambda>n. checked_add n 1) = Some count_u64"
    and c: "try_from count_u64 = Some (ns_segment_count h)"
    and h: "ns_payload h = payload" "ns_filename h = filename" "ns_segment_index h = 0"
      "ns_config h = \<lparr>sc_codec = codec, sc_redundancy_pct = redundancy\<rparr>"
      "ns_crc32 h = crc32_of cx payload" "ns_root_sha256 h = sha256_of cx payload"
      "build_session rq cx payload filename (ns_config h) (ns_root_session_id h) (ns_crc32 h) (ns_root_sha256 h)
        (ns_segment_count h) 0 = Inr (ns_session h)"
    using assms by (auto simp: native_new_def Let_def bind_result_Inr split: if_splits)
  have l: "unat (of_nat (length payload) :: u64) = length payload" using assms(2) by (simp add: unat_of_nat_len)
  then have n: "length payload \<le> 268435456" using len(2) by (simp add: MAX_ORIGINAL_BYTES_def word_le_nat_alt)
  have "unat count_u64 = seg_count (length payload)"
    using c64 len(1) by (auto simp: checked_simps seg_count_def l bind_eq_Some_conv)
  then have "unat (ns_segment_count h) = seg_count (length payload)" using c by (simp add: try_from_Some)
  then show ?thesis using h len(1) n cfg codec by (auto simp: native_ok_def seg_count_def)
qed

lemma native_select_ok:
  assumes "native_ok cx h" "native_select rq cx h index = (h', r)"
  shows "native_ok cx h' \<and> ns_payload h' = ns_payload h \<and> ns_filename h' = ns_filename h \<and>
    ns_config h' = ns_config h \<and> ns_root_session_id h' = ns_root_session_id h \<and>
    ns_segment_count h' = ns_segment_count h \<and> ns_crc32 h' = ns_crc32 h \<and> ns_root_sha256 h' = ns_root_sha256 h \<and>
    (case r of
       Inl e \<Rightarrow> h' = h
     | Inr _ \<Rightarrow> unat index < seg_count (length (ns_payload h)) \<and> ns_segment_index h' = index \<and>
         build_session rq cx (ns_payload h) (ns_filename h) (ns_config h) (ns_root_session_id h) (ns_crc32 h)
           (ns_root_sha256 h) (ns_segment_count h) index = Inr (ns_session h'))"
  using assms
  by (auto simp: native_select_def native_ok_def not_le word_less_nat_alt split: if_splits sum.splits)

end
