(* ===== verification/Cffi.thy ===== *)
theory Cffi
  imports Native_Sender Receiver Ingest_Status
begin

text \<open>
  The C interface of native hosts, \<open>core/transfer-engine/src/cffi.rs\<close>.  A handle is the boxed value
  or null (\<open>None\<close>); an input buffer is its bytes or null; an output buffer is its current
  contents, whose length is the capacity, or null.  What a function writes through a
  pointer is the new contents it returns.  Releasing memory and log lines have no
  effect on these values and are left out.
\<close>

section \<open>Sending\<close>

definition cffi_sender_create ::
  "('e, 'd) raptorq \<Rightarrow> codecs \<Rightarrow> bytes option \<Rightarrow> bytes option \<Rightarrow> u64 \<Rightarrow> u8 \<Rightarrow> u32 \<Rightarrow> 'e native_sender option" where
  "cffi_sender_create rq cx payload filename modified_ms redundancy_pct symbol_size =
     (case (payload, filename) of
        (Some p, Some name) \<Rightarrow>
          if p = [] \<or> name = [] then None
          else if \<not> utf8_valid name then None
          else (case native_new rq cx p name modified_ms redundancy_pct symbol_size of
                  Inr h \<Rightarrow> Some h | Inl _ \<Rightarrow> None)
      | _ \<Rightarrow> None)"

definition cffi_frame_capacity :: "'e native_sender option \<Rightarrow> nat" where
  "cffi_frame_capacity h =
     (case h of None \<Rightarrow> 0 | Some x \<Rightarrow> wire_size (cfg_symbol_size (sc_codec (ns_config x))))"

definition cffi_next_frame ::
  "('e, 'd) raptorq \<Rightarrow> codecs \<Rightarrow> u64 \<times> u64 \<times> u64 \<Rightarrow> 'e native_sender option \<Rightarrow> bytes option \<Rightarrow>
   'e native_sender option \<times> bytes option \<times> nat" where
  "cffi_next_frame rq cx clock h out =
     (case (h, out) of
        (Some x, Some buf) \<Rightarrow>
          if length buf < wire_size (cfg_symbol_size (sc_codec (ns_config x))) then (h, out, 0)
          else (case next_frame rq (crc32_of cx) clock (ns_session x) of
                  (s, Inl _) \<Rightarrow> (Some (x\<lparr>ns_session := s\<rparr>), out, 0)
                | (s, Inr f) \<Rightarrow>
                    (let bs = frame_to_bytes f
                     in (Some (x\<lparr>ns_session := s\<rparr>), Some (bs @ drop (length bs) buf), length bs)))
      | _ \<Rightarrow> (h, out, 0))"

definition cffi_sender_segment_count :: "'e native_sender option \<Rightarrow> u32" where
  "cffi_sender_segment_count h = (case h of None \<Rightarrow> 0 | Some x \<Rightarrow> ns_segment_count x)"

definition cffi_sender_segment_index :: "'e native_sender option \<Rightarrow> u32" where
  "cffi_sender_segment_index h = (case h of None \<Rightarrow> 0 | Some x \<Rightarrow> ns_segment_index x)"

definition cffi_select_segment ::
  "('e, 'd) raptorq \<Rightarrow> codecs \<Rightarrow> 'e native_sender option \<Rightarrow> u32 \<Rightarrow> 'e native_sender option \<times> int" where
  "cffi_select_segment rq cx h index =
     (case h of
        None \<Rightarrow> (None, 0)
      | Some x \<Rightarrow> (case native_select rq cx x index of
          (x', Inr _) \<Rightarrow> (Some x', 1) | (x', Inl _) \<Rightarrow> (Some x', 0)))"

definition cffi_sender_total_symbols :: "'e native_sender option \<Rightarrow> u32" where
  "cffi_sender_total_symbols h = (case h of None \<Rightarrow> 0 | Some x \<Rightarrow> sn_total_k (ns_session x))"

section \<open>Receiving\<close>

definition cffi_create_from_frame :: "codecs \<Rightarrow> bytes option \<Rightarrow> 'd receiver option" where
  "cffi_create_from_frame cx frame_bytes =
     (case frame_bytes of
        None \<Rightarrow> None
      | Some bs \<Rightarrow>
          if bs = [] then None
          else (case frame_from_bytes (crc32_of cx) bs of
                  Inr f \<Rightarrow> Some (from_first_frame f) | Inl _ \<Rightarrow> None))"

definition cffi_receiver_create :: "u64 \<Rightarrow> u64 \<Rightarrow> 'd receiver option" where
  "cffi_receiver_create sid_lo sid_hi = Some (new_pending (push_bit 64 (ucast sid_hi) OR ucast sid_lo))"

text \<open>The status of one ingested frame, the same in all host bindings.\<close>

definition ingest_packed ::
  "('e, 'd) raptorq \<Rightarrow> (symbol_cache \<Rightarrow> symbol_cache) \<Rightarrow> frame \<Rightarrow> 'd receiver \<Rightarrow> 'd receiver \<times> u64" where
  "ingest_packed rq ord f s =
     (let prev_received = pg_received_symbols (receiver_progress s);
          s' = fst (ingest rq ord f s);
          p = receiver_progress s'
      in (s', pack (receiver_is_complete s') (prev_received < pg_received_symbols p)
                (pg_session_mismatch_streak p) (pg_received_symbols p)))"

definition cffi_ingest ::
  "('e, 'd) raptorq \<Rightarrow> codecs \<Rightarrow> (symbol_cache \<Rightarrow> symbol_cache) \<Rightarrow> 'd receiver option \<Rightarrow> bytes option \<Rightarrow>
   'd receiver option \<times> u64" where
  "cffi_ingest rq cx ord h frame_bytes =
     (case h of
        None \<Rightarrow> (None, INGEST_ERROR)
      | Some s \<Rightarrow>
          (case frame_bytes of
             None \<Rightarrow> (h, INGEST_ERROR)
           | Some bs \<Rightarrow>
               if bs = [] then (h, INGEST_ERROR)
               else (case frame_from_bytes (crc32_of cx) bs of
                       Inl _ \<Rightarrow> (h, INGEST_ERROR)
                     | Inr f \<Rightarrow> (case ingest_packed rq ord f s of (s', w) \<Rightarrow> (Some s', w)))))"

definition cffi_is_complete :: "'d receiver option \<Rightarrow> int" where
  "cffi_is_complete h = (case h of None \<Rightarrow> 0 | Some s \<Rightarrow> if receiver_is_complete s then 1 else 0)"

text \<open>
  An assembled buffer goes out through two pointers; \<open>outs\<close> says that both are given, and the
  buffer held by them is null (\<open>None\<close>) or an allocation with its length.
\<close>

definition cffi_assemble ::
  "codecs \<Rightarrow> 'd receiver option \<Rightarrow> bool \<Rightarrow> bytes option \<Rightarrow> 'd receiver option \<times> bytes option \<times> int" where
  "cffi_assemble cx h outs held =
     (if \<not> outs then (h, held, 0)
      else case h of
        None \<Rightarrow> (None, None, 0)
      | Some s \<Rightarrow> (case assemble_result cx s of
          (s', Inr (Some d)) \<Rightarrow> (Some s', Some d, 1)
        | (s', Inr None) \<Rightarrow> (Some s', None, 0)
        | (s', Inl _) \<Rightarrow> (Some s', None, 0)))"

definition trim_transmitted :: "file_meta \<Rightarrow> bytes \<Rightarrow> bytes" where
  "trim_transmitted fm raw =
     (if fm_compressed_size_known fm then
        (case (try_from (fm_compressed_size fm) :: usize option) of
           Some len \<Rightarrow> if unat len \<le> length raw then take (unat len) raw else raw
         | None \<Rightarrow> raw)
      else raw)"

definition cffi_assemble_raw :: "'d receiver option \<Rightarrow> bool \<Rightarrow> bytes option \<Rightarrow> bytes option \<times> int" where
  "cffi_assemble_raw h outs held =
     (if \<not> outs then (held, 0)
      else case h of
        None \<Rightarrow> (None, 0)
      | Some s \<Rightarrow> (case assemble_raw s of
          None \<Rightarrow> (None, 0)
        | Some raw \<Rightarrow> (Some (trim_transmitted (rx_file_meta s) raw), 1)))"

section \<open>Decompression for the host\<close>

definition cffi_decompress_bytes ::
  "codecs \<Rightarrow> bytes option \<Rightarrow> u8 \<Rightarrow> u64 \<Rightarrow> bool \<Rightarrow> bytes option \<Rightarrow> bytes option \<times> int" where
  "cffi_decompress_bytes cx data compression max_output outs held =
     (if \<not> outs then (held, 0)
      else case data of
        None \<Rightarrow> (None, 0)
      | Some input \<Rightarrow>
          if input = [] then (None, 0)
          else let cap = unat (min max_output MAX_ORIGINAL_BYTES) in
            (case decompress_with_limit cx input compression cap of
               Inl _ \<Rightarrow> (None, 0)
             | Inr v \<Rightarrow> if v = [] then (None, 0) else (Some v, 1)))"

definition hex_lower :: "nat \<Rightarrow> u8" where
  "hex_lower n = of_nat (if n < 10 then 48 + n else 87 + n)"

definition hex_string :: "bytes \<Rightarrow> bytes" where
  "hex_string bs = concat (map (\<lambda>b. [hex_lower (unat b div 16), hex_lower (unat b mod 16)]) bs)"

definition ascii_lower :: "u8 \<Rightarrow> u8" where
  "ascii_lower b = (if 65 \<le> b \<and> b \<le> 90 then b + 32 else b)"

definition eq_ignore_ascii_case :: "bytes \<Rightarrow> bytes \<Rightarrow> bool" where
  "eq_ignore_ascii_case a b \<longleftrightarrow> map ascii_lower a = map ascii_lower b"

text \<open>
  Paths and digest are C strings; \<open>io\<close> is what the file system answers for the two paths, and
  \<open>old\<close> what the output path held.  The result is the return code and what it holds afterwards.
\<close>

definition cffi_decompress_stream_to_file ::
  "codecs \<Rightarrow> (bytes \<Rightarrow> bytes \<Rightarrow> file_io) \<Rightarrow> bytes option \<Rightarrow> bytes option \<Rightarrow> u8 \<Rightarrow> u64 \<Rightarrow> u64 \<Rightarrow> u32 \<Rightarrow> bool \<Rightarrow>
   bytes option \<Rightarrow> bytes option \<Rightarrow> int \<times> bytes option" where
  "cffi_decompress_stream_to_file cx io input_path output_path compression max_output expected_size
     expected_crc crc_known expected_sha_hex old =
     (case (map_option utf8_lossy input_path, map_option utf8_lossy output_path,
            map_option utf8_lossy expected_sha_hex) of
        (Some input, Some output, Some expected_sha) \<Rightarrow>
          (let fs = io input output in
           case decompress_stream_to_file cx fs old compression max_output of
             (Inl _, file) \<Rightarrow> (0, file)
           | (Inr outcome, file) \<Rightarrow>
               let removed = (if io_removable fs then None else file) in
               if so_output_size outcome \<noteq> expected_size then (0, removed)
               else if crc_known \<and> so_crc32 outcome \<noteq> expected_crc then (0, removed)
               else if \<not> eq_ignore_ascii_case (hex_string (so_sha256 outcome)) expected_sha then (0, removed)
               else (1, file))
      | _ \<Rightarrow> (0, old))"

section \<open>Reading a session\<close>

definition write_cstr :: "bytes \<Rightarrow> bytes option \<Rightarrow> bytes option \<times> nat" where
  "write_cstr s out =
     (let needed = length s + 1 in
      case out of
        None \<Rightarrow> (None, needed)
      | Some buf \<Rightarrow> if length buf < needed then (out, needed) else (Some (s @ [0] @ drop needed buf), needed))"

definition cffi_file_name :: "'d receiver option \<Rightarrow> bytes option \<Rightarrow> bytes option \<times> nat" where
  "cffi_file_name h out =
     (case h of None \<Rightarrow> (out, 0) | Some s \<Rightarrow> write_cstr (fm_filename (rx_file_meta s)) out)"

definition cffi_compression :: "'d receiver option \<Rightarrow> u8" where
  "cffi_compression h = (case h of None \<Rightarrow> 0 | Some s \<Rightarrow> fm_compression (rx_file_meta s))"

definition cffi_compressed_size :: "'d receiver option \<Rightarrow> u64" where
  "cffi_compressed_size h = (case h of None \<Rightarrow> 0 | Some s \<Rightarrow> fm_compressed_size (rx_file_meta s))"

definition cffi_original_size :: "'d receiver option \<Rightarrow> u64" where
  "cffi_original_size h = (case h of None \<Rightarrow> 0 | Some s \<Rightarrow> fm_original_size (rx_file_meta s))"

definition cffi_file_size :: "'d receiver option \<Rightarrow> u64" where
  "cffi_file_size h = (case h of None \<Rightarrow> 0 | Some s \<Rightarrow> fm_original_size (rx_file_meta s))"

definition cffi_crc32 :: "'d receiver option \<Rightarrow> u64" where
  "cffi_crc32 h = (case h of None \<Rightarrow> 0 | Some s \<Rightarrow> ucast (fm_crc32 (rx_file_meta s)))"

definition cffi_crc32_known :: "'d receiver option \<Rightarrow> int" where
  "cffi_crc32_known h = (case h of None \<Rightarrow> 0 | Some s \<Rightarrow> if fm_crc32_known (rx_file_meta s) then 1 else 0)"

definition cffi_is_segmented :: "'d receiver option \<Rightarrow> int" where
  "cffi_is_segmented h = (case h of None \<Rightarrow> 0 | Some s \<Rightarrow> if rx_segment_meta s \<noteq> None then 1 else 0)"

definition cffi_segment_index :: "'d receiver option \<Rightarrow> u32" where
  "cffi_segment_index h =
     (case h of None \<Rightarrow> 0 | Some s \<Rightarrow> (case rx_segment_meta s of None \<Rightarrow> 0 | Some m \<Rightarrow> sg_segment_index m))"

definition cffi_segment_count :: "'d receiver option \<Rightarrow> u32" where
  "cffi_segment_count h =
     (case h of None \<Rightarrow> 0 | Some s \<Rightarrow> (case rx_segment_meta s of None \<Rightarrow> 1 | Some m \<Rightarrow> sg_segment_count m))"

definition cffi_root_original_size :: "'d receiver option \<Rightarrow> u64" where
  "cffi_root_original_size h =
     (case h of None \<Rightarrow> 0 | Some s \<Rightarrow> (case rx_segment_meta s of None \<Rightarrow> 0 | Some m \<Rightarrow> sg_root_original_size m))"

definition cffi_original_offset :: "'d receiver option \<Rightarrow> u64" where
  "cffi_original_offset h =
     (case h of None \<Rightarrow> 0 | Some s \<Rightarrow> (case rx_segment_meta s of None \<Rightarrow> 0 | Some m \<Rightarrow> sg_original_offset m))"

definition cffi_root_session_id_lo :: "'d receiver option \<Rightarrow> u64" where
  "cffi_root_session_id_lo h =
     (case h of None \<Rightarrow> 0 | Some s \<Rightarrow> (case rx_segment_meta s of None \<Rightarrow> 0 | Some m \<Rightarrow> ucast (sg_root_session_id m)))"

definition cffi_root_session_id_hi :: "'d receiver option \<Rightarrow> u64" where
  "cffi_root_session_id_hi h =
     (case h of None \<Rightarrow> 0 | Some s \<Rightarrow> (case rx_segment_meta s of None \<Rightarrow> 0 | Some m \<Rightarrow> ucast (drop_bit 64 (sg_root_session_id m))))"

text \<open>The digests are arrays of 32 bytes; they are copied when the buffer holds as many.\<close>

definition copy_digest :: "bytes \<Rightarrow> bytes option \<Rightarrow> bytes option \<times> nat" where
  "copy_digest digest out =
     (case out of
        None \<Rightarrow> (None, 32)
      | Some buf \<Rightarrow> if length buf < 32 then (out, 32) else (Some (digest @ drop 32 buf), 32))"

definition cffi_raw_sha256 :: "'d receiver option \<Rightarrow> bytes option \<Rightarrow> bytes option \<times> nat" where
  "cffi_raw_sha256 h out =
     (case h of None \<Rightarrow> (out, 0)
      | Some s \<Rightarrow> (case rx_segment_meta s of None \<Rightarrow> (out, 0) | Some m \<Rightarrow> copy_digest (sg_raw_sha256 m) out))"

definition cffi_root_sha256 :: "'d receiver option \<Rightarrow> bytes option \<Rightarrow> bytes option \<times> nat" where
  "cffi_root_sha256 h out =
     (case h of None \<Rightarrow> (out, 0)
      | Some s \<Rightarrow> (case rx_segment_meta s of None \<Rightarrow> (out, 0) | Some m \<Rightarrow> copy_digest (sg_root_sha256 m) out))"

end
