(* ===== verification/Large_Transfer.thy ===== *)
theory Large_Transfer
  imports End_To_End Cffi
begin

text \<open>
  A whole file of any number of segments, from the native sender to the assembled stream: every
  segment's session is one the receiver accepts, delivers exactly the segment's bytes, and the
  assembler puts the file together from them in any order.
\<close>

section \<open>The session of a segment\<close>

lemma sender_new_segment_inv:
  assumes up: "upstream_ok rq" and new: "sender_new_segment rq payload sid cfg fm seg = Inr s"
    and len: "length (pad_to_symbols payload (sc_codec cfg)) \<le> 33554432"
  shows "sender_inv rq (pad_to_symbols payload (sc_codec cfg)) s \<and> position_of s = 0 \<and> sn_frame_index s = 0 \<and>
    sn_session_id s = sid \<and> sn_config s = cfg \<and> sn_file_meta s = fm \<and> sn_segment_meta s = Some seg \<and>
    sn_descriptor_interval s = 17"
proof -
  have N: "sender_new_inner rq payload sid cfg fm (Some seg) = Inr s" and v: "segment_validate seg sid fm = Inr ()"
    using new by (auto simp: sender_new_segment_def split: if_splits)
  have C: "encode_contract rq" using up by (simp add: upstream_ok_def)
  have "sn_descriptor_interval s = 17"
    using N unfolding sender_new_inner_def Let_def bind_result_Inr by auto
  then show ?thesis using sender_new_inner_inv [OF C N _ len] v by simp
qed

text \<open>The session that \<open>build_session\<close> makes for segment \<open>i\<close>, ready to send.\<close>

definition segment_session :: "('e, 'd) raptorq \<Rightarrow> codecs \<Rightarrow> 'e native_sender \<Rightarrow> nat \<Rightarrow> 'e sender \<Rightarrow> bool" where
  "segment_session rq cx h i s \<longleftrightarrow>
     sender_inv rq (pad_to_symbols (segment_data (ns_payload h) i) (sc_codec (ns_config h))) s \<and>
     length (pad_to_symbols (segment_data (ns_payload h) i) (sc_codec (ns_config h))) \<le> 33554432 \<and>
     position_of s = 0 \<and> sn_frame_index s = 0 \<and> sn_descriptor_interval s = 17 \<and>
     sn_session_id s = segment_session_id h i \<and> sn_config s = ns_config h \<and> sn_file_meta s = segment_file h i \<and>
     sn_segment_meta s = segment_info cx h i \<and> announce_ok s \<and> digests_ok s"

lemma transfer_length_padded:
  assumes "upstream_ok rq" "sender_static rq data s" "length data \<le> 33554432"
  shows "m_transfer_length (sn_meta s) = of_nat (length data)"
proof -
  from assms(2) have "encoder_new rq data (sc_codec (sn_config s)) = Inr (sn_encoder s)" "sn_meta s = enc_meta (sn_encoder s)"
    by (auto simp: sender_static_def)
  then obtain mtu oti bs pad where "built_from rq data (sn_encoder s) mtu oti bs pad"
    using assms(1,3) encoder_new_facts unfolding upstream_ok_def by metis
  then show ?thesis using \<open>sn_meta s = _\<close> by (simp add: built_from_def from_encoder_def)
qed

lemma build_segment_session:
  assumes up: "upstream_ok rq" and ok: "native_ok cx h" and sha: "\<And>x. length (sha256_of cx x) = 32"
    and name: "utf8_valid (ns_filename h)" and i: "unat index < seg_count (length (ns_payload h))"
    and b: "build_session rq cx (ns_payload h) (ns_filename h) (ns_config h) (ns_root_session_id h) (ns_crc32 h)
      (ns_root_sha256 h) (ns_segment_count h) index = Inr s"
  shows "segment_session rq cx h (unat index) s"
proof -
  let ?i = "unat index" and ?n = "length (ns_payload h)" and ?d = "segment_data (ns_payload h) (unat index)"
  let ?p = "pad_to_symbols ?d (sc_codec (ns_config h))"
  have n: "0 < ?n" "?n \<le> 268435456" using ok by (auto simp: native_ok_def)
  note D = segment_data_length [OF n(1) i]
  obtain ss where "config_new ss = Inr (sc_codec (ns_config h))" using ok by (auto simp: native_ok_def)
  from pad_to_symbols_minimal [OF this, of ?d] D(2) have len: "length ?p \<le> 33554432" by (simp add: seg_bytes_def)
  have B: "sender_inv rq ?p s \<and> position_of s = 0 \<and> sn_frame_index s = 0 \<and> sn_descriptor_interval s = 17 \<and>
    sn_session_id s = segment_session_id h ?i \<and> sn_config s = ns_config h \<and> sn_file_meta s = segment_file h ?i \<and>
    sn_segment_meta s = segment_info cx h ?i"
  proof (cases "segment_info cx h ?i")
    case None
    then have "sender_new rq ?d (segment_session_id h ?i) (ns_config h) (segment_file h ?i) = Inr s"
      using b by (simp add: build_session_iff [OF ok i])
    from sender_new_inv [OF up this len] None show ?thesis by simp
  next
    case (Some seg)
    then have "sender_new_segment rq ?d (segment_session_id h ?i) (ns_config h) (segment_file h ?i) seg = Inr s"
      using b by (simp add: build_session_iff [OF ok i])
    from sender_new_segment_inv [OF up this len] Some show ?thesis by simp
  qed
  then have st: "sender_static rq ?p s" by (simp add: sender_inv_def)
  have dn: "length ?d \<le> ?n" using D(3) n by (simp add: seg_len_def)
  have "length ?d \<le> length ?p" by (rule length_pad_ge)
  then have cs: "fm_compressed_size (segment_file h ?i) \<le> m_transfer_length (sn_meta s)"
    using len unfolding transfer_length_padded [OF up st len]
    by (simp add: segment_file_def native_file_meta_def word_le_nat_alt unat_of_nat_len)
  have an: "announce_ok s"
    using B cs n name by (simp add: announce_ok_def Let_def) (simp add: segment_file_def native_file_meta_def
      is_known_compression_tag_def COMPRESSION_NONE_def MAX_ORIGINAL_BYTES_def word_le_nat_alt unat_of_nat_len)
  have "digests_ok s"
    using B sha ok by (auto simp: digests_ok_def segment_info_def native_segment_meta_def native_ok_def split: if_splits)
  with B len an show ?thesis by (simp add: segment_session_def)
qed

text \<open>The session behind a native handle right after the host has selected a segment.\<close>

lemma selected_session:
  assumes up: "upstream_ok rq" and sha: "\<And>x. length (sha256_of cx x) = 32"
    and create: "cffi_sender_create rq cx (Some payload) (Some filename) modified redundancy ssz = Some h"
    and len: "length payload < 2 ^ 64" and sel: "cffi_select_segment rq cx (Some h) index = (Some h', 1)"
  shows "segment_session rq cx h (unat index) (ns_session h') \<and> ns_payload h = payload \<and>
    fm_compressed_size (sn_file_meta (ns_session h')) = of_nat (length (segment_data payload (unat index)))"
proof -
  have new: "native_new rq cx payload filename modified redundancy ssz = Inr h" and name: "utf8_valid filename"
    using create by (auto simp: cffi_sender_create_def split: if_splits sum.splits)
  from native_new_ok [OF new len] name have ok: "native_ok cx h" and p: "ns_payload h = payload" "utf8_valid (ns_filename h)"
    by (auto simp: native_new_def Let_def bind_result_Inr split: if_splits)
  have "native_select rq cx h index = (h', Inr ())"
    using sel by (auto simp: cffi_select_segment_def split: prod.splits sum.splits)
  from native_select_ok [OF ok this] have i: "unat index < seg_count (length (ns_payload h))"
    and b: "build_session rq cx (ns_payload h) (ns_filename h) (ns_config h) (ns_root_session_id h) (ns_crc32 h)
      (ns_root_sha256 h) (ns_segment_count h) index = Inr (ns_session h')" by simp_all
  have S: "segment_session rq cx h (unat index) (ns_session h')" by (rule build_segment_session [OF up ok sha p(2) i b])
  then have "sn_file_meta (ns_session h') = segment_file h (unat index)" by (simp add: segment_session_def)
  with S p(1) show ?thesis by (simp add: segment_file_def native_file_meta_def)
qed

section \<open>Collecting the segments\<close>

text \<open>
  What a host does with completed receivers: the first one opens the assembler, and each one's
  transmitted bytes are added under its descriptor.
\<close>

definition add_received :: "codecs \<Rightarrow> 'd receiver \<Rightarrow> assembler option \<Rightarrow> assembler option" where
  "add_received cx rx a =
     (case (rx_segment_meta rx, assemble_raw rx) of
        (Some seg, Some raw) \<Rightarrow>
          let fm = rx_file_meta rx;
              opened = (case a of
                 None \<Rightarrow> (case assembler_new (\<lambda>_. True) (\<lambda>_. True) seg fm of Inr a0 \<Rightarrow> Some a0 | Inl _ \<Rightarrow> None)
               | Some a0 \<Rightarrow> Some a0)
          in map_option (\<lambda>a0. fst (add_segment (sha256_of cx) seg fm (trim_transmitted fm raw) a0)) opened
      | _ \<Rightarrow> a)"

definition collect_segments :: "codecs \<Rightarrow> 'd receiver list \<Rightarrow> assembler option" where
  "collect_segments cx rxs = foldl (\<lambda>a rx. add_received cx rx a) None rxs"

text \<open>A receiver that holds segment \<open>i\<close> of the handle's payload, announced under the name \<open>name\<close>.\<close>

definition holds_segment :: "codecs \<Rightarrow> 'e native_sender \<Rightarrow> bytes \<Rightarrow> nat \<Rightarrow> 'd receiver \<Rightarrow> bool" where
  "holds_segment cx h name i rx \<longleftrightarrow>
     (\<exists>raw. assemble_raw rx = Some raw \<and>
        trim_transmitted (rx_file_meta rx) raw = segment_data (ns_payload h) i) \<and>
     rx_segment_meta rx = segment_info cx h i \<and>
     rx_file_meta rx = (segment_file h i)\<lparr>fm_filename := name\<rparr>"

definition seg_range_of :: "codecs \<Rightarrow> 'e native_sender \<Rightarrow> nat \<Rightarrow> segment_meta" where
  "seg_range_of cx h i = the (segment_info cx h i)"

lemma segment_info_fields:
  assumes "segment_info cx h i = Some seg"
  shows "sg_root_session_id seg = ns_root_session_id h" "sg_segment_index seg = of_nat i"
    "sg_segment_count seg = ns_segment_count h" "sg_original_offset seg = of_nat (i * seg_bytes)"
    "sg_root_original_size seg = of_nat (length (ns_payload h))" "sg_root_sha256 seg = ns_root_sha256 h"
    "sg_raw_sha256 seg = sha256_of cx (segment_data (ns_payload h) i)"
  using assms by (auto simp: segment_info_def native_segment_meta_def split: if_splits)

lemma segment_range_ok:
  assumes ok: "native_ok cx h" and i: "i < seg_count (length (ns_payload h))" and info: "segment_info cx h i = Some seg"
  shows "range_ok seg ((segment_file h i)\<lparr>fm_filename := name\<rparr>) (length (ns_payload h))"
    "unat (sg_segment_index seg) = i" "unat (sg_root_original_size seg) = length (ns_payload h)"
    "unat (fm_compressed_size (segment_file h i)) = length (segment_data (ns_payload h) i)"
proof -
  let ?n = "length (ns_payload h)"
  have n: "0 < ?n" "?n \<le> 268435456" and c: "unat (ns_segment_count h) = seg_count ?n"
    using ok by (auto simp: native_ok_def)
  note F = segment_info_fields [OF info]
  have cnt: "seg_count ?n \<le> 9" by (rule seg_count_native [OF n])
  show idx: "unat (sg_segment_index seg) = i" using F(2) i cnt by (simp add: unat_of_nat_len)
  show size: "unat (sg_root_original_size seg) = ?n" using F(5) n by (simp add: unat_of_nat_len)
  have off: "i * seg_bytes < ?n" using seg_index_in [OF n(1), of i] i by blast
  then have o: "unat (sg_original_offset seg) = i * seg_bytes" 
    unfolding F(4) using n by (intro unat_of_nat_len) simp
  have "length (segment_data (ns_payload h) i) = seg_len ?n i" by (rule segment_data_length [OF n(1) i])
  moreover have "seg_len ?n i < 2 ^ 64" using n by (simp add: seg_len_def seg_bytes_def)
  ultimately show cs: "unat (fm_compressed_size (segment_file h i)) = length (segment_data (ns_payload h) i)"
    by (simp add: segment_file_def native_file_meta_def unat_of_nat_len)
  show "range_ok seg ((segment_file h i)\<lparr>fm_filename := name\<rparr>) ?n"
    using n c i cnt F(3) idx size o cs segment_data_length(3) [OF n(1) i] by (simp add: range_ok_def Let_def)
qed

text \<open>The assembler while segments of one handle arrive: exactly the segments seen are stored.\<close>

definition collecting :: "codecs \<Rightarrow> 'e native_sender \<Rightarrow> bytes \<Rightarrow> nat set \<Rightarrow> assembler \<Rightarrow> bool" where
  "collecting cx h name I a \<longleftrightarrow>
     asm_inv (sha256_of cx) a \<and> unat (as_root_compressed_size a) = length (ns_payload h) \<and>
     as_root_session_id a = ns_root_session_id h \<and> as_total_segments a = ns_segment_count h \<and>
     as_root_sha256 a = ns_root_sha256 h \<and> as_filename a = name \<and>
     slot_of a = (\<lambda>i. if i \<in> I then Some (segment_data (ns_payload h) i, seg_range_of cx h i) else None)"

lemma collecting_add:
  assumes ok: "native_ok cx h" and many: "seg_count (length (ns_payload h)) \<noteq> 1"
    and c: "collecting cx h name I a" and i: "i < seg_count (length (ns_payload h))"
    and hold: "holds_segment cx h name i rx"
  shows "\<exists>a'. add_received cx rx (Some a) = Some a' \<and> collecting cx h name (insert i I) a'"
proof -
  let ?d = "segment_data (ns_payload h) i" and ?fm = "(segment_file h i)\<lparr>fm_filename := name\<rparr>"
  obtain seg where info: "segment_info cx h i = Some seg" using many by (simp add: segment_info_def)
  then have rng: "seg_range_of cx h i = seg" by (simp add: seg_range_of_def)
  obtain a' r where add: "add_segment (sha256_of cx) seg ?fm ?d a = (a', r)" by fastforce
  have a': "add_received cx rx (Some a) = Some a'"
    using hold info add by (auto simp: add_received_def holds_segment_def)
  note R = segment_range_ok [OF ok i info]
  have inv: "asm_inv (sha256_of cx) a" using c by (simp add: collecting_def)
  have "length ?d < 2 ^ 64"
    using segment_data_length(2) [of "ns_payload h" i] i ok by (simp add: native_ok_def seg_bytes_def)
  note S = add_segment_refines [OF inv this add]
  have "admissible (sha256_of cx) a seg ?fm ?d"
    using c R segment_info_fields [OF info] by (simp add: admissible_def collecting_def)
  with S have "(slot_of a', case r of Inr x \<Rightarrow> Some x | Inl _ \<Rightarrow> None) = map_add_segment (slot_of a) i (?d, seg)"
    using R(2) by simp
  then have "slot_of a' = (\<lambda>j. if j \<in> insert i I then Some (segment_data (ns_payload h) j, seg_range_of cx h j) else None)"
    using c rng by (auto simp: map_add_segment_def collecting_def fun_eq_iff split: if_splits option.splits)
  then have "collecting cx h name (insert i I) a'" using S c by (simp add: collecting_def)
  with a' show ?thesis by blast
qed

lemma collecting_new:
  assumes ok: "native_ok cx h" and many: "seg_count (length (ns_payload h)) \<noteq> 1"
    and i: "i < seg_count (length (ns_payload h))" and hold: "holds_segment cx h name i rx"
  shows "\<exists>a'. add_received cx rx None = Some a' \<and> collecting cx h name {i} a'"
proof -
  obtain seg where info: "segment_info cx h i = Some seg" using many by (simp add: segment_info_def)
  let ?fm = "(segment_file h i)\<lparr>fm_filename := name\<rparr>"
  note R = segment_range_ok [OF ok i info] and F = segment_info_fields [OF info]
  have v: "validate_segment_range seg ?fm (sg_root_original_size seg) = Inr ()"
    using R(1,3) by (simp add: validate_range_iff)
  have "0 < length (ns_payload h)" using ok by (simp add: native_ok_def)
  then have e: "expected_segment_count (sg_root_original_size seg) = Some (sg_segment_count seg)"
    and "sg_segment_count seg \<noteq> 0" "\<not> MAX_SEGMENT_COUNT < sg_segment_count seg" "sg_root_original_size seg \<noteq> 0"
    using R by (auto simp: expected_segment_count_Some range_ok_def Let_def seg_count_def MAX_SEGMENT_COUNT_def
        word_less_nat_alt)
  then obtain a where a: "assembler_new (\<lambda>_. True) (\<lambda>_. True) seg ?fm = Inr a"
    using v by (simp add: assembler_new_def Let_def)
  have "collecting cx h name {} a"
    using asm_inv_new [OF a, of "sha256_of cx"] R F by (simp add: collecting_def)
  from collecting_add [OF ok many this i hold] show ?thesis
    using hold info a by (auto simp: add_received_def holds_segment_def)
qed

text \<open>A segment announced under another name than the first one's is refused.\<close>

lemma collecting_refuse:
  assumes c: "collecting cx h name I a" and hold: "holds_segment cx h other i rx" and ne: "other \<noteq> name"
  shows "add_received cx rx (Some a) = Some a"
proof -
  have "as_filename a = name" using c by (simp add: collecting_def)
  with ne have "fst (add_segment sha seg ((segment_file h i)\<lparr>fm_filename := other\<rparr>) data a) = a" for sha seg data
    by (simp add: add_segment_def)
  with hold show ?thesis by (auto simp: add_received_def holds_segment_def split: option.splits)
qed

text \<open>The receivers are named by keys, so that a segment may have several of them.\<close>

lemma collect_all:
  assumes ok: "native_ok cx h" and many: "seg_count (length (ns_payload h)) \<noteq> 1"
    and idx: "\<And>x. x \<in> set xs \<Longrightarrow> ix x < seg_count (length (ns_payload h)) \<and> holds_segment cx h (nm (ix x)) (ix x) (recv x)"
    and ne: "xs \<noteq> []"
  shows "\<exists>a. collect_segments cx (map recv xs) = Some a \<and>
    collecting cx h (nm (ix (hd xs))) (ix ` {x \<in> set xs. nm (ix x) = nm (ix (hd xs))}) a"
  using ne idx
proof (induction xs rule: rev_nonempty_induct)
  case (single x)
  then obtain a where "add_received cx (recv x) None = Some a" "collecting cx h (nm (ix x)) {ix x} a"
    using collecting_new [OF ok many, of "ix x" "nm (ix x)" "recv x"] by auto
  moreover have "ix ` {y \<in> set [x]. nm (ix y) = nm (ix (hd [x]))} = {ix x}" by auto
  ultimately show ?case by (simp add: collect_segments_def)
next
  case (snoc x xs)
  let ?name = "nm (ix (hd xs))" and ?I = "ix ` {y \<in> set xs. nm (ix y) = nm (ix (hd xs))}"
  from snoc obtain a where a: "collect_segments cx (map recv xs) = Some a" "collecting cx h ?name ?I a" by auto
  have x: "ix x < seg_count (length (ns_payload h))" "holds_segment cx h (nm (ix x)) (ix x) (recv x)" using snoc.prems by auto
  have hd: "hd (xs @ [x]) = hd xs" using snoc.hyps by simp
  show ?case
  proof (cases "nm (ix x) = ?name")
    case True
    then have "ix ` {y \<in> set (xs @ [x]). nm (ix y) = ?name} = insert (ix x) ?I" by auto
    with collecting_add [OF ok many a(2) x(1), of "recv x"] x(2) True a(1) show ?thesis
      unfolding hd by (simp add: collect_segments_def)
  next
    case False
    then have "{y \<in> set (xs @ [x]). nm (ix y) = ?name} = {y \<in> set xs. nm (ix y) = ?name}" by auto
    with collecting_refuse [OF a(2) x(2) False] a show ?thesis unfolding hd by (simp add: collect_segments_def)
  qed
qed

lemma collecting_reassemble:
  assumes ok: "native_ok cx h" and c: "collecting cx h name {..<seg_count (length (ns_payload h))} a"
  shows "reassemble grant a = (if grant (length (ns_payload h)) then Some (ns_payload h) else None)"
proof -
  let ?n = "length (ns_payload h)"
  have n: "0 < ?n" "?n \<le> 268435456" using ok by (auto simp: native_ok_def)
  have inv: "asm_inv (sha256_of cx) a" and sz: "unat (as_root_compressed_size a) = ?n" using c by (auto simp: collecting_def)
  have st: "stored a i = segment_data (ns_payload h) i" if "i < seg_count ?n" for i
  proof -
    have "slot_of a i = Some (segment_data (ns_payload h) i, seg_range_of cx h i)" using c that by (simp add: collecting_def)
    then show ?thesis by (simp add: stored_def slot_of_Some)
  qed
  have "all_full a"
    unfolding all_full_def sz using st c segment_data_length(3) [OF n(1)] by (simp add: collecting_def)
  moreover have "concat (map (stored a) [0..<seg_count ?n]) = ns_payload h"
  proof -
    have "map (stored a) [0..<seg_count ?n] = map (segment_data (ns_payload h)) [0..<seg_count ?n]" using st by simp
    then show ?thesis by (simp only: segment_data_concat [OF n(1)])
  qed
  ultimately show ?thesis using n by (simp add: reassemble_spec [OF inv] sz)
qed

lemma collecting_partial:
  assumes "collecting cx h name I a" "i < seg_count (length (ns_payload h))" "i \<notin> I"
  shows "reassemble grant a = None"
proof -
  have inv: "asm_inv (sha256_of cx) a" and "slot_of a i = None" "unat (as_root_compressed_size a) = length (ns_payload h)"
    using assms(1,3) by (auto simp: collecting_def)
  then have "\<not> all_full a" using assms(2) by (auto simp: all_full_def)
  then show ?thesis by (simp add: reassemble_spec [OF inv])
qed

section \<open>From the sender's segments to the file\<close>

text \<open>A receiver that watches a segment's session and has an object holds the segment.\<close>

lemma watching_holds:
  assumes up: "upstream_ok rq" and ok: "native_ok cx h" and s: "segment_session rq cx h i s"
    and i: "i < seg_count (length (ns_payload h))" and w: "watching rq s ss rx" and raw: "assemble_raw rx = Some raw"
  shows "holds_segment cx h (fm_filename (di_file_meta (announced s))) i rx"
proof -
  let ?d = "segment_data (ns_payload h) i" and ?p = "pad_to_symbols (segment_data (ns_payload h) i) (sc_codec (ns_config h))"
  have inv: "sender_static rq ?p s" and len: "length ?p \<le> 33554432"
    and fm: "sn_file_meta s = segment_file h i" and sg: "sn_segment_meta s = segment_info cx h i"
    using s by (auto simp: segment_session_def sender_inv_def)
  have p: "raw = ?p" using follows_assemble [OF up inv len watching_follows [OF w]] raw by simp
  note m = watching_header(1,2) [OF w raw]
  let ?name = "fm_filename (di_file_meta (announced s))"
  have fm': "di_file_meta (announced s) = (segment_file h i)\<lparr>fm_filename := ?name\<rparr>"
    by (simp add: announced_def sent_file_meta_def fm) (simp add: segment_file_def native_file_meta_def)
  have n0: "0 < length (ns_payload h)" using ok by (simp add: native_ok_def)
  have "length ?d \<le> seg_bytes" using segment_data_length(2) [OF n0 i] .
  then have cs: "unat (fm_compressed_size (segment_file h i)) = length ?d"
    by (simp add: segment_file_def native_file_meta_def unat_of_nat_len seg_bytes_def)
  have tf: "(try_from x :: usize option) = Some x" for x :: u64 using unat_lt [of x] by (simp add: try_from_def)
  have "fm_compressed_size_known (segment_file h i)" by (simp add: segment_file_def native_file_meta_def)
  then have "trim_transmitted ((segment_file h i)\<lparr>fm_filename := ?name\<rparr>) ?p = ?d"
    using cs length_pad_ge [of ?d "sc_codec (ns_config h)"] by (simp add: trim_transmitted_def tf)
  with raw m fm' sg p show ?thesis by (simp add: holds_segment_def)
qed

lemma segment_received:
  fixes rq :: "('e, 'd) raptorq"
  assumes up: "upstream_ok rq" and ok: "native_ok cx h" and s: "segment_session rq cx h i s"
    and i: "i < seg_count (length (ns_payload h))" and ord: "\<And>xs. mset (ord xs) = mset xs"
    and n: "n \<le> 16720813" "sum_symbols (m_blocks (sn_meta s)) \<le> n - descriptors_before n"
    and e: "emit_n rq crc clock n s = (s', rs)"
  shows "\<exists>fs. rs = map Inr fs \<and> fs \<noteq> [] \<and>
    receiver_is_complete (ingest_all rq ord (from_first_frame (hd fs)) (received_frames crc (map frame_to_bytes fs))) \<and>
    holds_segment cx h (fm_filename (di_file_meta (announced s))) i
      (ingest_all rq ord (from_first_frame (hd fs)) (received_frames crc (map frame_to_bytes fs)))"
proof -
  let ?p = "pad_to_symbols (segment_data (ns_payload h) i) (sc_codec (ns_config h))"
  have inv: "sender_inv rq ?p s" and len: "length ?p \<le> 33554432" and dg: "digests_ok s" and an: "announce_ok s"
    and fresh: "position_of s = 0" "sn_frame_index s = 0" "sn_descriptor_interval s = 17"
    using s by (auto simp: segment_session_def)
  obtain fs ss where fs: "rs = map Inr fs" "fs \<noteq> []"
    "(from_first_frame (hd fs) :: 'd receiver) = new_pending (sn_session_id s)"
    "received_frames crc (map frame_to_bytes fs) = fs"
    "watching rq s ss (ingest_all rq ord (new_pending (sn_session_id s)) fs)"
    "receiver_is_complete (ingest_all rq ord (new_pending (sn_session_id s)) fs)"
    "assemble_raw (ingest_all rq ord (new_pending (sn_session_id s)) fs) = Some ?p"
    using session_lossless [OF up inv dg len an fresh ord n e] by metis
  with watching_holds [OF up ok s i fs(5,7)] show ?thesis by (auto intro!: exI [of _ fs])
qed

text \<open>
  C7: a file of any number of segments arrives whole.  A native sender is created for a payload;
  the host moves through its segments in any order and shows enough frames of
  each; receivers made from the first frame of each segment complete and hold exactly that
  segment.  Added to an assembler, in whatever order and however often, they give exactly the payload
  when all segments announce the file under one name; otherwise the assembler returns nothing.
\<close>

theorem large_transfer:
  fixes rq :: "('e, 'd) raptorq" and h :: "'e native_sender"
  assumes "upstream_ok rq" "\<And>x. length (sha256_of cx x) = 32" "\<And>xs. mset (ord xs) = mset xs"
    and "cffi_sender_create rq cx (Some payload) (Some filename) modified redundancy symbol_size = Some h"
    and "length payload < 2 ^ 64"
    and "\<And>i. i < seg_count (length payload) \<Longrightarrow> cffi_select_segment rq cx (Some h) (of_nat i) = (Some (hs i), 1)"
    and "\<And>i. i < seg_count (length payload) \<Longrightarrow> cnt i \<le> 16720813 \<and>
      sum_symbols (m_blocks (sn_meta (ns_session (hs i)))) \<le> cnt i - descriptors_before (cnt i)"
    and "\<And>i. i < seg_count (length payload) \<Longrightarrow> emit_n rq crc (clock i) (cnt i) (ns_session (hs i)) = (ss i, rs i)"
  shows "\<exists>fs. (\<forall>i < seg_count (length payload). rs i = map Inr (fs i)) \<and>
    (let recv = (\<lambda>i. ingest_all rq ord (from_first_frame (hd (fs i)))
                       (received_frames crc (map frame_to_bytes (fs i)))) in
     (\<forall>i < seg_count (length payload). cffi_is_complete (Some (recv i)) = 1 \<and>
        cffi_assemble_raw (Some (recv i)) True None = (Some (segment_data payload i), 1)) \<and>
     concat (map (segment_data payload) [0..<seg_count (length payload)]) = payload \<and>
     (\<forall>ids. seg_count (length payload) \<noteq> 1 \<and> set ids = {..<seg_count (length payload)} \<longrightarrow>
        (\<exists>a. collect_segments cx (map recv ids) = Some a \<and> reassemble (\<lambda>_. True) a =
          (if \<exists>name. \<forall>i < seg_count (length payload). fm_filename (di_file_meta (announced (ns_session (hs i)))) = name
           then Some payload else None))))"
proof -
  let ?N = "seg_count (length payload)"
  have name: "utf8_valid filename" and new: "native_new rq cx payload filename modified redundancy symbol_size = Inr h"
    using assms(4) by (auto simp: cffi_sender_create_def split: if_splits sum.splits)
  have ok: "native_ok cx h" and p: "ns_payload h = payload" and f: "ns_filename h = filename"
    using native_new_ok [OF new assms(5)] by blast+
  have n: "0 < length payload" "length payload \<le> 268435456" using ok p by (auto simp: native_ok_def)
  have sess: "segment_session rq cx h i (ns_session (hs i))" if i: "i < ?N" for i
  proof -
    have u: "unat (of_nat i :: u32) = i" using i seg_count_native [OF n] by (simp add: unat_of_nat_len)
    from selected_session [OF assms(1,2,4,5) assms(6) [OF i]] show ?thesis unfolding u by blast
  qed
  define fs where "fs i = map (\<lambda>r. case r of Inr f \<Rightarrow> f | Inl _ \<Rightarrow> undefined) (rs i)" for i
  define recv where "recv i = (ingest_all rq ord (from_first_frame (hd (fs i)))
      (received_frames crc (map frame_to_bytes (fs i))) :: 'd receiver)" for i
  have R: "rs i = map Inr (fs i) \<and> receiver_is_complete (recv i) \<and>
      holds_segment cx h (fm_filename (di_file_meta (announced (ns_session (hs i))))) i (recv i)" if i: "i < ?N" for i
  proof -
    obtain gs where g: "rs i = map Inr gs"
      "receiver_is_complete (ingest_all rq ord (from_first_frame (hd gs)) (received_frames crc (map frame_to_bytes gs)))"
      "holds_segment cx h (fm_filename (di_file_meta (announced (ns_session (hs i))))) i
        (ingest_all rq ord (from_first_frame (hd gs)) (received_frames crc (map frame_to_bytes gs)))"
      using segment_received [OF assms(1) ok sess [OF i] _ assms(3) _ _ assms(8) [OF i]] assms(7) [OF i] i p by blast
    have "fs i = gs" by (simp add: fs_def g(1) comp_def)
    with g show ?thesis by (simp add: recv_def)
  qed
  have out: "cffi_is_complete (Some (recv i)) = 1 \<and>
      cffi_assemble_raw (Some (recv i)) True None = (Some (segment_data payload i), 1)" if "i < ?N" for i
    using R [OF that] p by (auto simp: cffi_is_complete_def cffi_assemble_raw_def holds_segment_def)
  define nm where "nm i = fm_filename (di_file_meta (announced (ns_session (hs i))))" for i
  have asm: "\<exists>a. collect_segments cx (map recv ids) = Some a \<and> reassemble (\<lambda>_. True) a =
      (if \<exists>name. \<forall>i < ?N. nm i = name then Some payload else None)"
    if many: "?N \<noteq> 1" and ids: "set ids = {..<?N}" for ids
  proof -
    have "0 \<in> set ids" unfolding ids by (simp add: seg_count_def)
    then have ne: "ids \<noteq> []" by auto
    then have hd: "hd ids < ?N" using ids hd_in_set [OF ne] by auto
    have many': "seg_count (length (ns_payload h)) \<noteq> 1" using many p by simp
    have each: "i < seg_count (length (ns_payload h)) \<and> holds_segment cx h (nm i) i (recv i)" if "i \<in> set ids" for i
      using that ids R [of i] p by (simp add: nm_def)
    obtain a where a: "collect_segments cx (map recv ids) = Some a"
      "collecting cx h (nm (hd ids)) {i \<in> set ids. nm i = nm (hd ids)} a"
      using collect_all [where ix = "\<lambda>i. i" and recv = recv, OF ok many' each ne] by auto
    show ?thesis
    proof (cases "\<exists>name. \<forall>i < ?N. nm i = name")
      case True
      then have "{i \<in> set ids. nm i = nm (hd ids)} = {..<seg_count (length (ns_payload h))}" using hd ids p by auto
      with collecting_reassemble [OF ok, where grant = "\<lambda>_. True"] a True show ?thesis by (simp add: p)
    next
      case False
      then obtain i where "i < ?N" "nm i \<noteq> nm (hd ids)" by metis
      with collecting_partial [OF a(2), of i] a(1) False show ?thesis by (simp add: p)
    qed
  qed
  show ?thesis
  proof (rule exI [of _ fs], unfold Let_def recv_def [symmetric], intro conjI)
    show "\<forall>i < ?N. rs i = map Inr (fs i)" using R by blast
    show "\<forall>i < ?N. cffi_is_complete (Some (recv i)) = 1 \<and>
        cffi_assemble_raw (Some (recv i)) True None = (Some (segment_data payload i), 1)" using out by blast
    show "concat (map (segment_data payload) [0..<?N]) = payload" by (rule segment_data_concat [OF n(1)])
    show "\<forall>ids. ?N \<noteq> 1 \<and> set ids = {..<?N} \<longrightarrow> (\<exists>a. collect_segments cx (map recv ids) = Some a \<and>
        reassemble (\<lambda>_. True) a = (if \<exists>name. \<forall>i < ?N. fm_filename (di_file_meta (announced (ns_session (hs i)))) = name
          then Some payload else None))"
      by (intro allI impI, elim conjE) (rule asm [unfolded nm_def])
  qed
qed

end
