(* ===== verification/Cffi_Props.thy ===== *)
theory Cffi_Props
  imports Large_Transfer
begin

text \<open>
  What the C interface promises: frames written into a host's buffer are whole, valid and never
  beyond its capacity; the status word of an ingested frame is exact and never mistaken for an
  error; and a file the streaming decoder reports as good is good.
\<close>

section \<open>A handle in use\<close>

inductive native_reach :: "('e, 'd) raptorq \<Rightarrow> codecs \<Rightarrow> 'e native_sender \<Rightarrow> bool" for rq cx where
  native_created: "cffi_sender_create rq cx (Some payload) (Some filename) modified redundancy symbol_size = Some h \<Longrightarrow>
    length payload < 2 ^ 64 \<Longrightarrow> native_reach rq cx h"
| native_selected: "native_reach rq cx h \<Longrightarrow> cffi_select_segment rq cx (Some h) index = (Some h', code) \<Longrightarrow>
    native_reach rq cx h'"
| native_emitted: "native_reach rq cx h \<Longrightarrow> cffi_next_frame rq cx clock (Some h) out = (Some h', out', n) \<Longrightarrow>
    native_reach rq cx h'"

definition native_live :: "('e, 'd) raptorq \<Rightarrow> codecs \<Rightarrow> 'e native_sender \<Rightarrow> bool" where
  "native_live rq cx h \<longleftrightarrow> native_ok cx h \<and> utf8_valid (ns_filename h) \<and>
     (\<exists>s0. segment_session rq cx h (unat (ns_segment_index h)) s0 \<and> same_session s0 (ns_session h) \<and>
        sender_inv rq (pad_to_symbols (segment_data (ns_payload h) (unat (ns_segment_index h)))
          (sc_codec (ns_config h))) (ns_session h))"

lemma native_live_built:
  assumes "upstream_ok rq" "native_ok cx h" "\<And>x. length (sha256_of cx x) = 32" "utf8_valid (ns_filename h)"
    and "build_session rq cx (ns_payload h) (ns_filename h) (ns_config h) (ns_root_session_id h) (ns_crc32 h)
      (ns_root_sha256 h) (ns_segment_count h) (ns_segment_index h) = Inr (ns_session h)"
  shows "native_live rq cx h"
proof -
  have "unat (ns_segment_index h) < seg_count (length (ns_payload h))" using assms(2) by (simp add: native_ok_def)
  from build_segment_session [OF assms(1-4) this assms(5)]
  have "segment_session rq cx h (unat (ns_segment_index h)) (ns_session h)" .
  with assms(2,4) show ?thesis by (auto simp: native_live_def segment_session_def)
qed

lemma segment_session_cong:
  assumes "ns_payload h' = ns_payload h" "ns_filename h' = ns_filename h" "ns_config h' = ns_config h"
    "ns_root_session_id h' = ns_root_session_id h" "ns_crc32 h' = ns_crc32 h" "ns_root_sha256 h' = ns_root_sha256 h"
    "ns_segment_count h' = ns_segment_count h"
  shows "segment_session rq cx h' i s = segment_session rq cx h i s"
  using assms
  by (simp add: segment_session_def segment_session_id_def segment_file_def segment_info_def)

text \<open>What a live handle's session is, and what one call of \<open>next_frame\<close> does to it.\<close>

lemma native_live_session:
  assumes "native_live rq cx h"
  defines "data \<equiv> pad_to_symbols (segment_data (ns_payload h) (unat (ns_segment_index h))) (sc_codec (ns_config h))"
  shows "sender_inv rq data (ns_session h)" "digests_ok (ns_session h)" "length data \<le> 33554432"
    "sn_config (ns_session h) = ns_config h"
    "sn_session_id (ns_session h) = segment_session_id h (unat (ns_segment_index h))"
  using assms by (auto simp: native_live_def segment_session_def same_session_def digests_ok_def)

lemma sender_symbol_size:
  assumes "sender_inv rq data s"
  shows "m_symbol_size (sn_meta s) = cfg_symbol_size (sc_codec (sn_config s))"
  using assms by (auto simp: sender_inv_def sender_static_def encoder_new_Inr Let_def config_new_Inr)

lemma native_frame_step:
  assumes up: "upstream_ok rq" and live: "native_live rq cx h"
    and nf: "next_frame rq (crc32_of cx) clock (ns_session h) = (s', r)"
  shows "native_live rq cx (h\<lparr>ns_session := s'\<rparr>)"
proof -
  note L = native_live_session [OF live]
  have N: "sender_inv rq (pad_to_symbols (segment_data (ns_payload h) (unat (ns_segment_index h)))
      (sc_codec (ns_config h))) s'" "same_session (ns_session h) s'"
    using next_frame_step [OF up L(1-3) nf] by auto
  obtain s0 where "segment_session rq cx h (unat (ns_segment_index h)) s0" "same_session s0 (ns_session h)"
    using live by (auto simp: native_live_def)
  then have "segment_session rq cx (h\<lparr>ns_session := s'\<rparr>) (unat (ns_segment_index h)) s0" "same_session s0 s'"
    using segment_session_cong [of "h\<lparr>ns_session := s'\<rparr>" h] same_session_trans N(2) by auto
  with live N(1) show ?thesis by (auto simp: native_live_def native_ok_def)
qed

lemma native_reach_live:
  assumes "native_reach rq cx h" "upstream_ok rq" "\<And>x. length (sha256_of cx x) = 32"
  shows "native_live rq cx h"
  using assms
proof (induction rule: native_reach.induct)
  case (native_created payload filename modified redundancy symbol_size h)
  then have name: "utf8_valid filename"
    and new: "native_new rq cx payload filename modified redundancy symbol_size = Inr h"
    by (auto simp: cffi_sender_create_def split: if_splits sum.splits)
  from native_new_ok [OF new native_created.hyps(2)] name native_created.prems show ?case
    by (intro native_live_built) auto
next
  case (native_selected h index h' code)
  then have live: "native_live rq cx h" by simp
  then have ok: "native_ok cx h" "utf8_valid (ns_filename h)" by (auto simp: native_live_def)
  obtain r where sel: "native_select rq cx h index = (h', r)"
    using native_selected.hyps(2) by (auto simp: cffi_select_segment_def split: prod.splits sum.splits)
  note S = native_select_ok [OF ok(1) sel]
  show ?case
  proof (cases r)
    case (Inl e)
    with S live show ?thesis by simp
  next
    case (Inr u)
    with S ok native_selected.prems show ?thesis by (intro native_live_built) auto
  qed
next
  case (native_emitted h clock out h' out' n)
  then have live: "native_live rq cx h" by simp
  from native_emitted.hyps(2) have "h' = h \<or> (\<exists>s' r. next_frame rq (crc32_of cx) clock (ns_session h) = (s', r) \<and>
      h' = h\<lparr>ns_session := s'\<rparr>)"
    by (auto simp: cffi_next_frame_def Let_def split: option.splits if_splits prod.splits sum.splits)
  with live native_frame_step [OF native_emitted.prems(1) live] show ?case by (metis prod.exhaust)
qed

text \<open>
  C21: a native host gets whole frames.  In every state a host can bring a handle into, a
  buffer below the announced capacity is left alone and the stream does not advance; any other
  call writes either nothing, once the symbol ids of the session are used up, or exactly
  one wire frame of the announced size, which parses back under the session id of the
  selected segment, and no byte beyond it.
\<close>

theorem native_frames_exact:
  assumes "upstream_ok rq" "\<And>x. length (sha256_of cx x) = 32" "native_reach rq cx h"
    and "cffi_next_frame rq cx clock (Some h) (Some buf) = (h1, out, n)"
  shows "if length buf < cffi_frame_capacity (Some h) then h1 = Some h \<and> out = Some buf \<and> n = 0
    else (n = 0 \<and> out = Some buf \<and> id_at (sn_meta (ns_session h)) (position_of (ns_session h)) = None) \<or>
      (n = cffi_frame_capacity (Some h) \<and> (\<exists>f buf'. out = Some buf' \<and> length buf' = length buf \<and>
         take n buf' = frame_to_bytes f \<and> drop n buf' = drop n buf \<and>
         frame_from_bytes (crc32_of cx) (take n buf') = Inr f \<and> sent_frame rq (crc32_of cx) (ns_session h) f \<and>
         fh_session_id (fr_header f) = segment_session_id h (unat (ns_segment_index h))))"
proof -
  note live = native_reach_live [OF assms(3,1,2)]
  note L = native_live_session [OF live]
  obtain s' r where nf: "next_frame rq (crc32_of cx) clock (ns_session h) = (s', r)" by fastforce
  note N = next_frame_step [OF assms(1) L(1-3) nf]
  show ?thesis
  proof (cases "length buf < cffi_frame_capacity (Some h)")
    case True
    then have "cffi_next_frame rq cx clock (Some h) (Some buf) = (Some h, Some buf, 0)"
      by (simp add: cffi_next_frame_def cffi_frame_capacity_def)
    with assms(4) True show ?thesis by auto
  next
    case False
    show ?thesis
    proof (cases r)
      case (Inl e)
      with N assms(4) False nf show ?thesis by (simp add: cffi_next_frame_def cffi_frame_capacity_def)
    next
      case (Inr f)
      then have f: "sent_frame rq (crc32_of cx) (ns_session h) f" using N by simp
      then have v: "frame_valid (crc32_of cx) f" and sid: "fh_session_id (fr_header f) = sn_session_id (ns_session h)"
        and ss: "fh_symbol_size (fr_header f) = m_symbol_size (sn_meta (ns_session h))"
        by (simp_all add: sent_frame_def)
      have "length (frame_to_bytes f) = cffi_frame_capacity (Some h)"
        using frame_to_bytes_length [OF v] ss sender_symbol_size [OF L(1)] L(4)
        by (simp add: cffi_frame_capacity_def)
      with assms(4) False nf Inr f v sid L(5) show ?thesis
        by (auto simp: cffi_next_frame_def cffi_frame_capacity_def Let_def from_to_bytes)
    qed
  qed
qed

section \<open>The status of an ingested frame\<close>

lemma pending_step:
  assumes inv: "rx_inv rq ss s" and ord: "\<And>xs. mset (ord xs) = mset xs"
    and len: "length (fr_payload f) < 2 ^ 32" and i: "ingest rq ord f s = (s', r)" and none: "rx_meta s' = None"
  shows "rx_meta s = None \<and> (pg_received_symbols (rx_progress s') = pg_received_symbols (rx_progress s) \<or>
    pg_received_symbols (rx_progress s') = of_nat (length (rx_symbol_cache s')))"
proof -
  have "keeps s s'" using ingest_step [OF inv ord len i] by blast
  then have m: "rx_meta s = None" using none by (auto simp: keeps_def)
  show ?thesis
  proof (cases "fh_session_id (fr_header f) = rx_session_id s")
    case False
    then show ?thesis using i m by (auto simp: ingest_def Let_def)
  next
    case sid: True
    show ?thesis
    proof (cases "fh_flags (fr_header f) AND FLAG_DESCRIPTOR \<noteq> 0")
      case desc: True
      then have d: "ingest_descriptor rq ord f (begin_frame s) = (s', r)" using i sid by (simp add: ingest_def Let_def)
      have "adopts rq f (begin_frame s) = None"
        using ingest_descriptor_step [OF rx_inv_counters(3) [OF inv] ord d] none by (auto split: option.splits)
      then show ?thesis using d m
        by (auto simp: ingest_descriptor_def adopts_def finish_def adopt_descriptor_def count_corrupt_def begin_frame_def
            split: option.splits if_splits)
    next
      case data: False
      then have "ingest_pending f (begin_frame s) = (s', r)"
        using i sid m rx_inv_confirmed [OF inv] by (simp add: ingest_def Let_def)
      then show ?thesis using m
        by (auto simp: ingest_pending_def Let_def count_duplicate_def count_corrupt_def split: if_splits)
    qed
  qed
qed

text \<open>A session without metadata counts its cache, which is bounded.\<close>

lemma pending_bounded:
  assumes "rx_reach rq ord s" "\<And>xs. mset (ord xs) = mset xs" "rx_meta s = None"
  shows "length (rx_symbol_cache s) \<le> 524288 \<and> unat (pg_received_symbols (rx_progress s)) \<le> 524288"
  using assms
proof (induction rule: rx_reach.induct)
  case (reach_confirmed sid meta s)
  then show ?case by (auto simp: receiver_new_def new_confirmed_def receiver_build_def)
next
  case (reach_restored st s)
  then show ?case using restore_spec [of st rq] by auto
next
  case (reach_frame s f s' r)
  obtain ss where inv: "rx_inv rq ss s" using rx_reach_inv reach_frame by metis
  note C = cache_step [OF inv reach_frame.prems(1) reach_frame.hyps(2,3)]
  note P = pending_step [OF inv reach_frame.prems(1) reach_frame.hyps(2,3) reach_frame.prems(2)]
  then have IH: "length (rx_symbol_cache s) \<le> 524288" "unat (pg_received_symbols (rx_progress s)) \<le> 524288"
    using reach_frame by auto
  have l: "length (rx_symbol_cache s') \<le> 524288"
    using C IH(1) pre_meta_cache_max_le [of "fh_symbol_size (fr_header f)"] by auto
  then have "unat (of_nat (length (rx_symbol_cache s')) :: u32) \<le> 524288" by (simp add: unat_of_nat_len)
  with P IH l show ?case by auto
next
  case (reach_assemble s cx s' v)
  then show ?case using assemble_result_state [OF reach_assemble.hyps(2)] by auto
qed (simp_all add: new_pending_def from_first_frame_def receiver_build_def progress_default_def)

text \<open>A session with metadata counts distinct symbol ids of its blocks.\<close>

lemma log_length:
  assumes "rx_inv rq ss s" "rx_meta s = Some meta"
  shows "length ss < 4294967295"
proof -
  obtain dec0 where c: "rx_core rq meta dec0 ss s" using assms by (auto simp: rx_inv_def)
  then have dist: "distinct (map sym_id ss)" and fit: "\<forall>x \<in> set ss. fits meta x" by (auto simp: rx_core_def)
  have "meta_ok rq meta" using core_meta_ok [OF c] .
  then have b: "length (m_blocks meta) \<le> 255" by (simp add: meta_ok_def)
  let ?key = "\<lambda>x. (unat (sid_sbn x), unat (sid_esi x))"
  have inj: "inj_on ?key (set (map sym_id ss))"
    by (intro inj_onI) (auto simp: word_unat_eq_iff [symmetric] prod_eq_iff intro: symbol_id.equality)
  have "?key ` set (map sym_id ss) \<subseteq> {..<255} \<times> {..<16777216}" using fit b by (fastforce simp: fits_def)
  then have "card (?key ` set (map sym_id ss)) \<le> card ({..<255::nat} \<times> {..<16777216::nat})"
    by (intro card_mono) simp_all
  moreover have "card (?key ` set (map sym_id ss)) = length ss"
    using card_image [OF inj] distinct_card [OF dist] by simp
  ultimately show ?thesis by (simp add: card_cartesian_product)
qed

lemma received_below:
  assumes "rx_reach rq ord s" "\<And>xs. mset (ord xs) = mset xs"
  shows "pg_received_symbols (rx_progress s) \<noteq> - 1"
proof (cases "rx_meta s")
  case None
  have "unat (- 1 :: u32) = 4294967295" by (simp add: unsigned_minus_1_eq_mask mask_eq_exp_minus_1)
  with pending_bounded [OF assms None] show ?thesis by auto
next
  case (Some meta)
  obtain ss where inv: "rx_inv rq ss s" using rx_reach_inv [OF assms] by blast
  then have "pg_received_symbols (rx_progress s) = of_nat (length ss)" using Some by (simp add: rx_inv_def counts_ok_def)
  moreover have "unat (of_nat (length ss) :: u32) = length ss" "unat (- 1 :: u32) = 4294967295"
    using log_length [OF inv Some] by (simp_all add: unat_of_nat_len unsigned_minus_1_eq_mask mask_eq_exp_minus_1)
  ultimately show ?thesis using log_length [OF inv Some] by auto
qed

text \<open>A frame of a session with metadata either leaves the log alone or appends a new id.\<close>

lemma received_changes:
  assumes inv: "rx_inv rq ss s" and m: "rx_meta s = Some meta" and ord: "\<And>xs. mset (ord xs) = mset xs"
    and len: "length (fr_payload f) < 2 ^ 32" and i: "ingest rq ord f s = (s', r)"
  shows "pg_received_symbols (rx_progress s) < pg_received_symbols (rx_progress s') \<longleftrightarrow> rx_received s' \<noteq> rx_received s"
proof -
  let ?ss = "log_step rq ord f s ss"
  have inv': "rx_inv rq ?ss s'" and "keeps s s'" using ingest_step [OF inv ord len i] by blast+
  then have m': "rx_meta s' = Some meta" using m by (auto simp: keeps_def)
  have c: "pg_received_symbols (rx_progress s) = of_nat (length ss)"
    "pg_received_symbols (rx_progress s') = of_nat (length ?ss)"
    "rx_received s = map (received_in ss) [0..<length (m_blocks meta)]"
    "rx_received s' = map (received_in ?ss) [0..<length (m_blocks meta)]"
    using inv m inv' m' by (auto simp: rx_inv_def counts_ok_def rx_core_def)
  have u: "unat (of_nat (length ss) :: u32) = length ss" "unat (of_nat (length ?ss) :: u32) = length ?ss"
    using log_length [OF inv m] log_length [OF inv' m'] by (simp_all add: unat_of_nat_len)
  have "?ss = ss \<or> ?ss = ss @ [symbol_of f] \<and> fits meta (symbol_of f) \<and> sym_id (symbol_of f) \<notin> sym_id ` set ss"
    using m by (auto simp: log_step_def adopts_def split: option.split)
  then consider "?ss = ss" | "?ss = ss @ [symbol_of f]" "fits meta (symbol_of f)" "sym_id (symbol_of f) \<notin> sym_id ` set ss"
    by blast
  then show ?thesis
  proof cases
    case 1
    then show ?thesis by (simp add: c)
  next
    case 2
    let ?b = "unat (sid_sbn (sym_id (symbol_of f)))"
    have b: "?b < length (m_blocks meta)" using 2 by (simp add: fits_def)
    have "sid_esi (sym_id (symbol_of f)) \<notin> received_in ss ?b" using 2(3) by (simp add: in_received_in)
    moreover have "sid_esi (sym_id (symbol_of f)) \<in> received_in ?ss ?b" by (simp add: 2(1))
    ultimately have "rx_received s' ! ?b \<noteq> rx_received s ! ?b" using b by (auto simp: c)
    then have "rx_received s' \<noteq> rx_received s" by auto
    then show ?thesis by (simp add: c(1,2) word_less_nat_alt u) (simp add: 2(1))
  qed
qed

text \<open>
  C22: the status word of an ingested frame is exact.  In every reachable session, bytes that are not
  a valid frame return the error sentinel and change nothing; a valid frame never returns
  the sentinel, and the word's fields are the session's completeness, its
  received count and its mismatch streak modulo \<open>2 ^ 16\<close>; the accepted flag says that the count
  grew, which in a session with metadata means that a new symbol was recorded.
\<close>

theorem native_ingest_exact:
  assumes "rx_reach rq ord s" "\<And>xs. mset (ord xs) = mset xs"
    and "cffi_ingest rq cx ord (Some s) (Some bs) = (h', w)"
  shows "case frame_from_bytes (crc32_of cx) bs of
      Inl e \<Rightarrow> h' = Some s \<and> w = INGEST_ERROR
    | Inr f \<Rightarrow> h' = Some (fst (ingest rq ord f s)) \<and> rx_reach rq ord (fst (ingest rq ord f s)) \<and> w \<noteq> INGEST_ERROR \<and>
        status_complete w = receiver_is_complete (fst (ingest rq ord f s)) \<and>
        status_received w = pg_received_symbols (rx_progress (fst (ingest rq ord f s))) \<and>
        status_streak w = ucast (pg_session_mismatch_streak (rx_progress (fst (ingest rq ord f s)))) \<and>
        (rx_meta s \<noteq> None \<longrightarrow>
          (status_accepted w \<longleftrightarrow> rx_received (fst (ingest rq ord f s)) \<noteq> rx_received s))"
proof (cases "frame_from_bytes (crc32_of cx) bs")
  case (Inl e)
  with assms(3) show ?thesis by (auto simp: cffi_ingest_def split: if_splits)
next
  case (Inr f)
  let ?s = "fst (ingest rq ord f s)"
  have "bs \<noteq> []" using Inr by (auto simp: frame_from_bytes_def FRAME_HEADER_SIZE_def)
  with assms(3) Inr have h: "h' = Some ?s"
    and w: "w = pack (receiver_is_complete ?s)
      (pg_received_symbols (rx_progress s) < pg_received_symbols (rx_progress ?s))
      (pg_session_mismatch_streak (rx_progress ?s)) (pg_received_symbols (rx_progress ?s))"
    by (auto simp: cffi_ingest_def ingest_packed_def Let_def receiver_progress_def)
  have "frame_valid (crc32_of cx) f" using frames.dec_exact Inr by blast
  then have l: "length (fr_payload f) < 2 ^ 32" by (rule valid_length)
  obtain r where i: "ingest rq ord f s = (?s, r)" by (metis prod.collapse)
  have reach: "rx_reach rq ord ?s" using assms(1) l i by (rule reach_frame)
  have "w \<noteq> INGEST_ERROR" using received_below [OF reach assms(2)] by (simp add: w pack_fields)
  moreover have "pg_received_symbols (rx_progress s) < pg_received_symbols (rx_progress ?s) \<longleftrightarrow>
      rx_received ?s \<noteq> rx_received s" if m: "rx_meta s \<noteq> None"
  proof -
    obtain ss where inv: "rx_inv rq ss s" using rx_reach_inv [OF assms(1,2)] by blast
    from m obtain meta where "rx_meta s = Some meta" by blast
    from received_changes [OF inv this assms(2) l i] show ?thesis .
  qed
  ultimately show ?thesis using Inr h reach by (simp add: w pack_fields)
qed

section \<open>Streams decompressed for the host\<close>

text \<open>What the host asks of the decompressed bytes.\<close>

definition verified_output :: "codecs \<Rightarrow> u64 \<Rightarrow> u32 \<Rightarrow> bool \<Rightarrow> bytes \<Rightarrow> bytes \<Rightarrow> bool" where
  "verified_output cx expected crc crc_known sha out \<longleftrightarrow> length out = unat expected \<and>
     (crc_known \<longrightarrow> crc32_of cx out = crc) \<and>
     eq_ignore_ascii_case (hex_string (sha256_of cx out)) (utf8_lossy sha)"

text \<open>
  C23: the native stream call, for any file system.  With a missing argument it returns 0
  and touches nothing.  Otherwise it returns 1 or 0.  After a 1 the output file holds what the
  reader of the input delivered, of the expected size and within the limit, with
  the expected CRC-32 if one is known and the expected SHA-256 up to letter case; for every limit but
  the largest 64-bit number that is all the reader delivered, and the reader had ended
  without an error.  After a 0 the output path holds what it held before if the input could not be
  opened or the output not created; else there is no output file, unless it could not be removed.
  And when everything opens, reads and writes and the bytes pass the checks, the call does return 1.
\<close>

theorem native_stream_verified:
  assumes "cffi_decompress_stream_to_file cx io (Some input) (Some output) tag max_output expected_size
      expected_crc crc_known (Some expected_sha) old = (code, file)"
  shows "let fs = io (utf8_lossy input) (utf8_lossy output);
      good = verified_output cx expected_size expected_crc crc_known expected_sha in
    (code = 0 \<or> code = 1) \<and>
    (code = 1 \<longrightarrow> io_open fs = None \<and> io_create fs = None \<and> (\<exists>r out. stream_reader cx fs tag = Some r \<and>
       file = Some out \<and> good out \<and> length out \<le> unat max_output \<and> out = take (unat max_output) (delivered r) \<and>
       (unat max_output + 1 < 2 ^ 64 \<longrightarrow> out = delivered r \<and> ([] \<in> set (rd_chunks r) \<or> rd_end r = None)))) \<and>
    (code = 0 \<longrightarrow> (if io_open fs \<noteq> None \<or> io_create fs \<noteq> None then file = old
       else if io_removable fs then file = None else file \<noteq> None)) \<and>
    (\<forall>r. io_open fs = None \<and> io_create fs = None \<and> stream_reader cx fs tag = Some r \<and>
       ([] \<in> set (rd_chunks r) \<or> rd_end r = None) \<and> (\<forall>a b. io_write fs a b = None) \<and> io_flush fs = None \<and>
       length (delivered r) \<le> unat max_output \<and> good (delivered r) \<longrightarrow> code = 1 \<and> file = Some (delivered r)) \<and>
    (\<forall>p q h. p = None \<or> q = None \<or> h = None \<longrightarrow> cffi_decompress_stream_to_file cx io p q tag max_output
       expected_size expected_crc crc_known h old = (0, old))"
proof -
  define fs where "fs = io (utf8_lossy input) (utf8_lossy output)"
  define good where "good = verified_output cx expected_size expected_crc crc_known expected_sha"
  obtain res left1 where d: "decompress_stream_to_file cx fs old tag max_output = (res, left1)" by fastforce
  note P = stream_exact [OF d]
  have sz: "(of_nat (length out) :: u64) = expected_size \<longleftrightarrow> length out = unat expected_size"
    if "length out \<le> unat max_output" for out :: bytes
    using that unat_lt [of max_output] by (auto simp: unat_of_nat_len)
  have main: "(code = 0 \<or> code = 1) \<and>
    (code = 1 \<longrightarrow> io_open fs = None \<and> io_create fs = None \<and> (\<exists>r out. stream_reader cx fs tag = Some r \<and>
       file = Some out \<and> good out \<and> length out \<le> unat max_output \<and> out = take (unat max_output) (delivered r) \<and>
       (unat max_output + 1 < 2 ^ 64 \<longrightarrow> out = delivered r \<and> ([] \<in> set (rd_chunks r) \<or> rd_end r = None)))) \<and>
    (code = 0 \<longrightarrow> (if io_open fs \<noteq> None \<or> io_create fs \<noteq> None then file = old
       else if io_removable fs then file = None else file \<noteq> None))"
  proof (cases res)
    case (Inl e)
    then have "code = 0" "file = left1"
      using assms d by (simp_all add: cffi_decompress_stream_to_file_def Let_def flip: fs_def)
    with P show ?thesis by (simp add: Inl stream_promise_def)
  next
    case (Inr o1)
    with P obtain r out where io: "io_open fs = None" "io_create fs = None" and r: "stream_reader cx fs tag = Some r"
      and out: "left1 = Some out" "out = take (unat max_output) (delivered r)" "so_output_size o1 = of_nat (length out)"
      "length out \<le> unat max_output" "so_crc32 o1 = crc32_of cx out" "so_sha256 o1 = sha256_of cx out"
      "unat max_output + 1 < 2 ^ 64 \<longrightarrow> out = delivered r \<and> ([] \<in> set (rd_chunks r) \<or> rd_end r = None)"
      unfolding stream_promise_def by auto
    have "(code, file) = (if good out then (1, Some out) else (0, if io_removable fs then None else Some out))"
      unfolding assms [symmetric] using d Inr sz [OF out(4)]
      by (simp add: cffi_decompress_stream_to_file_def good_def verified_output_def out(1,3,5,6) Let_def flip: fs_def)
    then show ?thesis using io r out(2,4,7) by (cases "good out") auto
  qed
  have ok: "code = 1 \<and> file = Some (delivered r)"
    if "io_open fs = None \<and> io_create fs = None \<and> stream_reader cx fs tag = Some r \<and>
       ([] \<in> set (rd_chunks r) \<or> rd_end r = None) \<and> (\<forall>a b. io_write fs a b = None) \<and> io_flush fs = None \<and>
       length (delivered r) \<le> unat max_output \<and> good (delivered r)" for r
  proof -
    from that obtain o1 where "decompress_stream_to_file cx fs old tag max_output = (Inr o1, Some (delivered r))"
      "so_output_size o1 = of_nat (length (delivered r))" "so_crc32 o1 = crc32_of cx (delivered r)"
      "so_sha256 o1 = sha256_of cx (delivered r)"
      using stream_succeeds [of fs cx tag r max_output old] by blast
    moreover have "(of_nat (length (delivered r)) :: u64) = expected_size" using sz that
      by (simp add: good_def verified_output_def)
    ultimately have "(code, file) = (1, Some (delivered r))"
      unfolding assms [symmetric] using that
      by (simp add: cffi_decompress_stream_to_file_def good_def verified_output_def Let_def flip: fs_def)
    then show ?thesis by simp
  qed
  have null: "cffi_decompress_stream_to_file cx io p q tag max_output expected_size expected_crc crc_known h old = (0, old)"
    if "p = None \<or> q = None \<or> h = None" for p q h
    using that by (auto simp: cffi_decompress_stream_to_file_def split: option.splits)
  show ?thesis using main ok null unfolding Let_def fs_def good_def by blast
qed

end
