(* ===== verification/Large_Channel.thy ===== *)
theory Large_Channel
  imports Large_Transfer
begin

text \<open>
  A large transfer over a bad channel: for every segment of a native sender's file any number of receivers,
  each of which sees any frames, and an assembler (\<open>core/transfer-engine/src/assembler.rs\<close>) that is given
  whatever they have, in any order.
\<close>

section \<open>Receivers without an object\<close>

lemma add_received_incomplete: "assemble_raw rx = None \<Longrightarrow> add_received cx rx a = a"
  by (simp add: add_received_def split: option.splits)

lemma collect_complete:
  "collect_segments cx rxs = collect_segments cx (filter (\<lambda>rx. assemble_raw rx \<noteq> None) rxs)"
proof -
  have "foldl (\<lambda>a rx. add_received cx rx a) a rxs =
      foldl (\<lambda>a rx. add_received cx rx a) a (filter (\<lambda>rx. assemble_raw rx \<noteq> None) rxs)" for a
    by (induction rxs arbitrary: a) (auto simp: add_received_incomplete)
  then show ?thesis by (simp add: collect_segments_def)
qed

section \<open>The assembler is never wrong\<close>

text \<open>What is reassembled from the segments seen, in terms of the set of them.\<close>

lemma collecting_result:
  assumes ok: "native_ok cx h" and c: "collecting cx h name I a" and I: "I \<subseteq> {..<seg_count (length (ns_payload h))}"
  shows "reassemble grant a \<in> {None, Some (ns_payload h)} \<and>
    (reassemble (\<lambda>_. True) a = Some (ns_payload h) \<longleftrightarrow> I = {..<seg_count (length (ns_payload h))})"
proof (cases "I = {..<seg_count (length (ns_payload h))}")
  case True
  with collecting_reassemble [OF ok] c show ?thesis by simp
next
  case False
  with I obtain i where "i < seg_count (length (ns_payload h))" "i \<notin> I" by auto
  with collecting_partial [OF c] False show ?thesis by simp
qed

text \<open>No two segments of a file share a session id, so a frame of another segment is a foreign frame.\<close>

lemma own_or_foreign:
  assumes ok: "native_ok cx h" and sess: "\<And>j. j < seg_count (length (ns_payload h)) \<Longrightarrow> segment_session rq cx h j (s j)"
    and many: "seg_count (length (ns_payload h)) \<noteq> 1" and i: "i < seg_count (length (ns_payload h))"
    and f: "frame_valid crc f \<and>
      ((\<forall>j < seg_count (length (ns_payload h)). fh_session_id (fr_header f) \<noteq> sn_session_id (s j)) \<or>
       (\<exists>j < seg_count (length (ns_payload h)). sent_frame rq crc (s j) f))"
  shows "trusted rq crc (s i) f"
proof (cases "fh_session_id (fr_header f) = sn_session_id (s i)")
  case False
  with f show ?thesis by (simp add: trusted_def)
next
  case True
  with f i obtain j where j: "j < seg_count (length (ns_payload h))" "sent_frame rq crc (s j) f" by blast
  then have eq: "sn_session_id (s j) = sn_session_id (s i)" using True by (simp add: sent_frame_def)
  have "seg_count (length (ns_payload h)) \<le> 9" using ok seg_count_native by (simp add: native_ok_def)
  then have u: "unat (of_nat i :: u32) = i" "unat (of_nat j :: u32) = j" using i j(1) by (simp_all add: unat_of_nat_len)
  have "segment_session_id h j = segment_session_id h i"
    using eq sess [OF i] sess [OF j(1)] by (simp add: segment_session_def)
  then have "(of_nat j :: u32) = of_nat i" using many by (simp add: segment_session_id_def derive_segment_inj)
  then have "j = i" using u by metis
  with j(2) f show ?thesis by (simp add: trusted_def)
qed

text \<open>
  C6: a large transfer never yields a wrong file.  A native sender goes through the segments of its file; for
  each segment any number of receivers see any frames the sender showed, of this segment or another, in any
  order, lost, repeated and mixed with frames of other sessions; the assembler is given what they hold, in any order.  Whatever it then returns is exactly the
  file; and it returns the file, if memory can be had, exactly when all segments announce one name and each
  has a receiver that holds it.
\<close>

theorem large_never_wrong:
  fixes rq :: "('e, 'd) raptorq" and h :: "'e native_sender" and reads :: "(nat \<times> frame list) list"
  assumes "upstream_ok rq" "\<And>x. length (sha256_of cx x) = 32" "\<And>xs. mset (ord xs) = mset xs"
    and "cffi_sender_create rq cx (Some payload) (Some filename) modified redundancy symbol_size = Some h"
    and "length payload < 2 ^ 64" "seg_count (length payload) \<noteq> 1"
    and "\<And>i. i < seg_count (length payload) \<Longrightarrow> cffi_select_segment rq cx (Some h) (of_nat i) = (Some (hs i), 1)"
    and "\<And>i fs. (i, fs) \<in> set reads \<Longrightarrow> i < seg_count (length payload)"
    and "\<And>i fs f. (i, fs) \<in> set reads \<Longrightarrow> f \<in> set fs \<Longrightarrow> frame_valid crc f \<and>
      ((\<forall>j < seg_count (length payload). fh_session_id (fr_header f) \<noteq> sn_session_id (ns_session (hs j))) \<or>
       (\<exists>j < seg_count (length payload). sent_frame rq crc (ns_session (hs j)) f))"
  defines "recv \<equiv> \<lambda>(i, fs). ingest_all rq ord (new_pending (sn_session_id (ns_session (hs i)))) fs :: 'd receiver"
  shows "case collect_segments cx (map recv reads) of
      None \<Rightarrow> \<forall>x \<in> set reads. assemble_raw (recv x) = None
    | Some a \<Rightarrow> (\<forall>grant. reassemble grant a \<in> {None, Some payload}) \<and>
        (reassemble (\<lambda>_. True) a = Some payload \<longleftrightarrow>
          (\<exists>name. \<forall>i < seg_count (length payload). fm_filename (di_file_meta (announced (ns_session (hs i)))) = name) \<and>
          (\<forall>i < seg_count (length payload). \<exists>fs. (i, fs) \<in> set reads \<and> assemble_raw (recv (i, fs)) \<noteq> None))"
proof -
  let ?N = "seg_count (length payload)"
  have new: "native_new rq cx payload filename modified redundancy symbol_size = Inr h"
    using assms(4) by (auto simp: cffi_sender_create_def split: if_splits sum.splits)
  have ok: "native_ok cx h" and p: "ns_payload h = payload" using native_new_ok [OF new assms(5)] by blast+
  have n: "0 < length payload" "length payload \<le> 268435456" using ok p by (auto simp: native_ok_def)
  have sess: "segment_session rq cx h i (ns_session (hs i))" if i: "i < ?N" for i
  proof -
    have u: "unat (of_nat i :: u32) = i" using i seg_count_native [OF n] by (simp add: unat_of_nat_len)
    from selected_session [OF assms(1,2,4,5) assms(7) [OF i]] show ?thesis unfolding u by blast
  qed
  have tr: "trusted rq crc (ns_session (hs i)) f" if m: "(i, fs) \<in> set reads" "f \<in> set fs" for i fs f
    using own_or_foreign [OF ok sess _ _ assms(9) [OF m, folded p]] assms(6,8) m(1) p by simp
  define nm where "nm i = fm_filename (di_file_meta (announced (ns_session (hs i))))" for i
  define xs where "xs = filter (\<lambda>x. assemble_raw (recv x) \<noteq> None) reads"
  have holds: "fst x < ?N \<and> holds_segment cx h (nm (fst x)) (fst x) (recv x)" if x: "x \<in> set xs" for x
  proof -
    obtain i fs where xe: "x = (i, fs)" by (cases x)
    then have m: "(i, fs) \<in> set reads" using x by (simp add: xs_def)
    then have i: "i < ?N" by (rule assms(8))
    note S = sess [OF i]
    have "watching rq (ns_session (hs i)) (log_run rq ord (new_pending (sn_session_id (ns_session (hs i)))) [] fs) (recv x)"
      unfolding recv_def xe prod.case
      by (rule watching_all [where crc = crc, OF assms(1) _ _ _ _ assms(3) watching_pending [OF refl] tr [OF m]])
        (use S in \<open>auto simp: segment_session_def sender_inv_def\<close>)
    moreover obtain raw where "assemble_raw (recv x) = Some raw" using x by (auto simp: xs_def)
    ultimately have "holds_segment cx h (nm i) i (recv x)"
      unfolding nm_def using watching_holds [OF assms(1) ok S] i p by blast
    with i show ?thesis by (simp add: xe)
  qed
  have col: "collect_segments cx (map recv reads) = collect_segments cx (map recv xs)"
    by (subst collect_complete) (simp add: xs_def filter_map comp_def)
  show ?thesis
  proof (cases "xs = []")
    case True
    then have "\<forall>x \<in> set reads. assemble_raw (recv x) = None" by (simp add: xs_def filter_empty_conv)
    with col True show ?thesis by (simp add: collect_segments_def)
  next
    case False
    let ?I = "fst ` {x \<in> set xs. nm (fst x) = nm (fst (hd xs))}"
    have "seg_count (length (ns_payload h)) \<noteq> 1" using assms(6) p by simp
    from collect_all [where ix = fst and nm = nm and recv = recv, OF ok this _ False] holds p obtain a where
      a: "collect_segments cx (map recv xs) = Some a" "collecting cx h (nm (fst (hd xs))) ?I a" by auto
    have sub: "?I \<subseteq> {..<?N}" using holds by auto
    have fetched: "(i \<in> fst ` set xs) \<longleftrightarrow> (\<exists>fs. (i, fs) \<in> set reads \<and> assemble_raw (recv (i, fs)) \<noteq> None)" for i
      by (force simp: xs_def)
    have "?I = {..<?N} \<longleftrightarrow> (\<exists>name. \<forall>i < ?N. nm i = name) \<and> (\<forall>i < ?N. i \<in> fst ` set xs)"
    proof
      assume I: "?I = {..<?N}"
      have "nm i = nm (fst (hd xs)) \<and> i \<in> fst ` set xs" if "i < ?N" for i
      proof -
        from that have "i \<in> ?I" unfolding I by simp
        then show ?thesis by auto
      qed
      then show "(\<exists>name. \<forall>i < ?N. nm i = name) \<and> (\<forall>i < ?N. i \<in> fst ` set xs)" by blast
    next
      assume A: "(\<exists>name. \<forall>i < ?N. nm i = name) \<and> (\<forall>i < ?N. i \<in> fst ` set xs)"
      then have "nm (fst x) = nm (fst (hd xs))" if "x \<in> set xs" for x
        using holds [OF that] holds [OF hd_in_set [OF False]] by metis
      then have I: "{x \<in> set xs. nm (fst x) = nm (fst (hd xs))} = set xs" by blast
      have "{..<?N} \<subseteq> fst ` set xs" using A by blast
      with sub show "?I = {..<?N}" unfolding I by (rule subset_antisym)
    qed
    with collecting_result [OF ok a(2)] sub show ?thesis
      unfolding col a(1) by (simp add: p fetched nm_def)
  qed
qed

end
