(* ===== verification/Large_Demo.thy ===== *)
theory Large_Demo
  imports Large_Channel Sender_Demo
begin

text \<open>
  A file of two segments over the reference codec, in symbols of 65528 bytes: the witness of the
  large transfer.  Nothing of that size is evaluated; the sessions are built by lemmas.
\<close>

definition big_config :: sender_config where
  "big_config = \<lparr>sc_codec = \<lparr>cfg_symbol_size = 65528\<rparr>, sc_redundancy_pct = 25\<rparr>"

lemma big_codec: "config_new 65528 = Inr (sc_codec big_config)"
  by (simp add: config_new_def big_config_def MIN_SYMBOL_SIZE_def MAX_SYMBOL_SIZE_def)

lemma big_valid: "sender_config_validate big_config = Inr ()"
  by (simp add: sender_config_validate_def big_config_def)

lemma big_mtu: "config_mtu (sc_codec big_config) = Inr 65532"
  by (simp add: config_mtu_def big_config_def PAYLOAD_ID_SIZE_def checked_add_def try_from_def)

text \<open>Up to 32 MiB fit one block of the reference codec.\<close>

lemma big_encoder:
  assumes "data \<noteq> []" "length data \<le> 33554432"
  shows "\<exists>enc. encoder_new ref_rq data (sc_codec big_config) = Inr enc \<and> length (m_blocks (enc_meta enc)) \<le> 1 \<and>
    m_symbol_size (enc_meta enc) = 65528 \<and>
    (31387912 < length data \<longrightarrow> oti_sub_blocks (meta_oti ref_rq (enc_meta enc)) = 4)"
  using wide_encoder [OF assms] by (simp add: big_config_def)

lemma big_session:
  assumes "data \<noteq> []" "length data \<le> seg_bytes"
  shows "\<exists>s. sender_new_inner ref_rq data sid big_config fm seg = Inr s \<and>
    length (m_blocks (sn_meta s)) \<le> 1 \<and> m_symbol_size (sn_meta s) = 65528 \<and>
    (31387912 < length data \<longrightarrow> oti_sub_blocks (meta_oti ref_rq (sn_meta s)) = 4)"
proof -
  let ?p = "pad_to_symbols data (sc_codec big_config)"
  have "length ?p \<le> 33554432" "?p \<noteq> []"
    using pad_to_symbols_minimal [OF big_codec, of data] length_pad_ge [of data "sc_codec big_config"] assms
    by (auto simp: seg_bytes_def)
  then obtain enc where enc: "encoder_new ref_rq ?p (sc_codec big_config) = Inr enc"
    "length (m_blocks (enc_meta enc)) \<le> 1" "m_symbol_size (enc_meta enc) = 65528"
    "31387912 < length ?p \<longrightarrow> oti_sub_blocks (meta_oti ref_rq (enc_meta enc)) = 4"
    using big_encoder by blast
  have "\<not> unat (m_symbol_size (enc_meta enc)) < desc_fixed_len (enc_meta enc) seg"
    using enc(2,3) by (cases seg) (simp_all add: desc_fixed_len_def)
  then obtain p where "build_payload_inner (enc_meta enc) fm seg = Inr p"
    using build_payload_fails [of "enc_meta enc" fm seg] by (cases "build_payload_inner (enc_meta enc) fm seg") auto
  with enc length_pad_ge [of data "sc_codec big_config"] show ?thesis
    by (simp add: sender_new_inner_def big_valid Let_def)
qed

lemma big_segment:
  assumes ok: "native_ok demo_codecs h" and cfg: "ns_config h = big_config"
    and i: "unat index < seg_count (length (ns_payload h))"
  shows "\<exists>s. build_session ref_rq demo_codecs (ns_payload h) (ns_filename h) (ns_config h) (ns_root_session_id h)
      (ns_crc32 h) (ns_root_sha256 h) (ns_segment_count h) index = Inr s \<and>
    length (m_blocks (sn_meta s)) \<le> 1 \<and> m_symbol_size (sn_meta s) = 65528 \<and>
    (31387912 < length (segment_data (ns_payload h) (unat index)) \<longrightarrow> oti_sub_blocks (meta_oti ref_rq (sn_meta s)) = 4)"
proof -
  let ?i = "unat index" and ?d = "segment_data (ns_payload h) (unat index)"
  have n: "0 < length (ns_payload h)" "length (ns_payload h) \<le> 268435456" using ok by (auto simp: native_ok_def)
  note D = segment_data_length [OF n(1) i]
  then have "?d \<noteq> []" by auto
  note B = big_session [OF this D(2), of "segment_session_id h ?i" "segment_file h ?i"]
  show ?thesis
  proof (cases "segment_info demo_codecs h ?i")
    case None
    with B [of None] show ?thesis unfolding build_session_iff [OF ok i] by (simp add: sender_new_def cfg)
  next
    case (Some seg)
    then have many: "seg_count (length (ns_payload h)) \<noteq> 1" by (auto simp: segment_info_def split: if_splits)
    note R = segment_range_ok [OF ok i Some] and F = segment_info_fields [OF Some]
    have "segment_ok seg (segment_session_id h ?i) (segment_file h ?i)"
      using R(1) [of "fm_filename (segment_file h ?i)"] R(2-4) F many D
      by (simp add: segment_ok_def range_ok_def Let_def segment_session_id_def)
        (simp add: segment_file_def native_file_meta_def)
    then have v: "segment_validate seg (segment_session_id h ?i) (segment_file h ?i) = Inr ()"
      by (simp add: segment_validate_ok)
    have "fm_compressed_size (segment_file h ?i) = of_nat (length ?d)" "fm_compressed_size_known (segment_file h ?i)"
      by (simp_all add: segment_file_def native_file_meta_def)
    with v Some B [of "Some seg"] show ?thesis
      unfolding build_session_iff [OF ok i] by (simp add: sender_new_segment_def cfg)
  qed
qed

lemma big_create:
  assumes "p \<noteq> []" "length p \<le> 268435456" "name \<noteq> []" "utf8_valid name"
  shows "\<exists>h. cffi_sender_create ref_rq demo_codecs (Some p) (Some name) modified 25 65528 = Some h \<and>
    ns_config h = big_config"
proof -
  let ?n = "of_nat (length p) :: u64"
  let ?root = "derive name ?n modified
    (content_fingerprint (take (min (length p) 1024) p) (drop (length p - 1024) p))"
  let ?c = "of_nat (seg_count (length p)) :: u32"
  define h0 :: "ref_enc native_sender" where "h0 = \<lparr>ns_payload = p, ns_filename = name, ns_config = big_config,
    ns_root_session_id = ?root, ns_crc32 = crc32_of demo_codecs p, ns_root_sha256 = sha256_of demo_codecs p,
    ns_segment_count = ?c, ns_segment_index = 0, ns_session = undefined\<rparr>"
  have n: "0 < length p" using assms(1) by simp
  have cnt: "seg_count (length p) \<le> 9" "0 < seg_count (length p)"
    using seg_count_native [OF n assms(2)] by (simp_all add: seg_count_def)
  then have c: "unat ?c = seg_count (length p)" by (simp add: unat_of_nat_len)
  have l: "unat ?n = length p" using assms(2) by (simp add: unat_of_nat_len)
  have ok: "native_ok demo_codecs h0"
    using n assms(2) c cnt big_codec big_valid by (auto simp: native_ok_def h0_def)
  have "unat (0 :: u32) < seg_count (length (ns_payload h0))" using cnt by (simp add: h0_def)
  from big_segment [OF ok _ this] obtain s where s: "build_session ref_rq demo_codecs p name big_config ?root
      (crc32_of demo_codecs p) (sha256_of demo_codecs p) ?c 0 = Inr s" by (auto simp: h0_def)
  define q :: u64 where "q = of_nat (seg_count (length p))"
  have q: "unat q = seg_count (length p)" using cnt unfolding q_def by (intro unat_of_nat_len) simp
  have "SEGMENT_RAW_BYTES \<noteq> 0" by (simp add: SEGMENT_RAW_BYTES_def MAX_OBJECT_BYTES_def MAX_SYMBOL_SIZE_def)
  then have "Option.bind (checked_div (saturating_sub ?n 1) SEGMENT_RAW_BYTES) (\<lambda>n. checked_add n 1) = Some q"
    by (auto simp: bind_eq_Some_conv checked_simps q l seg_count_def seg_bytes_def [symmetric] checked_div_def
        unat_div)
  moreover have "try_from q = Some ?c" by (simp add: try_from_Some q c)
  moreover have "\<not> MAX_ORIGINAL_BYTES < ?n"
    using assms(2) by (simp add: MAX_ORIGINAL_BYTES_def word_less_nat_alt l)
  ultimately have "native_new ref_rq demo_codecs p name modified 25 65528 = Inr (h0\<lparr>ns_session := s\<rparr>)"
    using assms(1) big_codec big_valid s by (simp add: native_new_def Let_def big_config_def h0_def)
  with assms show ?thesis
    by (intro exI [of _ "h0\<lparr>ns_session := s\<rparr>"]) (simp add: cffi_sender_create_def h0_def)
qed

text \<open>One byte more than a full segment.\<close>

definition big_payload :: bytes where "big_payload = replicate 33488905 1"

lemma big_payload_length [simp]: "length big_payload = 33488905"
  by (simp only: big_payload_def length_replicate)

lemma big_payload_segments: "seg_count (length big_payload) = 2"
  by (simp add: seg_count_def seg_bytes_def)

lemma big_count: "sum_symbols (m_blocks (sn_meta s)) \<le> 524288 \<Longrightarrow>
    sum_symbols (m_blocks (sn_meta s)) \<le> 600000 - descriptors_before 600000"
  by (simp add: descriptors_before_def)

text \<open>Selecting a segment, and what its session announces.\<close>

lemma big_select:
  assumes ok: "native_ok demo_codecs h" and cfg: "ns_config h = big_config" and i: "i < seg_count (length (ns_payload h))"
  shows "\<exists>x. cffi_select_segment ref_rq demo_codecs (Some h) (of_nat i) = (Some x, 1) \<and>
    build_session ref_rq demo_codecs (ns_payload h) (ns_filename h) (ns_config h) (ns_root_session_id h)
      (ns_crc32 h) (ns_root_sha256 h) (ns_segment_count h) (of_nat i) = Inr (ns_session x) \<and>
    length (m_blocks (sn_meta (ns_session x))) \<le> 1 \<and> m_symbol_size (sn_meta (ns_session x)) = 65528 \<and>
    (31387912 < length (segment_data (ns_payload h) i) \<longrightarrow> oti_sub_blocks (meta_oti ref_rq (sn_meta (ns_session x))) = 4)"
proof -
  have c: "unat (ns_segment_count h) = seg_count (length (ns_payload h))" "seg_count (length (ns_payload h)) \<le> 9"
    using ok seg_count_native by (auto simp: native_ok_def)
  have u: "unat (of_nat i :: u32) = i" using i c(2) by (intro unat_of_nat_len) simp
  with i have "unat (of_nat i :: u32) < seg_count (length (ns_payload h))" by simp
  from big_segment [OF ok cfg this] obtain s where
    s: "build_session ref_rq demo_codecs (ns_payload h) (ns_filename h) (ns_config h) (ns_root_session_id h)
      (ns_crc32 h) (ns_root_sha256 h) (ns_segment_count h) (of_nat i) = Inr s"
    "length (m_blocks (sn_meta s)) \<le> 1" "m_symbol_size (sn_meta s) = 65528"
    "31387912 < length (segment_data (ns_payload h) i) \<longrightarrow> oti_sub_blocks (meta_oti ref_rq (sn_meta s)) = 4"
    unfolding u by blast
  have "\<not> ns_segment_count h \<le> of_nat i" using i u c by (simp add: word_le_nat_alt)
  with s show ?thesis
    by (intro exI [of _ "h\<lparr>ns_segment_index := of_nat i, ns_session := s\<rparr>"])
      (simp add: cffi_select_segment_def native_select_def)
qed

lemma big_name:
  assumes "segment_session ref_rq demo_codecs h i s" "ns_filename h = [97]"
    and "length (m_blocks (sn_meta s)) \<le> 1" "m_symbol_size (sn_meta s) = 65528"
  shows "fm_filename (di_file_meta (announced s)) = [97]"
proof -
  have fm: "fm_filename (sn_file_meta s) = [97]"
    using assms(1,2) by (simp add: segment_session_def segment_file_def native_file_meta_def)
  have "desc_fixed_len (sn_meta s) (sn_segment_meta s) + 1 \<le> unat (m_symbol_size (sn_meta s))"
    using assms(3,4) by (cases "sn_segment_meta s") (simp_all add: desc_fixed_len_def)
  then have "1 \<le> filename_len (sn_meta s) (sn_file_meta s) (sn_segment_meta s)"
    using fm by (intro filename_len_greatest) (simp_all add: is_char_boundary_def)
  then show ?thesis using fm by (simp add: announced_def sent_file_meta_def)
qed

lemma demo_sha: "length (sha256_of demo_codecs x) = 32"
  by (simp add: demo_codecs_def)

lemma letter_name: "[97 :: u8] \<noteq> []" "utf8_valid [97]"
  by (simp_all add: utf8_valid.simps scalar_len_def)

text \<open>The native sender of the big payload, with its two segments selected.\<close>

lemma big_file:
  obtains h hs where
    "cffi_sender_create ref_rq demo_codecs (Some big_payload) (Some [97]) 0 25 65528 = Some h"
    "length big_payload < 2 ^ 64"
    "\<And>i. i < 2 \<Longrightarrow> cffi_select_segment ref_rq demo_codecs (Some h) (of_nat i) = (Some (hs i), 1)"
    "\<And>i. i < 2 \<Longrightarrow> segment_session ref_rq demo_codecs h i (ns_session (hs i))"
    "\<And>i. i < 2 \<Longrightarrow> sum_symbols (m_blocks (sn_meta (ns_session (hs i)))) \<le> 600000 - descriptors_before 600000"
    "\<And>i. i < 2 \<Longrightarrow> fm_filename (di_file_meta (announced (ns_session (hs i)))) = [97]"
    "oti_sub_blocks (meta_oti ref_rq (sn_meta (ns_session (hs 0)))) = 4"
proof -
  have pl: "big_payload \<noteq> []" "length big_payload \<le> 268435456" "length big_payload < 2 ^ 64"
    by (simp_all flip: length_greater_0_conv)
  obtain h where h: "cffi_sender_create ref_rq demo_codecs (Some big_payload) (Some [97]) 0 25 65528 = Some h"
    "ns_config h = big_config"
    using big_create [OF pl(1,2) letter_name] by blast
  then have "native_new ref_rq demo_codecs big_payload [97] 0 25 65528 = Inr h"
    by (auto simp: cffi_sender_create_def split: if_splits sum.splits)
  from native_new_ok [OF this pl(3)] have ok: "native_ok demo_codecs h" and p: "ns_payload h = big_payload"
    and f: "ns_filename h = [97]" by auto
  have "i < 2 \<Longrightarrow> i < seg_count (length (ns_payload h))" for i using p big_payload_segments by simp
  with big_select [OF ok h(2)] obtain hs where hs: "\<And>i. i < 2 \<Longrightarrow>
      cffi_select_segment ref_rq demo_codecs (Some h) (of_nat i) = (Some (hs i), 1) \<and>
      build_session ref_rq demo_codecs (ns_payload h) (ns_filename h) (ns_config h) (ns_root_session_id h)
        (ns_crc32 h) (ns_root_sha256 h) (ns_segment_count h) (of_nat i) = Inr (ns_session (hs i)) \<and>
      length (m_blocks (sn_meta (ns_session (hs i)))) \<le> 1 \<and> m_symbol_size (sn_meta (ns_session (hs i))) = 65528 \<and>
      (31387912 < length (segment_data (ns_payload h) i) \<longrightarrow> oti_sub_blocks (meta_oti ref_rq (sn_meta (ns_session (hs i)))) = 4)"
    by metis
  have sess: "segment_session ref_rq demo_codecs h i (ns_session (hs i))" if i: "i < 2" for i
  proof -
    have u: "unat (of_nat i :: u32) = i" using i by (intro unat_of_nat_len) simp
    then show ?thesis
      using build_segment_session [OF ref_upstream ok demo_sha, of "of_nat i" "ns_session (hs i)"] hs [OF i] i p f
        letter_name big_payload_segments by simp
  qed
  have cnt: "sum_symbols (m_blocks (sn_meta (ns_session (hs i)))) \<le> 600000 - descriptors_before 600000" if "i < 2" for i
  proof -
    have "sum_symbols (m_blocks (sn_meta (ns_session (hs i)))) \<le> 524288"
      using sess [OF that] unfolding segment_session_def sender_inv_def sender_static_def meta_ok_def by blast
    then show ?thesis by (rule big_count)
  qed
  have name: "fm_filename (di_file_meta (announced (ns_session (hs i)))) = [97]" if "i < 2" for i
    using big_name [OF sess [OF that] f] hs [OF that] by blast
  have "length (segment_data (ns_payload h) 0) = seg_bytes"
    using segment_data_length(3) [of big_payload 0] by (simp add: p seg_count_def seg_len_def seg_bytes_def)
  then have four: "oti_sub_blocks (meta_oti ref_rq (sn_meta (ns_session (hs 0)))) = 4"
    using hs [of 0] by (simp add: seg_bytes_def)
  show thesis by (rule that [OF h(1) pl(3) _ sess cnt name four]) (use hs in blast)
qed

lemma large_transfer_witness:
  "\<exists>(h :: ref_enc native_sender) h0 fs rx0 rx1 a.
     cffi_sender_create ref_rq demo_codecs (Some big_payload) (Some [97]) 0 25 65528 = Some h \<and>
     cffi_select_segment ref_rq demo_codecs (Some h) 0 = (Some h0, 1) \<and>
     oti_sub_blocks (meta_oti ref_rq (sn_meta (ns_session h0))) = 4 \<and>
     rx0 = ingest_all ref_rq (\<lambda>c. c) (from_first_frame (hd (fs 0))) (received_frames (\<lambda>_. 5) (map frame_to_bytes (fs (0::nat)))) \<and>
     rx1 = ingest_all ref_rq (\<lambda>c. c) (from_first_frame (hd (fs 1))) (received_frames (\<lambda>_. 5) (map frame_to_bytes (fs 1))) \<and>
     collect_segments demo_codecs [rx1, rx0, rx1] = Some a \<and> reassemble (\<lambda>_. True) a = Some big_payload"
proof -
  obtain h hs where h: "cffi_sender_create ref_rq demo_codecs (Some big_payload) (Some [97]) 0 25 65528 = Some h"
    "length big_payload < 2 ^ 64"
    and hs: "\<And>i. i < 2 \<Longrightarrow> cffi_select_segment ref_rq demo_codecs (Some h) (of_nat i) = (Some (hs i), 1)"
    and cnt: "\<And>i. i < 2 \<Longrightarrow> sum_symbols (m_blocks (sn_meta (ns_session (hs i)))) \<le> 600000 - descriptors_before 600000"
    and name: "\<And>i. i < 2 \<Longrightarrow> fm_filename (di_file_meta (announced (ns_session (hs i)))) = [97]"
    and four: "oti_sub_blocks (meta_oti ref_rq (sn_meta (ns_session (hs 0)))) = 4"
    by (rule big_file) blast
  obtain ss rs where e: "\<And>i. emit_n ref_rq (\<lambda>_. 5) (\<lambda>_. (1, 2, 3)) 600000 (ns_session (hs i)) = (ss i, rs i)"
    using that [of "\<lambda>i. fst (emit_n ref_rq (\<lambda>_. 5) (\<lambda>_. (1, 2, 3)) 600000 (ns_session (hs i)))"
        "\<lambda>i. snd (emit_n ref_rq (\<lambda>_. 5) (\<lambda>_. (1, 2, 3)) 600000 (ns_session (hs i)))"] by simp
  have sel: "cffi_select_segment ref_rq demo_codecs (Some h) (of_nat i) = (Some (hs i), 1)"
    if "i < seg_count (length big_payload)" for i using hs [of i] that unfolding big_payload_segments by blast
  have cnt': "(600000 :: nat) \<le> 16720813 \<and> sum_symbols (m_blocks (sn_meta (ns_session (hs i)))) \<le>
      600000 - descriptors_before 600000" if "i < 2" for i using cnt [OF that] by simp
  obtain fs where
    *: "\<forall>ids. seg_count (length big_payload) \<noteq> 1 \<and> set ids = {..<seg_count (length big_payload)} \<longrightarrow>
        (\<exists>a. collect_segments demo_codecs (map (\<lambda>i. ingest_all ref_rq (\<lambda>c. c) (from_first_frame (hd (fs i)))
            (received_frames (\<lambda>_. 5) (map frame_to_bytes (fs i)))) ids) = Some a \<and>
          reassemble (\<lambda>_. True) a = (if \<exists>name. \<forall>i < seg_count (length big_payload).
            fm_filename (di_file_meta (announced (ns_session (hs i)))) = name then Some big_payload else None))"
    using large_transfer [OF ref_upstream demo_sha refl h sel _ e] cnt'
    unfolding Let_def big_payload_segments by blast
  have one: "\<exists>name. \<forall>i < seg_count (length big_payload). fm_filename (di_file_meta (announced (ns_session (hs i)))) = name"
    unfolding big_payload_segments using name by auto
  have "seg_count (length big_payload) \<noteq> 1 \<and> set [1, 0, 1] = {..<seg_count (length big_payload)}"
    unfolding big_payload_segments by auto
  with * [unfolded if_P [OF one]] have "\<exists>a. collect_segments demo_codecs (map (\<lambda>i. ingest_all ref_rq (\<lambda>c. c) (from_first_frame (hd (fs i)))
            (received_frames (\<lambda>_. 5) (map frame_to_bytes (fs i)))) [1, 0, 1]) = Some a \<and>
          reassemble (\<lambda>_. True) a = Some big_payload" by blast
  with h(1) hs [of 0] four show ?thesis by (intro exI [of _ h] exI [of _ "hs 0"]) auto
qed

text \<open>Two receivers, each with the frames of one segment, the second segment first.\<close>

lemma big_frames:
  assumes "segment_session ref_rq demo_codecs h i s"
    and "sum_symbols (m_blocks (sn_meta s)) \<le> 600000 - descriptors_before 600000"
  obtains fs where "\<And>f. f \<in> set fs \<Longrightarrow> sent_frame ref_rq (\<lambda>_. 5) s f"
    "assemble_raw (ingest_all ref_rq (\<lambda>c. c) (new_pending (sn_session_id s)) fs) \<noteq> None"
proof -
  let ?p = "pad_to_symbols (segment_data (ns_payload h) i) (sc_codec (ns_config h))"
  have F: "sender_inv ref_rq ?p s" "digests_ok s" "length ?p \<le> 33554432" "announce_ok s"
    "position_of s = 0" "sn_frame_index s = 0" "sn_descriptor_interval s = 17"
    using assms(1) by (auto simp: segment_session_def)
  obtain s' rs where e: "emit_n ref_rq (\<lambda>_. 5) (\<lambda>_. (1, 2, 3)) 600000 s = (s', rs)"
    by (cases "emit_n ref_rq (\<lambda>_. 5) (\<lambda>_. (1, 2, 3)) 600000 s")
  have n: "(600000 :: nat) \<le> 16720813" by simp
  obtain fs where fs: "\<And>f. f \<in> set fs \<Longrightarrow> sent_frame ref_rq (\<lambda>_. 5) s f"
    "assemble_raw (ingest_all ref_rq (\<lambda>c. c) (new_pending (sn_session_id s)) fs) = Some ?p"
    using session_lossless [OF ref_upstream F refl n assms(2) e] by metis
  show thesis by (rule that [of fs]) (use fs in simp_all)
qed

lemma large_never_wrong_witness:
  "\<exists>(h :: ref_enc native_sender) reads (recv :: nat \<times> frame list \<Rightarrow> ref_dec receiver) a.
     cffi_sender_create ref_rq demo_codecs (Some big_payload) (Some [97]) 0 25 65528 = Some h \<and>
     map fst reads = [1, 0] \<and> collect_segments demo_codecs (map recv reads) = Some a \<and>
     reassemble (\<lambda>_. True) a = Some big_payload"
proof -
  obtain h hs where h: "cffi_sender_create ref_rq demo_codecs (Some big_payload) (Some [97]) 0 25 65528 = Some h"
    "length big_payload < 2 ^ 64"
    and hs: "\<And>i. i < 2 \<Longrightarrow> cffi_select_segment ref_rq demo_codecs (Some h) (of_nat i) = (Some (hs i), 1)"
    and sess: "\<And>i. i < 2 \<Longrightarrow> segment_session ref_rq demo_codecs h i (ns_session (hs i))"
    and cnt: "\<And>i. i < 2 \<Longrightarrow> sum_symbols (m_blocks (sn_meta (ns_session (hs i)))) \<le> 600000 - descriptors_before 600000"
    and name: "\<And>i. i < 2 \<Longrightarrow> fm_filename (di_file_meta (announced (ns_session (hs i)))) = [97]"
    and four: "oti_sub_blocks (meta_oti ref_rq (sn_meta (ns_session (hs 0)))) = 4"
    by (rule big_file) blast
  have "\<exists>fs. (\<forall>f \<in> set fs. sent_frame ref_rq (\<lambda>_. 5) (ns_session (hs i)) f) \<and>
      assemble_raw (ingest_all ref_rq (\<lambda>c. c) (new_pending (sn_session_id (ns_session (hs i)))) fs) \<noteq> None" if "i < 2" for i
    using big_frames [OF sess [OF that] cnt [OF that]] by metis
  then obtain fs where fs: "\<And>i f. i < 2 \<Longrightarrow> f \<in> set (fs i) \<Longrightarrow> sent_frame ref_rq (\<lambda>_. 5) (ns_session (hs i)) f"
    "\<And>i. i < 2 \<Longrightarrow> assemble_raw (ingest_all ref_rq (\<lambda>c. c) (new_pending (sn_session_id (ns_session (hs i)))) (fs i)) \<noteq> None"
    by metis
  define recv :: "nat \<times> frame list \<Rightarrow> ref_dec receiver"
    where "recv = (\<lambda>(i, fs). ingest_all ref_rq (\<lambda>c. c) (new_pending (sn_session_id (ns_session (hs i)))) fs)"
  let ?reads = "[(1 :: nat, fs 1), (0, fs 0)]"
  have N: "seg_count (length big_payload) = 2" by (rule big_payload_segments)
  have many: "seg_count (length big_payload) \<noteq> 1" unfolding N by simp
  have sel: "cffi_select_segment ref_rq demo_codecs (Some h) (of_nat i) = (Some (hs i), 1)"
    if "i < seg_count (length big_payload)" for i using hs that unfolding N by blast
  have idx: "i < seg_count (length big_payload)" if "(i, gs) \<in> set ?reads" for i gs
    using that unfolding N by auto
  have tr: "frame_valid (\<lambda>_. 5) f \<and>
      ((\<forall>j < seg_count (length big_payload). fh_session_id (fr_header f) \<noteq> sn_session_id (ns_session (hs j))) \<or>
       (\<exists>j < seg_count (length big_payload). sent_frame ref_rq (\<lambda>_. 5) (ns_session (hs j)) f))"
    if m: "(i, gs) \<in> set ?reads" "f \<in> set gs" for i :: nat and gs f
  proof -
    have "i < 2" "gs = fs i" using m(1) by auto
    then have "sent_frame ref_rq (\<lambda>_. 5) (ns_session (hs i)) f" using fs(1) m(2) by simp
    moreover from this have "frame_valid (\<lambda>_. 5) f" by (simp add: sent_frame_def)
    ultimately show ?thesis using \<open>i < 2\<close> unfolding N by blast
  qed
  note L = large_never_wrong [where reads = ?reads and ord = "\<lambda>c. c", OF ref_upstream demo_sha refl h many sel idx tr,
      folded recv_def, unfolded N]
  have "assemble_raw (recv (1, fs 1)) \<noteq> None" "assemble_raw (recv (0, fs 0)) \<noteq> None"
    using fs(2) [of 1] fs(2) [of 0] by (simp_all add: recv_def)
  moreover from this have "\<forall>i < 2. \<exists>gs. (i, gs) \<in> set ?reads \<and> assemble_raw (recv (i, gs)) \<noteq> None"
    by (auto simp: numeral_2_eq_2 less_Suc_eq)
  moreover have "\<exists>name. \<forall>i < 2. fm_filename (di_file_meta (announced (ns_session (hs i)))) = name" using name by blast
  ultimately obtain a where "collect_segments demo_codecs (map recv ?reads) = Some a"
    "reassemble (\<lambda>_. True) a = Some big_payload"
    using L by (cases "collect_segments demo_codecs (map recv ?reads)") auto
  with h(1) show ?thesis by (intro exI [of _ h] exI [of _ ?reads] exI [of _ recv] exI [of _ a]) simp
qed

end
