(* ===== verification/Cffi_Demo.thy ===== *)
theory Cffi_Demo
  imports Cffi_Props Large_Demo
begin

text \<open>The witnesses of the C interface's promises.\<close>

lemma native_frames_exact_witness:
  "\<exists>(h :: ref_enc native_sender) h1 out n. native_reach ref_rq demo_codecs h \<and>
     cffi_next_frame ref_rq demo_codecs (1, 2, 3) (Some h) (Some (replicate 65593 7)) = (h1, Some out, n) \<and>
     n = 65592 \<and> length out = 65593 \<and> (\<exists>f. take n out = frame_to_bytes f) \<and> drop n out = [7]"
proof -
  note nm = letter_name
  obtain h where h: "cffi_sender_create ref_rq demo_codecs (Some [1, 2, 3]) (Some [97]) 0 25 65528 = Some h"
    "ns_config h = big_config"
    using big_create [of "[1, 2, 3]" "[97]"] nm by auto
  have "length [1 :: u8, 2, 3] < 2 ^ 64" by simp
  with h(1) have reach: "native_reach ref_rq demo_codecs h" by (rule native_created)
  note sha = demo_sha
  have cap: "cffi_frame_capacity (Some h) = 65592"
    by (simp add: cffi_frame_capacity_def h(2) big_config_def wire_size_def FRAME_HEADER_SIZE_def FRAME_FOOTER_SIZE_def)
  note L = native_live_session [OF native_reach_live [OF reach ref_upstream sha]]
  have "native_new ref_rq demo_codecs [1, 2, 3] [97] 0 25 65528 = Inr h"
    using h(1) by (auto simp: cffi_sender_create_def split: if_splits sum.splits)
  from native_new_ok [OF this] have ok: "native_ok demo_codecs h" and f: "ns_filename h = [97]" and ix: "ns_segment_index h = 0"
    and b: "build_session ref_rq demo_codecs (ns_payload h) (ns_filename h) (ns_config h) (ns_root_session_id h)
      (ns_crc32 h) (ns_root_sha256 h) (ns_segment_count h) 0 = Inr (ns_session h)" by auto
  have "unat (0 :: u32) < seg_count (length (ns_payload h))" by (simp add: seg_count_def)
  from build_segment_session [OF ref_upstream ok sha _ this b] f nm
  have pos: "position_of (ns_session h) = 0" by (simp add: segment_session_def)
  have id: "id_at (sn_meta (ns_session h)) (position_of (ns_session h)) \<noteq> None"
    using sender_inv_plan [OF L(1)] by (intro id_at_defined) (auto simp: pos)
  obtain h1 o1 n where e: "cffi_next_frame ref_rq demo_codecs (1, 2, 3) (Some h) (Some (replicate 65593 7)) = (h1, o1, n)"
    by (metis prod_cases3)
  have "\<not> length (replicate 65593 (7 :: u8)) < cffi_frame_capacity (Some h)" unfolding cap length_replicate by simp
  with native_frames_exact [OF ref_upstream sha reach e] id obtain f out where
    f: "n = 65592" "o1 = Some out" "length out = length (replicate 65593 (7 :: u8))" "take n out = frame_to_bytes f"
      "drop n out = drop n (replicate 65593 7)" unfolding cap by auto
  have "drop n out = replicate (65593 - n) 7" unfolding f(5) drop_replicate ..
  then have "drop n out = [7]" by (simp add: f(1))
  with reach e f show ?thesis unfolding length_replicate by blast
qed

text \<open>A frame of session 7 under the checksum of the demonstration codecs.\<close>

definition status_frame :: frame where
  "status_frame = frame_build (crc32_of demo_codecs) 7 0 0 0 1 1 64 1 0 demo_packet"

lemma native_ingest_exact_witness:
  "\<exists>h' w. cffi_ingest ref_rq demo_codecs (\<lambda>c. c) (Some (new_pending 7)) (Some (frame_to_bytes status_frame)) = (h', w) \<and>
     w \<noteq> INGEST_ERROR \<and> \<not> status_complete w \<and> status_received w = 1"
proof -
  have p: "frame_from_bytes (crc32_of demo_codecs) (frame_to_bytes status_frame) = Inr status_frame"
    by (intro from_to_bytes) (simp add: status_frame_def frame_build_valid)
  obtain h' w where e: "cffi_ingest ref_rq demo_codecs (\<lambda>c. c) (Some (new_pending 7)) (Some (frame_to_bytes status_frame)) = (h', w)"
    by fastforce
  let ?s = "fst (ingest ref_rq (\<lambda>c. c) status_frame (new_pending 7))"
  have "\<not> receiver_is_complete ?s" "pg_received_symbols (rx_progress ?s) = 1"
    by (simp_all add: ingest_def status_frame_def frame_build_def new_pending_def receiver_build_def begin_frame_def
        ingest_pending_def pre_meta_cache_max_def receiver_is_complete_def PRE_META_CACHE_BYTES_BUDGET_def
        MAX_OBJECT_BYTES_def PRE_META_CACHE_BYTES_PER_ENTRY_def Let_def)
  with native_ingest_exact [OF reach_pending refl e] p e show ?thesis by simp
qed

lemma native_stream_verified_witness:
  "\<exists>file. cffi_decompress_stream_to_file demo_codecs (\<lambda>_ _. demo_io) (Some [97]) (Some [98]) 2 4 4 4 True
      (Some (replicate 64 48)) None = (1, Some file) \<and> length file = 4 \<and> crc32_of demo_codecs file = 4"
proof -
  have d: "decompress_stream_to_file demo_codecs demo_io None 2 4 =
      (Inr \<lparr>so_output_size = 4, so_crc32 = 4, so_sha256 = replicate 32 0\<rparr>, Some [5, 6, 5, 6])"
    by (simp add: decompress_stream_to_file_def demo_io_def demo_codecs_def decode_into_def
        COMPRESSION_ZSTD_def COMPRESSION_XZ_def saturating_add_def Let_def)
  have "utf8_valid (replicate n (48 :: u8))" for n
    by (induction n) (simp_all add: utf8_valid.simps scalar_len_def)
  then have z: "utf8_lossy (replicate 64 48) = replicate 64 48" by (rule utf8_lossy_valid)
  have lc: "map ascii_lower (replicate 64 48) = replicate 64 48" by (simp add: ascii_lower_def map_replicate)
  have "hex_string (replicate n 0) = replicate (n + n) 48" for n
    by (induction n) (simp_all add: hex_string_def hex_lower_def)
  from this [of 32] have hx: "hex_string (replicate 32 0) = replicate 64 48" by simp
  have c: "cffi_decompress_stream_to_file demo_codecs (\<lambda>_ _. demo_io) (Some [97]) (Some [98]) 2 4 4 4 True
      (Some (replicate 64 48)) None = (1, Some [5, 6, 5, 6])"
    by (simp add: cffi_decompress_stream_to_file_def d z hx eq_ignore_ascii_case_def lc Let_def)
  from native_stream_verified [OF c] have "verified_output demo_codecs 4 4 True (replicate 64 48) [5, 6, 5, 6]"
    by (auto simp: Let_def)
  with c show ?thesis by (simp add: verified_output_def)
qed

end
