(* ===== verification/Browser.thy ===== *)
theory Browser
  imports Sender Receiver Cffi Qr_Render
begin

text \<open>
  The browser interface, \<open>core/transfer-engine/src/wasm.rs\<close>: sessions whose errors become
  JavaScript values, and three ways to hand rendered codes to the page (a fresh buffer, a buffer of
  the caller, the scratch memory owned by the session).  The QR generator is the parameter
  \<open>build\<close> of \<open>Qr_Render\<close>; the clock readings of a call are its argument, one triple for
  each frame it emits.  The texts are in \<open>Progress_Text\<close>; the panic hook and warnings on the console are left out.
\<close>

section \<open>Errors and hashing\<close>

text \<open>A \<open>JsValue\<close> made of a message: what the message displays.\<close>

datatype js_error =
  Js_codec rq_error
| Js_engine te_error
| Js_qr qr_error
| Js_text string
| Js_modules_too_small nat nat
| Js_buffer_overflow u32 nat nat nat

text \<open>The incremental hasher of the \<open>sha2\<close> crate, with a hidden state.\<close>

record 'h sha2 =
  sha2_new :: 'h
  sha2_update :: "'h \<Rightarrow> bytes \<Rightarrow> 'h"
  sha2_finalize :: "'h \<Rightarrow> bytes"

definition sha256_wasm_new :: "'h sha2 \<Rightarrow> 'h" where
  "sha256_wasm_new sh = sha2_new sh"

definition sha256_wasm_update :: "'h sha2 \<Rightarrow> 'h \<Rightarrow> bytes \<Rightarrow> 'h" where
  "sha256_wasm_update sh inner bs = sha2_update sh inner bs"

definition sha256_wasm_digest :: "'h sha2 \<Rightarrow> 'h \<Rightarrow> bytes" where
  "sha256_wasm_digest sh inner = sha2_finalize sh inner"

section \<open>The sender session\<close>

record 'e wasm_sender =
  ws_inner :: "'e sender"
  ws_qr_scratch :: bytes

definition MAX_QR_SIDE :: nat where "MAX_QR_SIDE = 177"
definition MAX_QR_MODULES :: nat where "MAX_QR_MODULES = MAX_QR_SIDE * MAX_QR_SIDE"
definition MAX_UI_QR_COUNT :: nat where "MAX_UI_QR_COUNT = 4"
definition QR_SCRATCH_BYTES :: nat where
  "QR_SCRATCH_BYTES = 4 + MAX_UI_QR_COUNT * (4 + MAX_QR_MODULES)"

definition wasm_file_meta :: "bytes \<Rightarrow> bytes \<Rightarrow> u64 \<Rightarrow> u32 \<Rightarrow> u8 \<Rightarrow> file_meta" where
  "wasm_file_meta compressed_payload filename original_size crc compression =
     \<lparr>fm_filename = filename, fm_original_size = original_size, fm_crc32 = crc,
      fm_compression = compression, fm_compressed_size = of_nat (length compressed_payload),
      fm_compressed_size_known = True, fm_crc32_known = True\<rparr>"

definition join_session_id :: "u64 \<Rightarrow> u64 \<Rightarrow> u128" where
  "join_session_id lo hi = push_bit 64 (ucast hi) OR ucast lo"

definition wasm_sender_new ::
  "('e, 'd) raptorq \<Rightarrow> bytes \<Rightarrow> u64 \<Rightarrow> u64 \<Rightarrow> u8 \<Rightarrow> u32 \<Rightarrow> bytes \<Rightarrow> u64 \<Rightarrow> u32 \<Rightarrow> u8 \<Rightarrow>
   ('e wasm_sender, js_error) result" where
  "wasm_sender_new rq compressed_payload sid_lo sid_hi redundancy_pct symbol_size filename
     original_file_size crc compression =
     bind_result (map_err Js_codec (config_new symbol_size)) (\<lambda>codec.
     bind_result (map_err Js_engine
       (sender_new rq compressed_payload (join_session_id sid_lo sid_hi)
         \<lparr>sc_codec = codec, sc_redundancy_pct = redundancy_pct\<rparr>
         (wasm_file_meta compressed_payload filename original_file_size crc compression))) (\<lambda>inner.
       Inr \<lparr>ws_inner = inner, ws_qr_scratch = replicate QR_SCRATCH_BYTES 0\<rparr>))"

definition wasm_sender_new_segment ::
  "('e, 'd) raptorq \<Rightarrow> bytes \<Rightarrow> u64 \<Rightarrow> u64 \<Rightarrow> u32 \<Rightarrow> u32 \<Rightarrow> u64 \<Rightarrow> u64 \<Rightarrow> bytes \<Rightarrow> bytes \<Rightarrow> u8 \<Rightarrow> u32 \<Rightarrow>
   bytes \<Rightarrow> u64 \<Rightarrow> u32 \<Rightarrow> u8 \<Rightarrow> ('e wasm_sender, js_error) result" where
  "wasm_sender_new_segment rq compressed_payload root_lo root_hi segment_index segment_count
     original_offset root_original_size root_sha256 raw_sha256 redundancy_pct symbol_size filename
     original_size crc compression =
     (let root = join_session_id root_lo root_hi;
          child = derive_segment root segment_index
      in bind_result (map_err Js_codec (config_new symbol_size)) (\<lambda>codec.
         if length root_sha256 \<noteq> 32 \<or> length raw_sha256 \<noteq> 32
         then Inl (Js_text ''root_sha256 and raw_sha256 must be exactly 32 bytes'')
         else bind_result (map_err Js_engine
           (sender_new_segment rq compressed_payload child
             \<lparr>sc_codec = codec, sc_redundancy_pct = redundancy_pct\<rparr>
             (wasm_file_meta compressed_payload filename original_size crc compression)
             \<lparr>sg_root_session_id = root, sg_segment_index = segment_index,
              sg_segment_count = segment_count, sg_original_offset = original_offset,
              sg_root_original_size = root_original_size,
              sg_root_sha256 = root_sha256, sg_raw_sha256 = raw_sha256\<rparr>)) (\<lambda>inner.
           Inr \<lparr>ws_inner = inner, ws_qr_scratch = replicate QR_SCRATCH_BYTES 0\<rparr>)))"

type_synonym clock = "u64 \<times> u64 \<times> u64"
type_synonym generator = "bytes \<Rightarrow> nat \<Rightarrow> (bool list \<times> nat) option"

definition wasm_next_frame ::
  "('e, 'd) raptorq \<Rightarrow> (bytes \<Rightarrow> u32) \<Rightarrow> clock \<Rightarrow> 'e wasm_sender \<Rightarrow>
   'e wasm_sender \<times> (bytes, js_error) result" where
  "wasm_next_frame rq crc clock w =
     (case next_frame rq crc clock (ws_inner w) of
        (s, Inl e) \<Rightarrow> (w\<lparr>ws_inner := s\<rparr>, Inl (Js_engine e))
      | (s, Inr f) \<Rightarrow> (w\<lparr>ws_inner := s\<rparr>, Inr (frame_to_bytes f)))"

text \<open>\<open>next_frame\<close> followed by \<open>qr_render::encode\<close>, the pair of calls of every loop below.\<close>

definition next_code ::
  "('e, 'd) raptorq \<Rightarrow> (bytes \<Rightarrow> u32) \<Rightarrow> generator \<Rightarrow> clock \<Rightarrow> 'e sender \<Rightarrow>
   'e sender \<times> (qr_matrix, js_error) result" where
  "next_code rq crc build clock s0 =
     (case next_frame rq crc clock s0 of
        (s, Inl e) \<Rightarrow> (s, Inl (Js_engine e))
      | (s, Inr f) \<Rightarrow> (s, map_err Js_qr (qr_encode build (frame_to_bytes f))))"

text \<open>\<open>modules.iter().map(|&dark| dark as u8)\<close>.\<close>

definition module_bytes :: "qr_matrix \<Rightarrow> bytes" where
  "module_bytes m = map (\<lambda>dark. if dark then 1 else 0) (qr_modules m)"

definition wasm_next_qr ::
  "('e, 'd) raptorq \<Rightarrow> (bytes \<Rightarrow> u32) \<Rightarrow> generator \<Rightarrow> clock \<Rightarrow> 'e wasm_sender \<Rightarrow> u32 list \<Rightarrow>
   'e wasm_sender \<times> u32 list \<times> (bytes, js_error) result" where
  "wasm_next_qr rq crc build clock w out_side =
     (if out_side = [] then (w, out_side, Inl (Js_text ''out_side buffer empty''))
      else case next_code rq crc build clock (ws_inner w) of
        (s, Inl e) \<Rightarrow> (w\<lparr>ws_inner := s\<rparr>, out_side, Inl e)
      | (s, Inr m) \<Rightarrow> (w\<lparr>ws_inner := s\<rparr>, out_side[0 := of_nat (qr_size m)], Inr (module_bytes m)))"

text \<open>The loop of \<open>next_qr_multi\<close>: it stops at the first error and keeps what it has.\<close>

fun multi_loop ::
  "('e, 'd) raptorq \<Rightarrow> (bytes \<Rightarrow> u32) \<Rightarrow> generator \<Rightarrow> clock list \<Rightarrow> 'e sender \<Rightarrow> bytes \<Rightarrow> u32 \<Rightarrow>
   'e sender \<times> bytes \<times> u32" where
  "multi_loop rq crc build [] s out produced = (s, out, produced)"
| "multi_loop rq crc build (c # cs) s out produced =
     (case next_code rq crc build c s of
        (s', Inl e) \<Rightarrow> (s', out, produced)
      | (s', Inr m) \<Rightarrow>
          multi_loop rq crc build cs s' (out @ le_bytes 4 (of_nat (qr_size m) :: u32) @ module_bytes m) (produced + 1))"

text \<open>\<open>buf[pos..pos + k].copy_from_slice(bs)\<close> for \<open>bs\<close> of length \<open>k\<close>.\<close>

definition write_at :: "bytes \<Rightarrow> nat \<Rightarrow> bytes \<Rightarrow> bytes" where
  "write_at buf pos bs = take pos buf @ bs @ drop (pos + length bs) buf"

definition wasm_next_qr_multi ::
  "('e, 'd) raptorq \<Rightarrow> (bytes \<Rightarrow> u32) \<Rightarrow> generator \<Rightarrow> (nat \<Rightarrow> clock) \<Rightarrow> 'e wasm_sender \<Rightarrow> u32 \<Rightarrow>
   'e wasm_sender \<times> bytes" where
  "wasm_next_qr_multi rq crc build clock w count =
     (let n = unat (min count 8);
          out = le_bytes 4 (0 :: u32)
      in case multi_loop rq crc build (map clock [0..<n]) (ws_inner w) out 0 of
           (s, out', produced) \<Rightarrow> (w\<lparr>ws_inner := s\<rparr>, write_at out' 0 (le_bytes 4 produced)))"

definition wasm_next_qr_into ::
  "('e, 'd) raptorq \<Rightarrow> (bytes \<Rightarrow> u32) \<Rightarrow> generator \<Rightarrow> clock \<Rightarrow> 'e wasm_sender \<Rightarrow> bytes \<Rightarrow> u32 list \<Rightarrow>
   'e wasm_sender \<times> bytes \<times> u32 list \<times> (u32, js_error) result" where
  "wasm_next_qr_into rq crc build clock w out_modules out_side =
     (if out_side = [] then (w, out_modules, out_side, Inl (Js_text ''out_side buffer empty''))
      else case next_code rq crc build clock (ws_inner w) of
        (s, Inl e) \<Rightarrow> (w\<lparr>ws_inner := s\<rparr>, out_modules, out_side, Inl e)
      | (s, Inr m) \<Rightarrow>
          (let n = length (qr_modules m) in
           if length out_modules < n
           then (w\<lparr>ws_inner := s\<rparr>, out_modules, out_side, Inl (Js_modules_too_small n (length out_modules)))
           else (w\<lparr>ws_inner := s\<rparr>, write_at out_modules 0 (module_bytes m),
                 out_side[0 := of_nat (qr_size m)], Inr (of_nat n))))"

text \<open>The loop of \<open>next_qr_multi_into\<close>: a fixed buffer and the position of the next byte.\<close>

fun multi_into_loop ::
  "('e, 'd) raptorq \<Rightarrow> (bytes \<Rightarrow> u32) \<Rightarrow> generator \<Rightarrow> clock list \<Rightarrow> 'e sender \<Rightarrow> bytes \<Rightarrow> nat \<Rightarrow> u32 \<Rightarrow>
   'e sender \<times> bytes \<times> (nat \<times> u32, js_error) result" where
  "multi_into_loop rq crc build [] s buf pos produced = (s, buf, Inr (pos, produced))"
| "multi_into_loop rq crc build (c # cs) s buf pos produced =
     (case next_code rq crc build c s of
        (s', Inl e) \<Rightarrow> (s', buf, Inr (pos, produced))
      | (s', Inr m) \<Rightarrow>
          (let need = 4 + length (qr_modules m) in
           if length buf < pos + need
           then (s', buf, Inl (Js_buffer_overflow produced need pos (length buf)))
           else let buf1 = write_at buf pos (le_bytes 4 (of_nat (qr_size m) :: u32));
                    buf2 = write_at buf1 (pos + 4) (module_bytes m)
                in multi_into_loop rq crc build cs s' buf2 (pos + 4 + length (qr_modules m)) (produced + 1)))"

definition wasm_next_qr_multi_into ::
  "('e, 'd) raptorq \<Rightarrow> (bytes \<Rightarrow> u32) \<Rightarrow> generator \<Rightarrow> (nat \<Rightarrow> clock) \<Rightarrow> 'e wasm_sender \<Rightarrow> u32 \<Rightarrow> bytes \<Rightarrow>
   'e wasm_sender \<times> bytes \<times> (u32, js_error) result" where
  "wasm_next_qr_multi_into rq crc build clock w count out_buf =
     (let n = unat (min count 8) in
      if length out_buf < 4 then (w, out_buf, Inl (Js_text ''out_buf too small for count slot''))
      else case multi_into_loop rq crc build (map clock [0..<n]) (ws_inner w) out_buf 4 0 of
             (s, buf, Inl e) \<Rightarrow> (w\<lparr>ws_inner := s\<rparr>, buf, Inl e)
           | (s, buf, Inr (pos, produced)) \<Rightarrow>
               (w\<lparr>ws_inner := s\<rparr>, write_at buf 0 (le_bytes 4 produced), Inr (of_nat pos)))"

text \<open>The loop of \<open>next_qr_scratch\<close>: the first error ends the call.\<close>

fun scratch_loop ::
  "('e, 'd) raptorq \<Rightarrow> (bytes \<Rightarrow> u32) \<Rightarrow> generator \<Rightarrow> clock list \<Rightarrow> 'e sender \<Rightarrow> bytes \<Rightarrow> nat \<Rightarrow> u32 \<Rightarrow>
   'e sender \<times> bytes \<times> (nat \<times> u32, js_error) result" where
  "scratch_loop rq crc build [] s buf pos produced = (s, buf, Inr (pos, produced))"
| "scratch_loop rq crc build (c # cs) s buf pos produced =
     (case next_code rq crc build c s of
        (s', Inl e) \<Rightarrow> (s', buf, Inl e)
      | (s', Inr m) \<Rightarrow>
          (let need = 4 + length (qr_modules m) in
           if length buf < pos + need
           then (s', buf, Inl (Js_text ''internal QR scratch buffer overflow''))
           else let buf1 = write_at buf pos (le_bytes 4 (of_nat (qr_size m) :: u32));
                    buf2 = write_at buf1 (pos + 4) (module_bytes m)
                in scratch_loop rq crc build cs s' buf2 (pos + 4 + length (qr_modules m)) (produced + 1)))"

definition wasm_next_qr_scratch ::
  "('e, 'd) raptorq \<Rightarrow> (bytes \<Rightarrow> u32) \<Rightarrow> generator \<Rightarrow> (nat \<Rightarrow> clock) \<Rightarrow> 'e wasm_sender \<Rightarrow> u32 \<Rightarrow>
   'e wasm_sender \<times> (u32, js_error) result" where
  "wasm_next_qr_scratch rq crc build clock w count =
     (let n = unat (max 1 (min count (of_nat MAX_UI_QR_COUNT))) in
      case scratch_loop rq crc build (map clock [0..<n]) (ws_inner w) (ws_qr_scratch w) 4 0 of
        (s, buf, Inl e) \<Rightarrow> (\<lparr>ws_inner = s, ws_qr_scratch = buf\<rparr>, Inl e)
      | (s, buf, Inr (pos, produced)) \<Rightarrow>
          (\<lparr>ws_inner = s, ws_qr_scratch = write_at buf 0 (le_bytes 4 produced)\<rparr>, Inr (of_nat pos)))"

definition wasm_qr_scratch_view :: "'e wasm_sender \<Rightarrow> bytes" where
  "wasm_qr_scratch_view w = ws_qr_scratch w"

definition wasm_sender_session_id_lo :: "'e wasm_sender \<Rightarrow> u64" where
  "wasm_sender_session_id_lo w = ucast (sn_session_id (ws_inner w))"

definition wasm_sender_session_id_hi :: "'e wasm_sender \<Rightarrow> u64" where
  "wasm_sender_session_id_hi w = ucast (drop_bit 64 (sn_session_id (ws_inner w)))"

definition wasm_total_symbols :: "'e wasm_sender \<Rightarrow> u32" where
  "wasm_total_symbols w = sn_total_k (ws_inner w)"

definition wasm_num_blocks :: "'e wasm_sender \<Rightarrow> u32" where
  "wasm_num_blocks w = of_nat (length (m_blocks (sn_meta (ws_inner w))))"

definition wasm_sender_segment_index :: "'e wasm_sender \<Rightarrow> u32" where
  "wasm_sender_segment_index w =
     (case map_option sg_segment_index (sn_segment_meta (ws_inner w)) of Some i \<Rightarrow> i | None \<Rightarrow> 0)"

definition wasm_sender_segment_count :: "'e wasm_sender \<Rightarrow> u32" where
  "wasm_sender_segment_count w =
     (case map_option sg_segment_count (sn_segment_meta (ws_inner w)) of Some n \<Rightarrow> n | None \<Rightarrow> 1)"

definition wasm_sender_is_segmented :: "'e wasm_sender \<Rightarrow> bool" where
  "wasm_sender_is_segmented w \<longleftrightarrow> sn_segment_meta (ws_inner w) \<noteq> None"

definition wasm_encode_qr :: "generator \<Rightarrow> bytes \<Rightarrow> u32 list \<Rightarrow> u32 list \<times> (bytes, js_error) result" where
  "wasm_encode_qr build frame_bytes out_side =
     (if out_side = [] then (out_side, Inl (Js_text ''out_side buffer empty''))
      else case map_err Js_qr (qr_encode build frame_bytes) of
        Inl e \<Rightarrow> (out_side, Inl e)
      | Inr m \<Rightarrow> (out_side[0 := of_nat (qr_size m)], Inr (module_bytes m)))"

section \<open>The receiver session\<close>

definition wasm_receiver_new :: "u64 \<Rightarrow> u64 \<Rightarrow> 'd receiver" where
  "wasm_receiver_new sid_lo sid_hi = new_pending (join_session_id sid_lo sid_hi)"

definition wasm_ingest ::
  "('e, 'd) raptorq \<Rightarrow> (bytes \<Rightarrow> u32) \<Rightarrow> (symbol_cache \<Rightarrow> symbol_cache) \<Rightarrow> bytes \<Rightarrow> 'd receiver \<Rightarrow>
   'd receiver \<times> u64" where
  "wasm_ingest rq crc ord frame_bytes s =
     (case frame_from_bytes crc frame_bytes of
        Inl e \<Rightarrow> (s, INGEST_ERROR)
      | Inr f \<Rightarrow> ingest_packed rq ord f s)"

definition wasm_from_descriptor ::
  "('e, 'd) raptorq \<Rightarrow> (bytes \<Rightarrow> u32) \<Rightarrow> (symbol_cache \<Rightarrow> symbol_cache) \<Rightarrow> bytes \<Rightarrow>
   ('d receiver, js_error) result" where
  "wasm_from_descriptor rq crc ord frame_bytes =
     bind_result (map_err (\<lambda>e. Js_engine (Protocol e)) (frame_from_bytes crc frame_bytes)) (\<lambda>f.
       if fh_flags (fr_header f) AND FLAG_DESCRIPTOR = 0
       then Inl (Js_text ''from_descriptor: frame is not a descriptor (FLAG_DESCRIPTOR clear)'')
       else
         let s0 = wasm_receiver_new (ucast (fh_session_id (fr_header f)))
                    (ucast (drop_bit 64 (fh_session_id (fr_header f))));
             s = fst (wasm_ingest rq crc ord frame_bytes s0)
         in if \<not> rx_meta_confirmed s
            then Inl (Js_text ''from_descriptor: descriptor rejected (corrupt/hostile payload); meta not confirmed'')
            else Inr s)"

definition wasm_is_complete :: "'d receiver \<Rightarrow> bool" where
  "wasm_is_complete s = receiver_is_complete s"

definition wasm_session_id_lo :: "'d receiver \<Rightarrow> u64" where
  "wasm_session_id_lo s = ucast (rx_session_id s)"

definition wasm_session_id_hi :: "'d receiver \<Rightarrow> u64" where
  "wasm_session_id_hi s = ucast (drop_bit 64 (rx_session_id s))"

definition wasm_file_name :: "'d receiver \<Rightarrow> bytes" where
  "wasm_file_name s = fm_filename (rx_file_meta s)"

definition wasm_original_size :: "'d receiver \<Rightarrow> u64" where
  "wasm_original_size s = fm_original_size (rx_file_meta s)"

definition wasm_compressed_size :: "'d receiver \<Rightarrow> u64" where
  "wasm_compressed_size s = fm_compressed_size (rx_file_meta s)"

definition wasm_compressed_size_known :: "'d receiver \<Rightarrow> bool" where
  "wasm_compressed_size_known s = fm_compressed_size_known (rx_file_meta s)"

definition wasm_compression :: "'d receiver \<Rightarrow> u8" where
  "wasm_compression s = fm_compression (rx_file_meta s)"

definition wasm_crc32 :: "'d receiver \<Rightarrow> u32" where
  "wasm_crc32 s = fm_crc32 (rx_file_meta s)"

definition wasm_crc32_known :: "'d receiver \<Rightarrow> bool" where
  "wasm_crc32_known s = fm_crc32_known (rx_file_meta s)"

definition wasm_meta_confirmed :: "'d receiver \<Rightarrow> bool" where
  "wasm_meta_confirmed s = rx_meta_confirmed s"

definition wasm_is_segmented :: "'d receiver \<Rightarrow> bool" where
  "wasm_is_segmented s \<longleftrightarrow> rx_segment_meta s \<noteq> None"

text \<open>\<open>segment_meta().map(f).unwrap_or(d)\<close>, the shape of the segment getters.\<close>

definition segment_field :: "(segment_meta \<Rightarrow> 'a) \<Rightarrow> 'a \<Rightarrow> 'd receiver \<Rightarrow> 'a" where
  "segment_field f d s = (case map_option f (rx_segment_meta s) of Some v \<Rightarrow> v | None \<Rightarrow> d)"

definition wasm_segment_index :: "'d receiver \<Rightarrow> u32" where
  "wasm_segment_index = segment_field sg_segment_index 0"

definition wasm_segment_count :: "'d receiver \<Rightarrow> u32" where
  "wasm_segment_count = segment_field sg_segment_count 1"

definition wasm_root_original_size :: "'d receiver \<Rightarrow> u64" where
  "wasm_root_original_size = segment_field sg_root_original_size 0"

definition wasm_original_offset :: "'d receiver \<Rightarrow> u64" where
  "wasm_original_offset = segment_field sg_original_offset 0"

definition wasm_root_session_id_lo :: "'d receiver \<Rightarrow> u64" where
  "wasm_root_session_id_lo = segment_field (\<lambda>m. ucast (sg_root_session_id m)) 0"

definition wasm_root_session_id_hi :: "'d receiver \<Rightarrow> u64" where
  "wasm_root_session_id_hi = segment_field (\<lambda>m. ucast (drop_bit 64 (sg_root_session_id m))) 0"

definition wasm_raw_sha256 :: "'d receiver \<Rightarrow> bytes" where
  "wasm_raw_sha256 = segment_field sg_raw_sha256 []"

definition wasm_root_sha256 :: "'d receiver \<Rightarrow> bytes" where
  "wasm_root_sha256 = segment_field sg_root_sha256 []"

definition wasm_assemble_raw :: "'d receiver \<Rightarrow> bytes" where
  "wasm_assemble_raw s =
     (case assemble_raw s of None \<Rightarrow> [] | Some raw \<Rightarrow> trim_transmitted (rx_file_meta s) raw)"

end
