(* ===== verification/Browser_Codes.thy ===== *)
theory Browser_Codes
  imports Browser
begin

text \<open>
  What the browser sender draws: the buffers it fills are one layout, whichever call fills them;
  the layout reads back to the codes of consecutive frames; and the scratch memory is
  always large enough.
\<close>

section \<open>The generator\<close>

text \<open>
  What the code relies on: a code of version \<open>v\<close> (index \<open>v - 1\<close>) has \<open>4 * v + 17\<close> modules on a side,
  and the generator's array of modules holds at least its square.
\<close>

definition generator_ok :: "generator \<Rightarrow> bool" where
  "generator_ok build \<longleftrightarrow> (\<forall>data v modules n. build data v = Some (modules, n) \<longrightarrow>
     n = 4 * v + 21 \<and> n * n \<le> length modules)"

lemma qr_encode_shape:
  assumes "generator_ok build" "qr_encode build data = Inr m"
  shows "length (qr_modules m) = qr_size m * qr_size m \<and> 21 \<le> qr_size m \<and> qr_size m \<le> 177"
proof -
  from assms(2) [unfolded qr_encode_first_accepted] obtain v modules where
    v: "v \<le> 40" "build data (v - 1) = Some (modules, qr_size m)"
      "qr_modules m = take (qr_size m * qr_size m) modules" by blast
  from assms(1) v(2) have "qr_size m = 4 * (v - 1) + 21" "qr_size m * qr_size m \<le> length modules"
    by (auto simp: generator_ok_def)
  with v show ?thesis by simp
qed

lemma module_bytes_length [simp]: "length (module_bytes m) = length (qr_modules m)"
  by (simp add: module_bytes_def)

section \<open>Consecutive codes\<close>

text \<open>
  The codes of the next calls of \<open>next_frame\<close> up to the first failure: the session afterwards, the
  codes and the failure.
\<close>

fun next_codes ::
  "('e, 'd) raptorq \<Rightarrow> (bytes \<Rightarrow> u32) \<Rightarrow> generator \<Rightarrow> clock list \<Rightarrow> 'e sender \<Rightarrow>
   'e sender \<times> qr_matrix list \<times> js_error option" where
  "next_codes rq crc build [] s = (s, [], None)"
| "next_codes rq crc build (c # cs) s =
     (case next_code rq crc build c s of
        (s', Inl e) \<Rightarrow> (s', [], Some e)
      | (s', Inr m) \<Rightarrow> (case next_codes rq crc build cs s' of (s'', ms, e) \<Rightarrow> (s'', m # ms, e)))"

lemma next_codes_cases:
  assumes "next_codes rq crc build (c # cs) s = (s', ms, e)"
  obtains (fails) err where "next_code rq crc build c s = (s', Inl err)" "ms = []" "e = Some err"
  | (draws) s1 m ms' where "next_code rq crc build c s = (s1, Inr m)"
      "next_codes rq crc build cs s1 = (s', ms', e)" "ms = m # ms'"
  using assms by (auto split: prod.splits sum.splits)

lemma next_codes_shape:
  "generator_ok build \<Longrightarrow> next_codes rq crc build cs s = (s', ms, e) \<Longrightarrow> m \<in> set ms \<Longrightarrow>
   length (qr_modules m) = qr_size m * qr_size m \<and> 21 \<le> qr_size m \<and> qr_size m \<le> 177"
proof (induction cs arbitrary: s ms)
  case (Cons c cs)
  from Cons.prems(2) show ?case
  proof (cases rule: next_codes_cases)
    case (draws s1 m' ms')
    from draws(1) obtain f where "qr_encode build (frame_to_bytes f) = Inr m'"
      by (auto simp: next_code_def split: prod.splits sum.splits)
    with qr_encode_shape [OF Cons.prems(1)] Cons.IH [OF Cons.prems(1) draws(2)] draws(3) Cons.prems(3)
    show ?thesis by auto
  qed (use Cons.prems(3) in simp)
qed simp

lemma next_codes_count: "next_codes rq crc build cs s = (s', ms, e) \<Longrightarrow>
   length ms \<le> length cs \<and> (e = None \<longleftrightarrow> length ms = length cs)"
proof (induction cs arbitrary: s ms)
  case (Cons c cs)
  from Cons.prems show ?case by (cases rule: next_codes_cases) (auto dest!: Cons.IH)
qed simp

lemma next_codes_error: "next_codes rq crc build cs s = (s', ms, e) \<Longrightarrow> e \<noteq> Some (Js_text t)"
proof (induction cs arbitrary: s ms)
  case (Cons c cs)
  from Cons.prems show ?case
  proof (cases rule: next_codes_cases)
    case (fails err)
    then have "err \<noteq> Js_text t" by (auto simp: next_code_def split: prod.splits sum.splits)
    with fails show ?thesis by simp
  qed (auto dest!: Cons.IH)
qed simp

text \<open>The layout shared by the three calls.\<close>

definition code_record :: "qr_matrix \<Rightarrow> bytes" where
  "code_record m = le_bytes 4 (of_nat (qr_size m) :: u32) @ module_bytes m"

definition layout :: "qr_matrix list \<Rightarrow> bytes" where
  "layout ms = le_bytes 4 (of_nat (length ms) :: u32) @ concat (map code_record ms)"

lemma layout_bound:
  assumes "generator_ok build" "next_codes rq crc build cs s = (s', ms, e)"
  shows "length (concat (map code_record ms)) \<le> length cs * (4 + MAX_QR_MODULES)"
proof -
  have "length (code_record m) \<le> 4 + MAX_QR_MODULES" if "m \<in> set ms" for m
  proof -
    from next_codes_shape [OF assms that] have "qr_size m * qr_size m \<le> 177 * 177" by (intro mult_le_mono) auto
    with next_codes_shape [OF assms that] show ?thesis
      by (simp add: code_record_def MAX_QR_MODULES_def MAX_QR_SIDE_def)
  qed
  then have "length (concat (map code_record ms)) \<le> length ms * (4 + MAX_QR_MODULES)"
    by (induction ms) (simp_all add: add_mono)
  also have "\<dots> \<le> length cs * (4 + MAX_QR_MODULES)"
    using next_codes_count [OF assms(2)] by (intro mult_le_mono1) simp
  finally show ?thesis .
qed

section \<open>Filling the buffers\<close>

lemma write_at_Nil [simp]: "write_at buf pos [] = buf"
  by (simp add: write_at_def)

lemma length_write_at [simp]: "pos + length bs \<le> length buf \<Longrightarrow> length (write_at buf pos bs) = length buf"
  by (simp add: write_at_def)

lemma write_at_append:
  "pos + length a + length b \<le> length buf \<Longrightarrow> write_at (write_at buf pos a) (pos + length a) b = write_at buf pos (a @ b)"
  by (cases a) (auto simp: write_at_def min_def ac_simps)

lemma write_at_0: "length a = n \<Longrightarrow> n \<le> length buf \<Longrightarrow> write_at (write_at buf n b) 0 a = write_at buf 0 (a @ b)"
  by (simp add: write_at_def)

lemma write_record:
  assumes "pos + length (code_record m) \<le> length buf"
  shows "write_at (write_at buf pos (le_bytes 4 (of_nat (qr_size m) :: u32))) (pos + 4) (module_bytes m) =
    write_at buf pos (code_record m)"
  using assms write_at_append [of pos "le_bytes 4 (of_nat (qr_size m) :: u32)" "module_bytes m" buf]
  by (simp add: code_record_def)

lemma multi_loop_codes:
  "next_codes rq crc build cs s = (s', ms, e) \<Longrightarrow>
   multi_loop rq crc build cs s out p = (s', out @ concat (map code_record ms), p + of_nat (length ms))"
proof (induction cs arbitrary: s ms out p)
  case (Cons c cs)
  from Cons.prems show ?case
  proof (cases rule: next_codes_cases)
    case (draws s1 m ms')
    with Cons.IH [OF draws(2)] show ?thesis by (simp add: code_record_def add.assoc)
  qed simp
qed simp

text \<open>One more code in a buffer that has room for all that are asked for.\<close>

lemma record_fits:
  assumes "generator_ok build" "next_code rq crc build c s = (s1, Inr m)"
    and "next_codes rq crc build cs s1 = (s', ms, e)"
    and "pos + length (c # cs) * (4 + MAX_QR_MODULES) \<le> length buf"
  shows "length (code_record m) = 4 + length (qr_modules m)"
    "pos + length (code_record m) + length cs * (4 + MAX_QR_MODULES) \<le> length buf"
    "write_at (write_at buf pos (code_record m)) (pos + length (code_record m)) (concat (map code_record ms)) =
      write_at buf pos (concat (map code_record (m # ms)))"
proof -
  have "length (code_record m) \<le> 4 + MAX_QR_MODULES"
    using layout_bound [OF assms(1), of rq crc "[c]" s s1 "[m]" None] assms(2) by simp
  with assms(4) show fit: "pos + length (code_record m) + length cs * (4 + MAX_QR_MODULES) \<le> length buf" by simp
  show "length (code_record m) = 4 + length (qr_modules m)" by (simp add: code_record_def)
  show "write_at (write_at buf pos (code_record m)) (pos + length (code_record m)) (concat (map code_record ms)) =
      write_at buf pos (concat (map code_record (m # ms)))"
    using fit layout_bound [OF assms(1,3)] by (simp add: write_at_append)
qed

lemma multi_into_loop_codes:
  assumes "generator_ok build"
  shows "next_codes rq crc build cs s = (s', ms, e) \<Longrightarrow> pos + length cs * (4 + MAX_QR_MODULES) \<le> length buf \<Longrightarrow>
   multi_into_loop rq crc build cs s buf pos p =
     (s', write_at buf pos (concat (map code_record ms)),
      Inr (pos + length (concat (map code_record ms)), p + of_nat (length ms)))"
proof (induction cs arbitrary: s ms buf pos p)
  case (Cons c cs)
  from Cons.prems(1) show ?case
  proof (cases rule: next_codes_cases)
    case (draws s1 m ms')
    note R = record_fits [OF assms draws(1,2) Cons.prems(2)]
    have "multi_into_loop rq crc build (c # cs) s buf pos p =
        multi_into_loop rq crc build cs s1 (write_at buf pos (code_record m)) (pos + length (code_record m)) (p + 1)"
      using draws(1) R(1,2) by (simp add: write_record Let_def add.assoc)
    with Cons.IH [OF draws(2), of "pos + length (code_record m)" "write_at buf pos (code_record m)" "p + 1"] R(2)
    show ?thesis unfolding draws(3) by (simp add: R(3) add.assoc del: multi_into_loop.simps split: option.splits)
  qed simp
qed simp

lemma scratch_loop_codes:
  assumes "generator_ok build"
  shows "next_codes rq crc build cs s = (s', ms, e) \<Longrightarrow> pos + length cs * (4 + MAX_QR_MODULES) \<le> length buf \<Longrightarrow>
   scratch_loop rq crc build cs s buf pos p =
     (s', write_at buf pos (concat (map code_record ms)),
      case e of None \<Rightarrow> Inr (pos + length (concat (map code_record ms)), p + of_nat (length ms)) | Some err \<Rightarrow> Inl err)"
proof (induction cs arbitrary: s ms buf pos p)
  case (Cons c cs)
  from Cons.prems(1) show ?case
  proof (cases rule: next_codes_cases)
    case (draws s1 m ms')
    note R = record_fits [OF assms draws(1,2) Cons.prems(2)]
    have "scratch_loop rq crc build (c # cs) s buf pos p =
        scratch_loop rq crc build cs s1 (write_at buf pos (code_record m)) (pos + length (code_record m)) (p + 1)"
      using draws(1) R(1,2) by (simp add: write_record Let_def add.assoc)
    with Cons.IH [OF draws(2), of "pos + length (code_record m)" "write_at buf pos (code_record m)" "p + 1"] R(2)
    show ?thesis unfolding draws(3) by (simp add: R(3) add.assoc del: scratch_loop.simps split: option.splits)
  qed simp
qed simp

lemma next_qr_multi_codes:
  assumes "next_codes rq crc build (map clock [0..<unat (min count 8)]) (ws_inner w) = (s', ms, e)"
  shows "wasm_next_qr_multi rq crc build clock w count = (w\<lparr>ws_inner := s'\<rparr>, layout ms)"
  using multi_loop_codes [OF assms, of "le_bytes 4 (0 :: u32)" 0]
  by (simp add: wasm_next_qr_multi_def layout_def write_at_def)

lemma next_qr_multi_into_codes:
  assumes "generator_ok build"
    and "next_codes rq crc build (map clock [0..<unat (min count 8)]) (ws_inner w) = (s', ms, e)"
    and "4 + unat (min count 8) * (4 + MAX_QR_MODULES) \<le> length buf"
  shows "wasm_next_qr_multi_into rq crc build clock w count buf =
    (w\<lparr>ws_inner := s'\<rparr>, write_at buf 0 (layout ms), Inr (of_nat (length (layout ms))))"
proof -
  from assms(3) have "4 \<le> length buf" by simp
  with multi_into_loop_codes [OF assms(1,2), of 4 buf 0] assms(3) show ?thesis
    by (simp add: wasm_next_qr_multi_into_def layout_def write_at_0 Let_def add.commute [of 4])
qed

lemma next_qr_scratch_codes:
  assumes "generator_ok build" "length (ws_qr_scratch w) = QR_SCRATCH_BYTES"
    and "next_codes rq crc build (map clock [0..<unat (max 1 (min count 4))]) (ws_inner w) = (s', ms, e)"
  shows "wasm_next_qr_scratch rq crc build clock w count =
    (case e of
       None \<Rightarrow> (\<lparr>ws_inner = s', ws_qr_scratch = write_at (ws_qr_scratch w) 0 (layout ms)\<rparr>,
                 Inr (of_nat (length (layout ms))))
     | Some err \<Rightarrow> (\<lparr>ws_inner = s', ws_qr_scratch = write_at (ws_qr_scratch w) 4 (concat (map code_record ms))\<rparr>,
                 Inl err))"
proof -
  have "unat (max 1 (min count 4)) \<le> 4" by (simp add: max_def min_def word_le_nat_alt split: if_splits)
  then have "4 + unat (max 1 (min count 4)) * (4 + MAX_QR_MODULES) \<le> length (ws_qr_scratch w)"
    using mult_le_mono1 [of "unat (max 1 (min count 4))" 4 "4 + MAX_QR_MODULES"]
    unfolding assms(2) QR_SCRATCH_BYTES_def MAX_UI_QR_COUNT_def by simp
  with scratch_loop_codes [OF assms(1,3), of 4 "ws_qr_scratch w" 0] assms(2) show ?thesis
    by (simp add: wasm_next_qr_scratch_def MAX_UI_QR_COUNT_def QR_SCRATCH_BYTES_def layout_def write_at_0 Let_def
        add.commute [of 4] split: option.splits)
qed

section \<open>Reading the layout\<close>

text \<open>The layout as its comment documents it: a count, then for each code its side and its modules.\<close>

definition le_word :: "bytes \<Rightarrow> 'a::len word" where
  "le_word bs = be_word (rev bs)"

fun read_codes :: "nat \<Rightarrow> bytes \<Rightarrow> ((nat \<times> bytes) list \<times> bytes) option" where
  "read_codes 0 bs = Some ([], bs)"
| "read_codes (Suc n) bs =
     (if length bs < 4 then None
      else let side = unat (le_word (take 4 bs) :: u32); rest = drop 4 bs in
        if length rest < side * side then None
        else map_option (\<lambda>(xs, r). ((side, take (side * side) rest) # xs, r)) (read_codes n (drop (side * side) rest)))"

definition parse_codes :: "bytes \<Rightarrow> ((nat \<times> bytes) list \<times> bytes) option" where
  "parse_codes bs =
     (if length bs < 4 then None else read_codes (unat (le_word (take 4 bs) :: u32)) (drop 4 bs))"

interpretation le32: fixed_field "le_bytes 4 :: u32 \<Rightarrow> bytes" le_word 4
  by unfold_locales (simp_all add: le_word_def le_bytes_def be_word_be_bytes be_bytes_be_word)

lemma read_codes_layout:
  "(\<And>m. m \<in> set ms \<Longrightarrow> length (qr_modules m) = qr_size m * qr_size m \<and> qr_size m \<le> 177) \<Longrightarrow>
   read_codes (length ms) (concat (map code_record ms) @ rest) = Some (map (\<lambda>m. (qr_size m, module_bytes m)) ms, rest)"
proof (induction ms)
  case (Cons m ms)
  have "unat (of_nat (qr_size m) :: u32) = qr_size m" using Cons.prems [of m] by (intro unat_of_nat_len) simp
  with Cons show ?case by (simp add: code_record_def le32.get_put Let_def)
qed simp

lemma parse_layout:
  assumes "generator_ok build" "next_codes rq crc build cs s = (s', ms, e)" "length cs < 2 ^ 32"
  shows "parse_codes (layout ms @ rest) = Some (map (\<lambda>m. (qr_size m, module_bytes m)) ms, rest)"
proof -
  have "unat (of_nat (length ms) :: u32) = length ms"
    using next_codes_count [OF assms(2)] assms(3) by (intro unat_of_nat_len) simp
  moreover have "read_codes (length ms) (concat (map code_record ms) @ rest) =
      Some (map (\<lambda>m. (qr_size m, module_bytes m)) ms, rest)"
    using next_codes_shape [OF assms(1,2)] by (intro read_codes_layout) blast
  ultimately show ?thesis by (simp add: parse_codes_def layout_def le32.get_put)
qed

section \<open>Codes and frames\<close>

lemma emit_n_first:
  "emit_n rq crc clock (Suc n) s =
     (case next_frame rq crc (clock 0) s of
        (s1, r) \<Rightarrow> (case emit_n rq crc (\<lambda>i. clock (Suc i)) n s1 of (s2, rs) \<Rightarrow> (s2, r # rs)))"
  by (induction n) (simp_all split: prod.splits)

lemma codes_of_frames:
  "next_codes rq crc build (map clock [0..<n]) s = (s', ms, e) \<Longrightarrow>
   \<exists>fs sk. emit_n rq crc clock (length ms) s = (sk, map Inr fs) \<and>
     list_all2 (\<lambda>f m. qr_encode build (frame_to_bytes f) = Inr m) fs ms \<and>
     (case e of None \<Rightarrow> s' = sk | Some err \<Rightarrow> next_code rq crc build (clock (length ms)) sk = (s', Inl err))"
proof (induction n arbitrary: clock s ms)
  case (Suc n)
  have "map clock [0..<Suc n] = clock 0 # map (\<lambda>i. clock (Suc i)) [0..<n]" by (simp add: map_upt_Suc del: upt_Suc)
  with Suc.prems have "next_codes rq crc build (clock 0 # map (\<lambda>i. clock (Suc i)) [0..<n]) s = (s', ms, e)" by simp
  then show ?case
  proof (cases rule: next_codes_cases)
    case (draws s1 m ms')
    from draws(1) obtain f where f: "next_frame rq crc (clock 0) s = (s1, Inr f)"
      "qr_encode build (frame_to_bytes f) = Inr m" by (auto simp: next_code_def split: prod.splits sum.splits)
    from Suc.IH [OF draws(2)] obtain fs sk where "emit_n rq crc (\<lambda>i. clock (Suc i)) (length ms') s1 = (sk, map Inr fs)"
      "list_all2 (\<lambda>f m. qr_encode build (frame_to_bytes f) = Inr m) fs ms'"
      "case e of None \<Rightarrow> s' = sk | Some err \<Rightarrow> next_code rq crc build (clock (Suc (length ms'))) sk = (s', Inl err)"
      by blast
    with f show ?thesis unfolding draws(3) by (intro exI [of _ "f # fs"] exI [of _ sk]) (simp add: emit_n_first del: emit_n.simps(2) split: option.splits)
  qed simp
qed simp

end
