(* ===== verification/Fast_Qr.thy ===== *)
theory Fast_Qr
  imports Qr_Render
begin

text \<open>
  The part of the vendored QR generator that decides which data a version takes,
  \<open>core/qr-protocol/vendor/fast_qr/src\<close>: the encoding mode it picks when the caller sets none
  (\<open>encode.rs\<close>), the smallest version for a mode and a length at error correction level L
  (\<open>version.rs\<close>) and the checks of \<open>QRCode::new\<close> (\<open>qr.rs\<close>).  Drawing the code itself (the bit
  stream, the error correction and the placement of the modules) is the parameter \<open>draw\<close>: the
  whole array of modules for some data in a mode at a version.
\<close>

datatype qr_mode = Numeric | Alphanumeric | Byte
datatype qr_code_error = EncodedData | SpecifiedVersion

text \<open>Digits, capital letters and the nine signs of the alphanumeric mode.\<close>

definition is_ascii_digit :: "u8 \<Rightarrow> bool" where
  "is_ascii_digit c \<longleftrightarrow> 48 \<le> c \<and> c \<le> 57"

definition is_qr_alphanumeric :: "u8 \<Rightarrow> bool" where
  "is_qr_alphanumeric c \<longleftrightarrow>
     65 \<le> c \<and> c \<le> 90 \<or> 48 \<le> c \<and> c \<le> 57 \<or> c \<in> {32, 36, 37, 42, 43, 45, 46, 47, 58}"

fun try_encode_alphanumeric :: "bytes \<Rightarrow> qr_mode" where
  "try_encode_alphanumeric [] = Alphanumeric"
| "try_encode_alphanumeric (c # cs) = (if \<not> is_qr_alphanumeric c then Byte else try_encode_alphanumeric cs)"

fun try_encode_numeric :: "bytes \<Rightarrow> bytes \<Rightarrow> qr_mode" where
  "try_encode_numeric input [] = Numeric"
| "try_encode_numeric input (c # cs) =
     (if \<not> is_ascii_digit c then try_encode_alphanumeric input else try_encode_numeric input cs)"

definition best_encoding :: "bytes \<Rightarrow> qr_mode" where
  "best_encoding input = try_encode_numeric input input"

text \<open>The upper ends of the ranges of \<open>Version::get\<close> at level L, one for each of the 40 versions.\<close>

definition NUMERIC_VERSIONS_L :: "nat list" where
  "NUMERIC_VERSIONS_L =
    [41, 77, 127, 187, 255, 322, 370, 461, 552, 652, 772, 883, 1022, 1101, 1250, 1408, 1548, 1725, 1903,
     2061, 2232, 2409, 2620, 2812, 3057, 3283, 3517, 3669, 3909, 4158, 4417, 4686, 4965, 5253, 5529, 5836,
     6153, 6479, 6743, 7089]"

definition ALPHANUMERIC_VERSIONS_L :: "nat list" where
  "ALPHANUMERIC_VERSIONS_L =
    [25, 47, 77, 114, 154, 195, 224, 279, 335, 395, 468, 535, 619, 667, 758, 854, 938, 1046, 1153, 1249,
     1352, 1460, 1588, 1704, 1853, 1990, 2132, 2223, 2369, 2520, 2677, 2840, 3009, 3183, 3351, 3537, 3729,
     3927, 4087, 4296]"

definition BYTE_VERSIONS_L :: "nat list" where
  "BYTE_VERSIONS_L =
    [17, 32, 53, 78, 106, 134, 154, 192, 230, 271, 321, 367, 425, 458, 520, 586, 644, 718, 792, 858, 929,
     1003, 1091, 1171, 1273, 1367, 1465, 1528, 1628, 1732, 1840, 1952, 2068, 2188, 2303, 2431, 2563, 2699,
     2809, 2953]"

fun version_get_L :: "qr_mode \<Rightarrow> nat \<Rightarrow> nat option" where
  "version_get_L Numeric len = position (\<lambda>cap. len \<le> cap) NUMERIC_VERSIONS_L"
| "version_get_L Alphanumeric len = position (\<lambda>cap. len \<le> cap) ALPHANUMERIC_VERSIONS_L"
| "version_get_L Byte len = position (\<lambda>cap. len \<le> cap) BYTE_VERSIONS_L"

definition version_size :: "nat \<Rightarrow> nat" where "version_size v = v * 4 + 21"

text \<open>\<open>QRCode::new\<close> with level L, a version, a mask and no mode.\<close>

definition qr_code_new ::
  "(bytes \<Rightarrow> qr_mode \<Rightarrow> nat \<Rightarrow> bool list) \<Rightarrow> bytes \<Rightarrow> nat \<Rightarrow> (bool list \<times> nat, qr_code_error) result" where
  "qr_code_new draw input user_version =
     (let mode = best_encoding input in
      case version_get_L mode (length input) of
        None \<Rightarrow> Inl EncodedData
      | Some version \<Rightarrow>
          if version \<le> user_version then Inr (draw input mode user_version, version_size user_version)
          else Inl SpecifiedVersion)"

text \<open>The generator \<open>qr_render::encode\<close> calls; an enumeration of 40 versions has no value from 40 on.\<close>

definition fast_qr_build ::
  "(bytes \<Rightarrow> qr_mode \<Rightarrow> nat \<Rightarrow> bool list) \<Rightarrow> bytes \<Rightarrow> nat \<Rightarrow> (bool list \<times> nat) option" where
  "fast_qr_build draw data v =
     (if v < 40 then (case qr_code_new draw data v of Inl _ \<Rightarrow> None | Inr code \<Rightarrow> Some code) else None)"

section \<open>The capacities agree\<close>

text \<open>The renderer's capacity table is the generator's for bytes; the other modes hold no less.\<close>

lemma byte_versions: "BYTE_VERSIONS_L = QR_BYTE_CAPACITY_L"
  by (simp add: BYTE_VERSIONS_L_def QR_BYTE_CAPACITY_L_def)

lemma other_versions:
  "list_all2 (\<le>) QR_BYTE_CAPACITY_L NUMERIC_VERSIONS_L" "list_all2 (\<le>) QR_BYTE_CAPACITY_L ALPHANUMERIC_VERSIONS_L"
  by (simp_all add: QR_BYTE_CAPACITY_L_def NUMERIC_VERSIONS_L_def ALPHANUMERIC_VERSIONS_L_def)

lemma position_le:
  fixes caps caps' :: "nat list"
  assumes "list_all2 (\<le>) caps caps'" "v < length caps" "len \<le> caps ! v"
  shows "\<exists>u \<le> v. position (\<lambda>cap. len \<le> cap) caps' = Some u"
proof -
  have "caps ! v \<le> caps' ! v" using assms(1,2) by (rule list_all2_nthD)
  then have v: "v < length caps'" "len \<le> caps' ! v"
    using assms list_all2_lengthD [OF assms(1)] by simp_all
  then have "position (\<lambda>cap. len \<le> cap) caps' \<noteq> None" by (auto simp: position_None)
  then obtain u where u: "position (\<lambda>cap. len \<le> cap) caps' = Some u" by blast
  with v have "\<not> v < u" unfolding position_Some by blast
  with u show ?thesis by (intro exI [of _ u]) simp
qed

lemma version_get_le:
  assumes "v < 40" "len \<le> QR_BYTE_CAPACITY_L ! v"
  shows "\<exists>u \<le> v. version_get_L mode len = Some u"
proof -
  have "list_all2 (\<le>) QR_BYTE_CAPACITY_L BYTE_VERSIONS_L"
    by (simp add: byte_versions list_all2_conv_all_nth)
  with position_le [of QR_BYTE_CAPACITY_L _ v len] other_versions assms show ?thesis by (cases mode) auto
qed

text \<open>The generator takes, at every version, all data within the version's byte capacity, and draws its side.\<close>

lemma fast_qr_accepts:
  assumes "v < 40" "length data \<le> QR_BYTE_CAPACITY_L ! v"
  shows "fast_qr_build draw data v = Some (draw data (best_encoding data) v, 4 * v + 21)"
  using version_get_le [OF assms, of "best_encoding data"] assms(1)
  by (auto simp: fast_qr_build_def qr_code_new_def version_size_def Let_def)

lemma fast_qr_shape:
  "fast_qr_build draw data v = Some (modules, n) \<Longrightarrow>
     v < 40 \<and> n = 4 * v + 21 \<and> modules = draw data (best_encoding data) v"
  by (auto simp: fast_qr_build_def qr_code_new_def version_size_def Let_def split: if_splits option.splits)

text \<open>
  It takes more than that: digits alone are packed three to ten bits, so thirty of them fit the
  smallest code, which holds 17 bytes.  The renderer relies only on the byte capacities.
\<close>

lemma digits_fit_beyond_bytes:
  "fast_qr_build draw (replicate 30 48) 0 = Some (draw (replicate 30 48) Numeric 0, 21)"
  "QR_BYTE_CAPACITY_L ! 0 < length (replicate 30 (48 :: u8))"
proof -
  have "try_encode_numeric xs (replicate n 48) = Numeric" for xs n
    by (induction n) (simp_all add: is_ascii_digit_def)
  then have "best_encoding (replicate 30 48) = Numeric" by (simp only: best_encoding_def)
  then show "fast_qr_build draw (replicate 30 48) 0 = Some (draw (replicate 30 48) Numeric 0, 21)"
    by (simp add: fast_qr_build_def qr_code_new_def version_size_def NUMERIC_VERSIONS_L_def)
qed (simp add: QR_BYTE_CAPACITY_L_def)

end
