(* ===== verification/Browser_Props.thy ===== *)
theory Browser_Props
  imports Browser_Codes Fast_Qr End_To_End
begin

text \<open>
  The promises of the browser interface: what it draws, and what a browser receiver gets out of it.
\<close>

section \<open>Drawing\<close>

text \<open>
  C24: the page gets the codes of consecutive frames.  The buffer of \<open>next_qr_multi\<close> reads
  back, under its documented layout, to the rendered codes of the next frames of the session, in order,
  each with the side that squares to its number of modules; fewer than asked for only if the
  call after the last of them failed.
\<close>

theorem browser_codes_exact:
  assumes "generator_ok build" "wasm_next_qr_multi rq crc build clock w num = (w', out)"
  shows "\<exists>fs ms sk. length ms \<le> unat (min num 8) \<and>
    emit_n rq crc clock (length ms) (ws_inner w) = (sk, map Inr fs) \<and>
    list_all2 (\<lambda>f m. qr_encode build (frame_to_bytes f) = Inr m) fs ms \<and>
    parse_codes out = Some (map (\<lambda>m. (qr_size m, module_bytes m)) ms, []) \<and>
    (\<forall>m \<in> set ms. length (module_bytes m) = qr_size m * qr_size m) \<and>
    (if length ms = unat (min num 8) then ws_inner w' = sk
     else \<exists>e. next_code rq crc build (clock (length ms)) sk = (ws_inner w', Inl e))"
proof -
  let ?n = "unat (min num 8)"
  obtain s' ms e where c: "next_codes rq crc build (map clock [0..<?n]) (ws_inner w) = (s', ms, e)"
    by (metis prod_cases3)
  from assms(2) next_qr_multi_codes [OF c] have w': "w' = w\<lparr>ws_inner := s'\<rparr>" "out = layout ms" by simp_all
  have "?n \<le> 8" by (simp add: min_def word_le_nat_alt)
  then have "parse_codes (layout ms @ []) = Some (map (\<lambda>m. (qr_size m, module_bytes m)) ms, [])"
    by (intro parse_layout [OF assms(1) c]) simp
  moreover from codes_of_frames [OF c] obtain fs sk where
    "emit_n rq crc clock (length ms) (ws_inner w) = (sk, map Inr fs)"
    "list_all2 (\<lambda>f m. qr_encode build (frame_to_bytes f) = Inr m) fs ms"
    "case e of None \<Rightarrow> s' = sk | Some err \<Rightarrow> next_code rq crc build (clock (length ms)) sk = (s', Inl err)" by blast
  moreover have "length ms \<le> ?n" "e = None \<longleftrightarrow> length ms = ?n" using next_codes_count [OF c] by simp_all
  moreover have "\<forall>m \<in> set ms. length (module_bytes m) = qr_size m * qr_size m"
    using next_codes_shape [OF assms(1) c] by simp
  ultimately show ?thesis
    unfolding w' by (intro exI [of _ fs] exI [of _ ms] exI [of _ sk]) (auto split: option.splits)
qed

text \<open>
  C25: how the three calls that fetch several codes relate.  Given a buffer of the documented
  size, \<open>next_qr_multi_into\<close> writes exactly the bytes \<open>next_qr_multi\<close> returns for
  the same count, leaves the rest of the buffer alone, and advances the session alike, also when a
  frame fails.  The scratch call is to be compared with \<open>next_qr_multi\<close> for the count clamped to 1 up to
  4, whatever count it was given: the sessions end alike; if all these codes were drawn the scratch
  memory starts with the same bytes, as many as it reports, and keeps the rest; if fewer were
  drawn the scratch call fails where \<open>next_qr_multi\<close> returns what it has, the records
  it had written are those of \<open>next_qr_multi\<close> and the count in front of them is stale.  The scratch
  memory never overflows and keeps its size.
\<close>

theorem browser_buffers_agree:
  assumes "generator_ok build" "wasm_next_qr_multi rq crc build clock w num = (w1, out)"
    and "4 + unat (min num 8) * (4 + MAX_QR_MODULES) \<le> length buf"
    and "length (ws_qr_scratch w) = QR_SCRATCH_BYTES"
    and "wasm_next_qr_scratch rq crc build clock w num = (w2, r)"
    and "wasm_next_qr_multi rq crc build clock w (max 1 (min num 4)) = (w3, drawn)"
  shows "wasm_next_qr_multi_into rq crc build clock w num buf =
      (w1, out @ drop (length out) buf, Inr (of_nat (length out))) \<and> unat (of_nat (length out) :: u32) = length out \<and>
    length (wasm_qr_scratch_view w2) = QR_SCRATCH_BYTES \<and>
    r \<noteq> Inl (Js_text ''internal QR scratch buffer overflow'') \<and> ws_inner w2 = ws_inner w3 \<and>
    (\<exists>codes. parse_codes drawn = Some (codes, []) \<and> length codes \<le> unat (max 1 (min num 4)) \<and>
      (if length codes = unat (max 1 (min num 4))
       then r = Inr (of_nat (length drawn)) \<and>
         wasm_qr_scratch_view w2 = drawn @ drop (length drawn) (ws_qr_scratch w)
       else (\<exists>err. r = Inl err) \<and>
         wasm_qr_scratch_view w2 = take 4 (ws_qr_scratch w) @ drop 4 drawn @ drop (length drawn) (ws_qr_scratch w)))"
proof (intro conjI)
  let ?n = "unat (min num 8)"
  obtain s' ms e where c: "next_codes rq crc build (map clock [0..<?n]) (ws_inner w) = (s', ms, e)"
    by (metis prod_cases3)
  have w1: "w1 = w\<lparr>ws_inner := s'\<rparr>" "out = layout ms" using assms(2) next_qr_multi_codes [OF c] by simp_all
  have n8: "?n \<le> 8" by (simp add: min_def word_le_nat_alt)
  have len: "length out \<le> 4 + ?n * (4 + MAX_QR_MODULES)"
    using layout_bound [OF assms(1) c] unfolding w1(2) layout_def by simp
  then show "wasm_next_qr_multi_into rq crc build clock w num buf =
      (w1, out @ drop (length out) buf, Inr (of_nat (length out)))"
    using next_qr_multi_into_codes [OF assms(1) c assms(3)] w1 assms(3) by (simp add: write_at_def)
  have "?n * (4 + MAX_QR_MODULES) \<le> 8 * (4 + MAX_QR_MODULES)" using n8 by (rule mult_le_mono1)
  then show "unat (of_nat (length out) :: u32) = length out"
    using len by (intro unat_of_nat_len) (simp add: MAX_QR_MODULES_def MAX_QR_SIDE_def)
next
  let ?c = "max 1 (min num 4)"
  obtain s2 ms e where c: "next_codes rq crc build (map clock [0..<unat ?c]) (ws_inner w) = (s2, ms, e)"
    by (metis prod_cases3)
  note S = next_qr_scratch_codes [OF assms(1,4) c]
  have k4: "unat ?c \<le> 4" by (simp add: max_def min_def word_le_nat_alt split: if_splits)
  then have "min ?c 8 = ?c" by (simp add: min_def word_le_nat_alt)
  then have w3: "w3 = w\<lparr>ws_inner := s2\<rparr>" "drawn = layout ms"
    using assms(6) next_qr_multi_codes [of rq crc build clock ?c w] c by simp_all
  have "unat ?c * (4 + MAX_QR_MODULES) \<le> 4 * (4 + MAX_QR_MODULES)" using k4 by (rule mult_le_mono1)
  then have fit: "length drawn \<le> QR_SCRATCH_BYTES" "length drawn = 4 + length (concat (map code_record ms))"
    using layout_bound [OF assms(1) c] unfolding QR_SCRATCH_BYTES_def MAX_UI_QR_COUNT_def
    by (simp_all add: w3(2) layout_def)
  then show "length (wasm_qr_scratch_view w2) = QR_SCRATCH_BYTES"
    using S assms(4,5) w3(2) by (auto simp: wasm_qr_scratch_view_def split: option.splits)
  show "r \<noteq> Inl (Js_text ''internal QR scratch buffer overflow'')"
    using S assms(5) next_codes_error [OF c] by (auto split: option.splits)
  show "ws_inner w2 = ws_inner w3" using S assms(5) w3 by (auto split: option.splits)
  have p: "parse_codes drawn = Some (map (\<lambda>m. (qr_size m, module_bytes m)) ms, [])"
    using parse_layout [OF assms(1) c, of "[]"] k4 w3(2) by simp
  have cnt: "length ms \<le> unat ?c" "e = None \<longleftrightarrow> length ms = unat ?c" using next_codes_count [OF c] by simp_all
  have rest: "drop 4 drawn = concat (map code_record ms)" by (simp add: w3(2) layout_def)
  show "\<exists>codes. parse_codes drawn = Some (codes, []) \<and> length codes \<le> unat ?c \<and>
      (if length codes = unat ?c
       then r = Inr (of_nat (length drawn)) \<and>
         wasm_qr_scratch_view w2 = drawn @ drop (length drawn) (ws_qr_scratch w)
       else (\<exists>err. r = Inl err) \<and>
         wasm_qr_scratch_view w2 = take 4 (ws_qr_scratch w) @ drop 4 drawn @ drop (length drawn) (ws_qr_scratch w))"
  proof (intro exI [of _ "map (\<lambda>m. (qr_size m, module_bytes m)) ms"] conjI)
    show "if length (map (\<lambda>m. (qr_size m, module_bytes m)) ms) = unat ?c
       then r = Inr (of_nat (length drawn)) \<and>
         wasm_qr_scratch_view w2 = drawn @ drop (length drawn) (ws_qr_scratch w)
       else (\<exists>err. r = Inl err) \<and>
         wasm_qr_scratch_view w2 = take 4 (ws_qr_scratch w) @ drop 4 drawn @ drop (length drawn) (ws_qr_scratch w)"
    proof (cases e)
      case None
      then show ?thesis using S assms(4,5) cnt fit(1) w3(2) by (simp add: wasm_qr_scratch_view_def write_at_def)
    next
      case (Some err)
      then show ?thesis using S assms(4,5) cnt fit rest by (simp add: wasm_qr_scratch_view_def write_at_def)
    qed
  qed (use p cnt in simp_all)
qed

text \<open>
  The vendored generator keeps what the drawing calls rely on: its array always has room for
  the modules of the largest code.
\<close>

lemma fast_qr_generator:
  assumes "\<And>data mode v. length (draw data mode v) = 177 * 177"
  shows "generator_ok (fast_qr_build draw)"
  unfolding generator_ok_def
proof (intro allI impI)
  fix data v modules n assume "fast_qr_build draw data v = Some (modules, n)"
  from fast_qr_shape [OF this] assms have "v < 40" "n = 4 * v + 21" "length modules = 177 * 177" by auto
  moreover from this have "n * n \<le> 177 * 177" by (intro mult_le_mono) simp_all
  ultimately show "n = 4 * v + 21 \<and> n * n \<le> length modules" by simp
qed

text \<open>A generator that takes, at every version, all data within the byte capacity at level L.\<close>

definition generator_complete :: "generator \<Rightarrow> bool" where
  "generator_complete build \<longleftrightarrow>
     (\<forall>data v. v < 40 \<and> length data \<le> QR_BYTE_CAPACITY_L ! v \<longrightarrow> build data v \<noteq> None)"

lemma fast_qr_complete: "generator_complete (fast_qr_build draw)"
  by (simp add: generator_complete_def fast_qr_accepts)

lemma qr_encode_total:
  assumes "generator_complete build"
  shows "qr_encode build data = Inl (BufferTooShort 2953 (length data)) \<and> 2953 < length data \<or>
    (\<exists>m. qr_encode build data = Inr m) \<and> length data \<le> 2953"
proof (cases "min_version_for (length data)")
  case None
  then have "2953 < length data" by (simp add: min_version_None)
  with None show ?thesis by (simp add: qr_encode_def QR_MAX_BYTES_def)
next
  case (Some v)
  from this [unfolded min_version_Some] have v: "1 \<le> unat v" "unat v \<le> 40" "length data \<le> QR_BYTE_CAPACITY_L ! (unat v - 1)"
    by blast+
  moreover from this assms have "build data (unat v - 1) \<noteq> None" by (simp add: generator_complete_def)
  moreover have "VERSIONS ! (unat v - 1) = unat v - 1" unfolding VERSIONS_def using v by (subst nth_upt) auto
  moreover have "[unat v..<41] = unat v # [Suc (unat v)..<41]" using v by (intro upt_conv_Cons) simp
  ultimately have "\<exists>m. qr_encode build data = Inr m" by (auto simp: qr_encode_def Some)
  moreover have "length data \<le> 2953" using Some min_version_None [of "length data"] by force
  ultimately show ?thesis by blast
qed

lemma encoder_symbol_size:
  assumes "encoder_new rq data c = Inr enc" "config_new ssz = Inr c"
  shows "m_symbol_size (enc_meta enc) = ssz"
proof -
  obtain mtu where mtu: "config_mtu c = Inr mtu" using config_mtu_ok [OF assms(2)] by blast
  obtain oti bs where "rq_encode rq data mtu = (oti, bs)" by fastforce
  with mtu assms show ?thesis by (auto simp: encoder_new_def from_encoder_def config_new_Inr Let_def split: if_splits)
qed

text \<open>The session a constructor wraps.\<close>

lemma wasm_sender_new_inner:
  assumes "wasm_sender_new rq payload lo hi red ssz name orig crc tag = Inr w"
  shows "sender_new rq payload (join_session_id lo hi) \<lparr>sc_codec = \<lparr>cfg_symbol_size = ssz\<rparr>, sc_redundancy_pct = red\<rparr>
      (wasm_file_meta payload name orig crc tag) = Inr (ws_inner w)"
    "ws_qr_scratch w = replicate QR_SCRATCH_BYTES 0" "config_new ssz = Inr \<lparr>cfg_symbol_size = ssz\<rparr>"
  using assms by (auto simp: wasm_sender_new_def config_new_Inr)

text \<open>The calls of a fresh session: each emits a frame of the symbol size plus 64 bytes.\<close>

lemma session_frame:
  assumes up: "upstream_ok rq" and new: "wasm_sender_new rq payload lo hi red ssz name orig fcrc tag = Inr w"
    and pad: "length (pad_to_symbols payload \<lparr>cfg_symbol_size = ssz\<rparr>) \<le> 33554432" and i: "i < 16720813"
  obtains f where "next_frame rq crc (clock i) (fst (emit_n rq crc clock i (ws_inner w))) =
      (fst (emit_n rq crc clock (Suc i) (ws_inner w)), Inr f)"
    "length (frame_to_bytes f) = unat ssz + 64"
proof -
  note W = wasm_sender_new_inner [OF new]
  have len: "length (pad_to_symbols payload (sc_codec \<lparr>sc_codec = \<lparr>cfg_symbol_size = ssz\<rparr>, sc_redundancy_pct = red\<rparr>)) \<le> 33554432"
    using pad by simp
  note N = sender_new_inv [OF up W(1) len]
  obtain s rs where e: "emit_n rq crc clock (Suc i) (ws_inner w) = (s, rs)" by fastforce
  from emit_n_schedule [OF up N(1,2) len N(4,5,7) _ e] i
  have sch: "scheduled rq crc (ws_inner w) i (rs ! i)" "length rs = Suc i" by auto
  obtain s1 rs1 r1 where e1: "emit_n rq crc clock i (ws_inner w) = (s1, rs1)" "next_frame rq crc (clock i) s1 = (s, r1)"
    "rs = rs1 @ [r1]" using e by (auto split: prod.splits)
  then have "rs ! i = r1" using sch(2) by (simp add: nth_append)
  with sch(1) obtain f where f: "r1 = Inr f" "sent_frame rq crc (ws_inner w) f" by (auto simp: scheduled_def)
  have "sn_meta (ws_inner w) = enc_meta (sn_encoder (ws_inner w))"
    "encoder_new rq (pad_to_symbols payload \<lparr>cfg_symbol_size = ssz\<rparr>) \<lparr>cfg_symbol_size = ssz\<rparr> = Inr (sn_encoder (ws_inner w))"
    using N(1,9) by (simp_all add: sender_inv_def sender_static_def)
  then have "m_symbol_size (sn_meta (ws_inner w)) = ssz" using encoder_symbol_size [OF _ W(3)] by simp
  then have "length (frame_to_bytes f) = unat ssz + 64"
    using f(2) frame_to_bytes_length [of crc f]
    by (simp add: sent_frame_def wire_size_def FRAME_HEADER_SIZE_def FRAME_FOOTER_SIZE_def)
  with that [of f] e e1 f(1) show thesis by simp
qed


section \<open>Receiving\<close>

lemma join_split [simp]: "join_session_id (ucast sid) (ucast (drop_bit 64 sid)) = sid"
  by (rule bit_word_eqI) (auto simp: join_session_id_def bit_simps)

lemma join_parts [simp]: "ucast (join_session_id lo hi) = lo" "ucast (drop_bit 64 (join_session_id lo hi)) = hi"
  by (rule bit_word_eqI; auto simp: join_session_id_def bit_simps dest: bit_imp_le_length)+

lemma wasm_ingest_valid:
  "frame_from_bytes crc bs = Inr f \<Longrightarrow> fst (wasm_ingest rq crc ord bs s) = fst (ingest rq ord f s)"
  by (simp add: wasm_ingest_def ingest_packed_def Let_def)

text \<open>A frame a receiver can start from.\<close>

definition starts_session :: "('e, 'd) raptorq \<Rightarrow> (bytes \<Rightarrow> u32) \<Rightarrow> bytes \<Rightarrow> frame \<Rightarrow> descriptor_info \<Rightarrow> bool" where
  "starts_session rq crc bs f info \<longleftrightarrow>
     frame_from_bytes crc bs = Inr f \<and> fh_flags (fr_header f) AND FLAG_DESCRIPTOR \<noteq> 0 \<and>
     parse_payload (fr_payload f) = Some info \<and> \<not> descriptor_rejected rq f info"

lemma new_pending_id [simp]: "rx_session_id (new_pending sid) = sid"
  by (simp add: new_pending_def receiver_build_def)

lemma first_descriptor:
  fixes rq :: "('e, 'd) raptorq"
  assumes ord: "\<And>xs. mset (ord xs) = mset xs" and fl: "fh_flags (fr_header f) AND FLAG_DESCRIPTOR \<noteq> 0"
    and s: "s = fst (ingest rq ord f (new_pending (fh_session_id (fr_header f))))"
  shows "rx_session_id s = fh_session_id (fr_header f)"
    "case parse_payload (fr_payload f) of
       Some info \<Rightarrow> if descriptor_rejected rq f info then \<not> rx_meta_confirmed s
         else rx_meta_confirmed s \<and> rx_meta s = Some (di_meta info) \<and> rx_file_meta s = di_file_meta info \<and>
           rx_segment_meta s = di_segment info
     | None \<Rightarrow> \<not> rx_meta_confirmed s"
proof -
  let ?s0 = "begin_frame (new_pending (fh_session_id (fr_header f))) :: 'd receiver"
  have p: "rx_meta ?s0 = None" "rx_session_id ?s0 = fh_session_id (fr_header f)"
    by (simp_all add: begin_frame_def new_pending_def receiver_build_def)
  obtain r where i: "ingest_descriptor rq ord f ?s0 = (s, r)"
    using fl by (cases "ingest_descriptor rq ord f ?s0") (simp add: s ingest_def Let_def)
  note D = ingest_descriptor_step [OF rx_inv_counters(3) [OF rx_inv_new_pending] ord i]
  then show "rx_session_id s = fh_session_id (fr_header f)" using p(2) by (simp add: keeps_def)
  show "case parse_payload (fr_payload f) of
       Some info \<Rightarrow> if descriptor_rejected rq f info then \<not> rx_meta_confirmed s
         else rx_meta_confirmed s \<and> rx_meta s = Some (di_meta info) \<and> rx_file_meta s = di_file_meta info \<and>
           rx_segment_meta s = di_segment info
     | None \<Rightarrow> \<not> rx_meta_confirmed s"
    using D p(1) by (auto simp: adopts_def rx_inv_def split: option.splits if_splits)
qed

text \<open>
  A browser receiver starts exactly from an acceptable descriptor.  The constructor succeeds
  if and only if the bytes are a valid frame with the descriptor flag whose payload parses and
  passes the gate; the session then has that frame's id and the descriptor's object, file and
  segment metadata.
\<close>

lemma from_descriptor_exact:
  fixes rq :: "('e, 'd) raptorq"
  assumes "\<And>xs. mset (ord xs) = mset xs"
  shows "case wasm_from_descriptor rq crc ord bs of
      Inl e \<Rightarrow> \<not> (\<exists>f info. starts_session rq crc bs f info)
    | Inr r \<Rightarrow> \<exists>f info. starts_session rq crc bs f info \<and>
        join_session_id (wasm_session_id_lo r) (wasm_session_id_hi r) = fh_session_id (fr_header f) \<and>
        wasm_meta_confirmed r \<and> rx_meta r = Some (di_meta info) \<and> rx_file_meta r = di_file_meta info \<and>
        rx_segment_meta r = di_segment info"
proof (cases "frame_from_bytes crc bs")
  case (Inl e)
  then show ?thesis by (simp add: wasm_from_descriptor_def starts_session_def)
next
  case (Inr f)
  show ?thesis
  proof (cases "fh_flags (fr_header f) AND FLAG_DESCRIPTOR = 0")
    case True
    with Inr show ?thesis by (simp add: wasm_from_descriptor_def starts_session_def)
  next
    case False
    note F = first_descriptor [where rq = rq, OF assms False refl]
    from F(2) False Inr show ?thesis
      by (auto simp: wasm_from_descriptor_def starts_session_def wasm_receiver_new_def wasm_ingest_valid [OF Inr]
          wasm_session_id_lo_def wasm_session_id_hi_def wasm_meta_confirmed_def F(1) Let_def
          split: option.splits if_splits)
  qed
qed

text \<open>What a page does: show frames, and feed the bytes it reads.\<close>

fun show_frames ::
  "('e, 'd) raptorq \<Rightarrow> (bytes \<Rightarrow> u32) \<Rightarrow> clock list \<Rightarrow> 'e wasm_sender \<Rightarrow> 'e wasm_sender \<times> (bytes, js_error) result list" where
  "show_frames rq crc [] w = (w, [])"
| "show_frames rq crc (c # cs) w =
     (case wasm_next_frame rq crc c w of
        (w1, r) \<Rightarrow> (case show_frames rq crc cs w1 of (w2, rs) \<Rightarrow> (w2, r # rs)))"

fun read_frames ::
  "('e, 'd) raptorq \<Rightarrow> (bytes \<Rightarrow> u32) \<Rightarrow> (symbol_cache \<Rightarrow> symbol_cache) \<Rightarrow> bytes list \<Rightarrow> 'd receiver \<Rightarrow> 'd receiver" where
  "read_frames rq crc ord [] s = s"
| "read_frames rq crc ord (bs # bss) s = read_frames rq crc ord bss (fst (wasm_ingest rq crc ord bs s))"

lemma show_frames_emit:
  "emit_n rq crc clock n (ws_inner w) = (s, map Inr fs) \<Longrightarrow>
   show_frames rq crc (map clock [0..<n]) w = (w\<lparr>ws_inner := s\<rparr>, map (\<lambda>f. Inr (frame_to_bytes f)) fs)"
proof (induction n arbitrary: clock w fs)
  case (Suc n)
  have m: "map clock [0..<Suc n] = clock 0 # map (\<lambda>i. clock (Suc i)) [0..<n]" by (simp add: map_upt_Suc del: upt_Suc)
  from Suc.prems obtain s1 f fs' where f: "next_frame rq crc (clock 0) (ws_inner w) = (s1, Inr f)"
    "emit_n rq crc (\<lambda>i. clock (Suc i)) n s1 = (s, map Inr fs')" "fs = f # fs'"
    by (auto simp: emit_n_first simp del: emit_n.simps(2) split: prod.splits)
  with Suc.IH [of "\<lambda>i. clock (Suc i)" "w\<lparr>ws_inner := s1\<rparr>" fs'] show ?case
    unfolding m by (simp add: wasm_next_frame_def)
qed simp

lemma read_frames_all:
  "(\<And>f. f \<in> set fs \<Longrightarrow> frame_valid crc f) \<Longrightarrow>
   read_frames rq crc ord (map frame_to_bytes fs) s = ingest_all rq ord s fs"
proof (induction fs arbitrary: s)
  case (Cons f fs)
  then have "frame_from_bytes crc (frame_to_bytes f) = Inr f" by (intro from_to_bytes) simp
  with Cons show ?case by (simp add: wasm_ingest_valid)
qed simp

text \<open>
  C10: from browser to browser.  A session made by the constructor shows \<open>n\<close> frames, enough for its
  source symbols; a receiver made from the first of them reads the others; it is complete, has
  the sender's session id, sizes, checksum and compression tag, and \<open>assemble_raw\<close> yields exactly
  the payload.
\<close>

theorem browser_transfer:
  fixes rq :: "('e, 'd) raptorq"
  assumes "upstream_ok rq" "\<And>xs. mset (ord xs) = mset xs"
    and "wasm_sender_new rq payload lo hi red ssz name orig fcrc tag = Inr w"
    and "length (pad_to_symbols payload \<lparr>cfg_symbol_size = ssz\<rparr>) \<le> 33554432" "announce_ok (ws_inner w)"
    and "n \<le> 16720813" "sum_symbols (m_blocks (sn_meta (ws_inner w))) \<le> n - descriptors_before n"
    and "show_frames rq crc (map clock [0..<n]) w = (w', rs)"
  shows "\<exists>first rest r0. rs = map Inr (first # rest) \<and> wasm_from_descriptor rq crc ord first = Inr r0 \<and>
    (let r = read_frames rq crc ord rest (r0 :: 'd receiver) in
     wasm_is_complete r \<and> wasm_assemble_raw r = payload \<and> wasm_session_id_lo r = lo \<and> wasm_session_id_hi r = hi \<and>
     wasm_original_size r = orig \<and> wasm_crc32 r = fcrc \<and> wasm_compression r = tag \<and> \<not> wasm_is_segmented r)"
proof -
  let ?cfg = "\<lparr>sc_codec = \<lparr>cfg_symbol_size = ssz\<rparr>, sc_redundancy_pct = red\<rparr>"
  note W = wasm_sender_new_inner [OF assms(3)]
  have len: "length (pad_to_symbols payload (sc_codec ?cfg)) \<le> 33554432" using assms(4) by simp
  note N = sender_new_inv [OF assms(1) W(1) len]
  let ?s = "ws_inner w" and ?sid = "join_session_id lo hi"
  obtain s' rs0 where e: "emit_n rq crc clock n ?s = (s', rs0)" by fastforce
  obtain fs ss where fs: "rs0 = map Inr fs" "fs \<noteq> []" "\<And>f. f \<in> set fs \<Longrightarrow> sent_frame rq crc ?s f"
    "watching rq ?s ss (ingest_all rq ord (new_pending (sn_session_id ?s)) fs)"
    "receiver_is_complete (ingest_all rq ord (new_pending (sn_session_id ?s)) fs :: 'd receiver)"
    "assemble_raw (ingest_all rq ord (new_pending (sn_session_id ?s)) fs) = Some (pad_to_symbols payload (sc_codec ?cfg))"
    using session_lossless [OF assms(1) N(1,2) len assms(5) N(4,5,7) assms(2,6,7) e] by metis
  obtain d post where d: "fs = d # post" using fs(2) by (cases fs) auto
  have "0 < n" using e fs(1,2) by (cases n) auto
  from emit_n_schedule [OF assms(1) N(1,2) len N(4,5,7) assms(6) e] have "scheduled rq crc ?s 0 (rs0 ! 0)"
    using \<open>0 < n\<close> by blast
  then have nd: "\<not> is_data d" by (simp add: scheduled_def fs(1) d)
  have sd: "sent_frame rq crc ?s d" using fs(3) d by simp
  have st: "sender_static rq (pad_to_symbols payload (sc_codec ?cfg)) ?s"
    using N(1) by (simp add: sender_inv_def)
  note D = sent_descriptor [OF assms(1) st N(2) len assms(5) sd nd]
  have pd: "frame_from_bytes crc (frame_to_bytes d) = Inr d" using sd by (intro from_to_bytes) (simp add: sent_frame_def)
  have sid: "fh_session_id (fr_header d) = ?sid" using sd N(3) by (simp add: sent_frame_def)
  let ?start = "fst (ingest rq ord d (new_pending ?sid)) :: 'd receiver"
  have fl: "fh_flags (fr_header d) AND FLAG_DESCRIPTOR \<noteq> 0" using D by (simp add: FLAG_DESCRIPTOR_def)
  have "rx_meta_confirmed ?start" using first_descriptor(2) [where rq = rq, OF assms(2) fl refl] D by (simp add: sid)
  then have r0: "wasm_from_descriptor rq crc ord (frame_to_bytes d) = Inr ?start"
    using fl by (simp add: wasm_from_descriptor_def pd wasm_receiver_new_def wasm_ingest_valid [OF pd] sid Let_def)
  have rs: "rs = map Inr (map frame_to_bytes fs)"
    using show_frames_emit [OF e [unfolded fs(1)]] assms(8) by simp
  have rd: "read_frames rq crc ord (map frame_to_bytes post) ?start = ingest_all rq ord (new_pending ?sid) fs"
    using read_frames_all [of post crc rq ord ?start] fs(3) d by (simp add: sent_frame_def)
  let ?r = "ingest_all rq ord (new_pending ?sid) fs :: 'd receiver"
  have w: "watching rq ?s ss ?r" "receiver_is_complete ?r" "assemble_raw ?r = Some (pad_to_symbols payload \<lparr>cfg_symbol_size = ssz\<rparr>)"
    using fs(4-6) N(3) by simp_all
  have fm: "rx_file_meta ?r = di_file_meta (announced ?s)" "rx_segment_meta ?r = None" "rx_session_id ?r = ?sid"
    using watching_header [OF w(1,3)] N(3,6) by simp_all
  have lp: "length payload \<le> length (pad_to_symbols payload \<lparr>cfg_symbol_size = ssz\<rparr>)" by (rule length_pad_ge)
  have u: "unat (of_nat (length payload) :: u64) = length payload" using lp assms(4) by (intro unat_of_nat_len) simp
  have tr: "trim_transmitted (rx_file_meta ?r) (pad_to_symbols payload \<lparr>cfg_symbol_size = ssz\<rparr>) = payload"
    using lp by (simp add: trim_transmitted_def fm announced_def sent_file_meta_def N(8) wasm_file_meta_def try_from_def u)
  show ?thesis
  proof (rule exI [of _ "frame_to_bytes d"], rule exI [of _ "map frame_to_bytes post"], rule exI [of _ ?start],
      unfold Let_def rd, intro conjI)
    show "rs = map Inr (frame_to_bytes d # map frame_to_bytes post)" by (simp add: rs d)
    show "wasm_assemble_raw ?r = payload" using w(3) tr by (simp add: wasm_assemble_raw_def)
  qed (use w(2) in \<open>simp_all add: r0 fm N(8) wasm_is_complete_def wasm_session_id_lo_def wasm_session_id_hi_def
        wasm_original_size_def wasm_crc32_def wasm_compression_def wasm_is_segmented_def announced_def sent_file_meta_def
        wasm_file_meta_def\<close>)
qed

end
