(* ===== verification/Browser_Demo.thy ===== *)
theory Browser_Demo
  imports Browser_Props End_To_End_Demo
begin

text \<open>The witnesses of the browser interface: the demonstration session behind the constructor, and
  the vendored generator with a drawing of dark modules only.\<close>

definition demo_build :: generator where
  "demo_build = fast_qr_build (\<lambda>data mode v. replicate (177 * 177) True)"

definition demo_browser :: "ref_enc wasm_sender" where
  "demo_browser = \<lparr>ws_inner = demo_sender, ws_qr_scratch = replicate QR_SCRATCH_BYTES 0\<rparr>"

lemma demo_generator: "generator_ok demo_build" "generator_complete demo_build"
  unfolding demo_build_def by (rule fast_qr_generator, simp only: length_replicate) (rule fast_qr_complete)

lemma demo_browser_new:
  "wasm_sender_new ref_rq [1, 2, 3] 7 0 25 72 (fm_filename demo_file) 3 9 0 = Inr demo_browser"
proof -
  have c: "config_new 72 = Inr \<lparr>cfg_symbol_size = 72\<rparr>"
    by (simp add: config_new_def MIN_SYMBOL_SIZE_def MAX_SYMBOL_SIZE_def)
  have "wasm_file_meta [1, 2, 3] (fm_filename demo_file) 3 9 0 = demo_file"
    by (simp add: wasm_file_meta_def demo_file_def)
  moreover have "join_session_id 7 0 = 7" by (simp add: join_session_id_def)
  ultimately show ?thesis using demo_sender_new
    by (simp add: wasm_sender_new_def c sent_config_def demo_browser_def)
qed

lemma demo_browser_len: "length (pad_to_symbols [1, 2, 3] \<lparr>cfg_symbol_size = 72\<rparr>) \<le> 33554432"
  using sent_len by (simp add: sent_config_def)

lemma demo_inner [simp]: "ws_inner demo_browser = demo_sender" "ws_qr_scratch demo_browser = replicate QR_SCRATCH_BYTES 0"
  by (simp_all add: demo_browser_def)

lemma two_codes:
  assumes "next_codes ref_rq crc demo_build (map clock [0..<2]) demo_sender = (s', ms, e)"
  shows "e = None \<and> length ms = 2"
proof (rule ccontr)
  assume n: "\<not> (e = None \<and> length ms = 2)"
  have "e \<noteq> None" "length ms < 2" using n next_codes_count [OF assms] by auto
  from codes_of_frames [OF assms] obtain fs sk where
    k: "emit_n ref_rq crc clock (length ms) demo_sender = (sk, map Inr fs)"
      "case e of None \<Rightarrow> s' = sk | Some err \<Rightarrow> next_code ref_rq crc demo_build (clock (length ms)) sk = (s', Inl err)"
    by blast
  have "length ms < 16720813" using \<open>length ms < 2\<close> by simp
  then obtain f where f: "next_frame ref_rq crc (clock (length ms)) sk =
      (fst (emit_n ref_rq crc clock (Suc (length ms)) demo_sender), Inr f)" "length (frame_to_bytes f) = 72 + 64"
    using session_frame [OF ref_upstream demo_browser_new demo_browser_len, of "length ms" crc clock] k(1)
    by (auto simp del: emit_n.simps)
  with qr_encode_total [OF demo_generator(2), of "frame_to_bytes f"] k(2) \<open>e \<noteq> None\<close>
  show False by (auto simp: next_code_def simp del: emit_n.simps)
qed

lemma demo_two: "unat (min 2 (8 :: u32)) = 2" "unat (2 :: u32) = 2"
  by (simp_all add: min_def word_le_nat_alt)

lemma demo_multi:
  obtains w1 out codes where "wasm_next_qr_multi ref_rq crc demo_build clock demo_browser 2 = (w1, out)"
    "parse_codes out = Some (codes, [])" "length codes = 2"
proof -
  obtain s' ms e where c: "next_codes ref_rq crc demo_build (map clock [0..<unat (min 2 (8 :: u32))]) (ws_inner demo_browser) = (s', ms, e)"
    by (metis prod_cases3)
  have "length (map clock [0..<unat (min 2 (8 :: u32))]) < 2 ^ 32" by (simp add: demo_two)
  from parse_layout [OF demo_generator(1) c this, of "[]"] next_qr_multi_codes [OF c] two_codes [of crc clock s' ms e] c
  show thesis by (intro that [of "demo_browser\<lparr>ws_inner := s'\<rparr>" "layout ms"]) (auto simp: demo_two)
qed

lemma browser_codes_exact_witness:
  "\<exists>w w' out codes. wasm_sender_new ref_rq [1, 2, 3] 7 0 25 72 (fm_filename demo_file) 3 9 0 = Inr w \<and>
     wasm_next_qr_multi ref_rq (\<lambda>_. 5) demo_build (\<lambda>_. (1, 2, 3)) w 2 = (w', out) \<and>
     parse_codes out = Some (codes, []) \<and> length codes = 2"
proof -
  obtain w1 out codes where m: "wasm_next_qr_multi ref_rq (\<lambda>_. 5) demo_build (\<lambda>_. (1, 2, 3)) demo_browser 2 = (w1, out)"
    "parse_codes out = Some (codes, [])" "length codes = 2" by (rule demo_multi)
  from browser_codes_exact [OF demo_generator(1) m(1)] m demo_browser_new show ?thesis by blast
qed

lemma browser_buffers_agree_witness:
  "\<exists>w1 out w2. wasm_next_qr_multi ref_rq (\<lambda>_. 5) demo_build (\<lambda>_. (1, 2, 3)) demo_browser 2 = (w1, out) \<and>
     wasm_next_qr_scratch ref_rq (\<lambda>_. 5) demo_build (\<lambda>_. (1, 2, 3)) demo_browser 2 = (w2, Inr (of_nat (length out))) \<and>
     take (length out) (wasm_qr_scratch_view w2) = out \<and>
     wasm_next_qr_multi_into ref_rq (\<lambda>_. 5) demo_build (\<lambda>_. (1, 2, 3)) demo_browser 2 (replicate 62670 7) =
       (w1, out @ drop (length out) (replicate 62670 7), Inr (of_nat (length out)))"
proof -
  obtain w1 out codes where m: "wasm_next_qr_multi ref_rq (\<lambda>_. 5) demo_build (\<lambda>_. (1, 2, 3)) demo_browser 2 = (w1, out)"
    "parse_codes out = Some (codes, [])" "length codes = 2" by (rule demo_multi)
  obtain w2 r where s: "wasm_next_qr_scratch ref_rq (\<lambda>_. 5) demo_build (\<lambda>_. (1, 2, 3)) demo_browser 2 = (w2, r)" by fastforce
  have b: "4 + unat (min 2 (8 :: u32)) * (4 + MAX_QR_MODULES) \<le> length (replicate 62670 (7 :: u8))"
    unfolding length_replicate demo_two by (simp add: MAX_QR_MODULES_def MAX_QR_SIDE_def)
  have l: "length (ws_qr_scratch demo_browser) = QR_SCRATCH_BYTES" by simp
  have two: "max 1 (min 2 4) = (2 :: u32)" by simp
  from browser_buffers_agree [OF demo_generator(1) m(1) b l s, unfolded two, OF m(1)] m s
  show ?thesis by (intro exI [of _ w1] exI [of _ out] exI [of _ w2]) (simp add: demo_two)
qed


lemma from_descriptor_exact_witness:
  "\<exists>bs r. wasm_from_descriptor ref_rq (\<lambda>_. 5) (\<lambda>c. c) bs = Inr r \<and> rx_meta r = Some demo_desc_meta"
proof -
  obtain d f s' where d: "sent_frame ref_rq (\<lambda>_. 5) demo_sender d" "\<not> is_data d"
    using demo_frames by metis
  note N = sender_new_inv [OF ref_upstream demo_sender_new sent_len]
  then have st: "sender_static ref_rq (pad_to_symbols [1, 2, 3] (sc_codec sent_config)) demo_sender"
    by (simp add: sender_inv_def)
  note D = sent_descriptor [OF ref_upstream st N(2) sent_len demo_announce d]
  have p: "frame_from_bytes (\<lambda>_. 5) (frame_to_bytes d) = Inr d"
    using d(1) by (intro from_to_bytes) (simp add: sent_frame_def)
  have "starts_session ref_rq (\<lambda>_. 5) (frame_to_bytes d) d (announced demo_sender)"
    using D p by (simp add: starts_session_def FLAG_DESCRIPTOR_def)
  with from_descriptor_exact [where rq = ref_rq and crc = "\<lambda>_. 5" and ord = "\<lambda>c. c" and bs = "frame_to_bytes d", OF refl]
  obtain r where "wasm_from_descriptor ref_rq (\<lambda>_. 5) (\<lambda>c. c) (frame_to_bytes d) = Inr r"
    "rx_meta r = Some (di_meta (announced demo_sender))"
    by (auto simp: starts_session_def split: sum.splits)
  then show ?thesis by (auto simp: announced_def demo_sender_def)
qed

lemma browser_transfer_witness:
  "\<exists>first rest r0. wasm_from_descriptor ref_rq (\<lambda>_. 5) (\<lambda>c. c) first = Inr r0 \<and>
     snd (show_frames ref_rq (\<lambda>_. 5) (map (\<lambda>_. (1, 2, 3)) [0..<2]) demo_browser) = map Inr (first # rest) \<and>
     wasm_assemble_raw (read_frames ref_rq (\<lambda>_. 5) (\<lambda>c. c) rest r0) = [1, 2, 3]"
proof -
  obtain w' rs where s: "show_frames ref_rq (\<lambda>_. 5) (map (\<lambda>_. (1, 2, 3)) [0..<2]) demo_browser = (w', rs)" by fastforce
  have a: "announce_ok (ws_inner demo_browser)" using demo_announce by simp
  have n: "(2 :: nat) \<le> 16720813" "sum_symbols (m_blocks (sn_meta (ws_inner demo_browser))) \<le> 2 - descriptors_before 2"
    using demo_enough by simp_all
  from browser_transfer [where ord = "\<lambda>c. c", OF ref_upstream refl demo_browser_new demo_browser_len a n s] s
  show ?thesis by (auto simp: Let_def)
qed

end
