(* ===== verification/Jni.thy ===== *)
theory Jni
  imports Cffi
begin

text \<open>
  The Android interface, \<open>core/transfer-engine/src/jni.rs\<close>.  Java's \<open>int\<close> and \<open>long\<close> are words of 32 and
  64 bits that the host reads as signed (\<open>sint\<close>).  A handle is the boxed session or 0 (\<open>None\<close>); an
  array or string that is returned is its contents or null (\<open>None\<close>).  What the Java
  environment may refuse is a parameter: allocating an array of some length, filling it,
  making a string, reading the length and the contents of an array.  Arguments that fail to convert are \<open>None\<close>.  The progress text is in \<open>Progress_Text\<close>; the log is left out.
\<close>

type_synonym jint = "32 word"
type_synonym jlong = "64 word"
type_synonym jboolean = "8 word"

record jni_env =
  jv_new_byte_array :: "jint \<Rightarrow> bool"
  jv_set_region :: "bytes \<Rightarrow> bool"
  jv_new_string :: "bytes \<Rightarrow> bool"
  jv_get_length :: "bytes \<Rightarrow> bool"
  jv_get_region :: "bytes \<Rightarrow> bool"

definition AIRFERRY_NATIVE_ABI_VERSION :: jint where "AIRFERRY_NATIVE_ABI_VERSION = 1"

definition jni_native_abi_version :: jint where
  "jni_native_abi_version = AIRFERRY_NATIVE_ABI_VERSION"

definition jni_receiver_create :: "jlong \<Rightarrow> jlong \<Rightarrow> jint \<Rightarrow> jint \<Rightarrow> jint \<Rightarrow> 'd receiver option" where
  "jni_receiver_create session_id_lo session_id_hi blocks_hint symbols_hint size_hint =
     Some (new_pending (push_bit 64 (ucast session_id_hi) OR ucast session_id_lo))"

definition jni_ingest ::
  "('e, 'd) raptorq \<Rightarrow> (bytes \<Rightarrow> u32) \<Rightarrow> (symbol_cache \<Rightarrow> symbol_cache) \<Rightarrow> 'd receiver option \<Rightarrow> bytes option \<Rightarrow>
   'd receiver option \<times> jlong" where
  "jni_ingest rq crc ord h frame_bytes =
     (case h of
        None \<Rightarrow> (None, 0)
      | Some s \<Rightarrow>
          (case frame_bytes of
             None \<Rightarrow> (h, INGEST_ERROR)
           | Some bs \<Rightarrow>
               (case frame_from_bytes crc bs of
                  Inl _ \<Rightarrow> (h, INGEST_ERROR)
                | Inr f \<Rightarrow>
                    (let prev_received = pg_received_symbols (receiver_progress s);
                         s' = fst (ingest rq ord f s);
                         p = receiver_progress s';
                         complete = (if receiver_is_complete s' then 1 else 0) :: int;
                         accepted = (if prev_received < pg_received_symbols p then 1 else 0) :: int
                     in (Some s', pack (complete = 1) (accepted = 1)
                           (pg_session_mismatch_streak p) (pg_received_symbols p))))))"

text \<open>The empty array is the answer when there is nothing to return.\<close>

definition null_byte_array :: "jni_env \<Rightarrow> bytes option" where
  "null_byte_array env = (if jv_new_byte_array env 0 then Some [] else None)"

text \<open>\<open>jsize::try_from(len)\<close>: lengths up to \<open>2 ^ 31 - 1\<close>.\<close>

definition jsize_of :: "nat \<Rightarrow> jint option" where
  "jsize_of n = (if n < 2 ^ 31 then Some (of_nat n) else None)"

text \<open>The common end of the functions that return bytes.\<close>

definition return_bytes :: "jni_env \<Rightarrow> bytes \<Rightarrow> bytes option" where
  "return_bytes env data =
     (case jsize_of (length data) of
        None \<Rightarrow> null_byte_array env
      | Some len \<Rightarrow>
          if \<not> jv_new_byte_array env len then null_byte_array env
          else if jv_set_region env data then Some data
          else null_byte_array env)"

definition jni_is_complete :: "'d receiver option \<Rightarrow> jint" where
  "jni_is_complete h = (case h of None \<Rightarrow> 0 | Some s \<Rightarrow> if receiver_is_complete s then 1 else 0)"

definition jni_assemble_bytes ::
  "codecs \<Rightarrow> jni_env \<Rightarrow> 'd receiver option \<Rightarrow> 'd receiver option \<times> bytes option" where
  "jni_assemble_bytes cx env h =
     (case h of
        None \<Rightarrow> (None, null_byte_array env)
      | Some s \<Rightarrow> (case assemble_result cx s of
          (s', Inr (Some d)) \<Rightarrow> (Some s', return_bytes env d)
        | (s', Inr None) \<Rightarrow> (Some s', null_byte_array env)
        | (s', Inl _) \<Rightarrow> (Some s', null_byte_array env)))"

definition jni_assemble_raw_bytes :: "jni_env \<Rightarrow> 'd receiver option \<Rightarrow> bytes option" where
  "jni_assemble_raw_bytes env h =
     (case h of
        None \<Rightarrow> null_byte_array env
      | Some s \<Rightarrow> (case assemble_raw s of
          None \<Rightarrow> null_byte_array env
        | Some raw \<Rightarrow> return_bytes env (trim_transmitted (rx_file_meta s) raw)))"

definition jni_compression :: "'d receiver option \<Rightarrow> jint" where
  "jni_compression h = (case h of None \<Rightarrow> 0 | Some s \<Rightarrow> ucast (fm_compression (rx_file_meta s)))"

definition jni_compressed_size :: "'d receiver option \<Rightarrow> jlong" where
  "jni_compressed_size h = (case h of None \<Rightarrow> 0 | Some s \<Rightarrow> fm_compressed_size (rx_file_meta s))"

definition jni_original_size :: "'d receiver option \<Rightarrow> jlong" where
  "jni_original_size h = (case h of None \<Rightarrow> 0 | Some s \<Rightarrow> fm_original_size (rx_file_meta s))"

definition jni_decompress_bytes ::
  "codecs \<Rightarrow> jni_env \<Rightarrow> bytes option \<Rightarrow> jint \<Rightarrow> jlong \<Rightarrow> bytes option" where
  "jni_decompress_bytes cx env data compression max_output =
     (case data of
        None \<Rightarrow> null_byte_array env
      | Some arr \<Rightarrow>
          if \<not> jv_get_length env arr then null_byte_array env
          else if sint (of_nat (length arr) :: jint) < 0 then null_byte_array env
          else if \<not> jv_get_region env arr then null_byte_array env
          else
            let max_out = (if 0 < sint max_output then unat (min max_output MAX_ORIGINAL_BYTES) else 0) in
            (case decompress_with_limit cx arr (ucast compression) max_out of
               Inl _ \<Rightarrow> null_byte_array env
             | Inr out \<Rightarrow> return_bytes env out))"

definition jni_file_name :: "jni_env \<Rightarrow> 'd receiver option \<Rightarrow> bytes option" where
  "jni_file_name env h =
     (case h of None \<Rightarrow> None
      | Some s \<Rightarrow> (let name = fm_filename (rx_file_meta s) in if jv_new_string env name then Some name else None))"

definition jni_file_size :: "'d receiver option \<Rightarrow> jlong" where
  "jni_file_size h = (case h of None \<Rightarrow> 0 | Some s \<Rightarrow> fm_original_size (rx_file_meta s))"

definition jni_crc32 :: "'d receiver option \<Rightarrow> jlong" where
  "jni_crc32 h = (case h of None \<Rightarrow> 0 | Some s \<Rightarrow> ucast (fm_crc32 (rx_file_meta s)))"

definition jni_crc32_known :: "'d receiver option \<Rightarrow> jint" where
  "jni_crc32_known h = (case h of None \<Rightarrow> 0 | Some s \<Rightarrow> if fm_crc32_known (rx_file_meta s) then 1 else 0)"

definition jni_is_segmented :: "'d receiver option \<Rightarrow> jint" where
  "jni_is_segmented h = (case h of None \<Rightarrow> 0 | Some s \<Rightarrow> if rx_segment_meta s \<noteq> None then 1 else 0)"

definition jni_segment_index :: "'d receiver option \<Rightarrow> jint" where
  "jni_segment_index h =
     (case h of None \<Rightarrow> 0 | Some s \<Rightarrow> (case map_option sg_segment_index (rx_segment_meta s) of Some v \<Rightarrow> v | None \<Rightarrow> 0))"

definition jni_segment_count :: "'d receiver option \<Rightarrow> jint" where
  "jni_segment_count h =
     (case h of None \<Rightarrow> 0 | Some s \<Rightarrow> (case map_option sg_segment_count (rx_segment_meta s) of Some v \<Rightarrow> v | None \<Rightarrow> 1))"

definition jni_root_original_size :: "'d receiver option \<Rightarrow> jlong" where
  "jni_root_original_size h =
     (case h of None \<Rightarrow> 0
      | Some s \<Rightarrow> (case map_option sg_root_original_size (rx_segment_meta s) of Some v \<Rightarrow> v | None \<Rightarrow> 0))"

definition jni_original_offset :: "'d receiver option \<Rightarrow> jlong" where
  "jni_original_offset h =
     (case h of None \<Rightarrow> 0
      | Some s \<Rightarrow> (case map_option sg_original_offset (rx_segment_meta s) of Some v \<Rightarrow> v | None \<Rightarrow> 0))"

definition jni_root_session_id_lo :: "'d receiver option \<Rightarrow> jlong" where
  "jni_root_session_id_lo h =
     (case h of None \<Rightarrow> 0
      | Some s \<Rightarrow> (case map_option (\<lambda>m. ucast (sg_root_session_id m)) (rx_segment_meta s) of Some v \<Rightarrow> v | None \<Rightarrow> 0))"

definition jni_root_session_id_hi :: "'d receiver option \<Rightarrow> jlong" where
  "jni_root_session_id_hi h =
     (case h of None \<Rightarrow> 0
      | Some s \<Rightarrow> (case map_option (\<lambda>m. ucast (drop_bit 64 (sg_root_session_id m))) (rx_segment_meta s) of
          Some v \<Rightarrow> v | None \<Rightarrow> 0))"

text \<open>\<open>byte_array_from_slice\<close> allocates and fills in one call.\<close>

definition byte_array_from_slice :: "jni_env \<Rightarrow> bytes \<Rightarrow> bytes option" where
  "byte_array_from_slice env bs =
     (if jv_new_byte_array env (of_nat (length bs)) \<and> jv_set_region env bs then Some bs else None)"

definition jni_raw_sha256 :: "jni_env \<Rightarrow> 'd receiver option \<Rightarrow> bytes option" where
  "jni_raw_sha256 env h =
     (case h of None \<Rightarrow> None
      | Some s \<Rightarrow> (case rx_segment_meta s of
          Some m \<Rightarrow> byte_array_from_slice env (sg_raw_sha256 m) | None \<Rightarrow> None))"

definition jni_root_sha256 :: "jni_env \<Rightarrow> 'd receiver option \<Rightarrow> bytes option" where
  "jni_root_sha256 env h =
     (case h of None \<Rightarrow> None
      | Some s \<Rightarrow> (case rx_segment_meta s of
          Some m \<Rightarrow> byte_array_from_slice env (sg_root_sha256 m) | None \<Rightarrow> None))"

text \<open>Messages are ASCII strings here; their bytes go to the environment.\<close>

definition jni_last_assemble_error :: "jni_env \<Rightarrow> 'd receiver option \<Rightarrow> string option" where
  "jni_last_assemble_error env h =
     (case h of None \<Rightarrow> None
      | Some s \<Rightarrow>
          (let msg = (case rx_last_assemble_error s of Some m \<Rightarrow> m | None \<Rightarrow> '''')
           in if jv_new_string env (map (\<lambda>c. of_nat (of_char c)) msg) then Some msg else None))"

definition jni_decompress_stream_to_file ::
  "codecs \<Rightarrow> (bytes \<Rightarrow> bytes \<Rightarrow> file_io) \<Rightarrow> bytes option \<Rightarrow> bytes option \<Rightarrow> jint \<Rightarrow> jlong \<Rightarrow> jlong \<Rightarrow> jlong \<Rightarrow>
   jboolean \<Rightarrow> bytes option \<Rightarrow> bytes option \<Rightarrow> jboolean \<times> bytes option" where
  "jni_decompress_stream_to_file cx io input_path output_path compression max_output expected_size
     expected_crc crc_known expected_sha_hex old =
     (case input_path of None \<Rightarrow> (0, old) | Some input \<Rightarrow>
     (case output_path of None \<Rightarrow> (0, old) | Some output \<Rightarrow>
     (case expected_sha_hex of None \<Rightarrow> (0, old) | Some expected_sha \<Rightarrow>
        let max_out = (if 0 < sint max_output then max_output else 0); fs = io input output in
        (case decompress_stream_to_file cx fs old (ucast compression) max_out of
           (Inl _, file) \<Rightarrow> (0, file)
         | (Inr outcome, file) \<Rightarrow>
             let removed = (if io_removable fs then None else file) in
             if so_output_size outcome \<noteq> expected_size then (0, removed)
             else if crc_known \<noteq> 0 \<and> so_crc32 outcome \<noteq> ucast expected_crc then (0, removed)
             else if \<not> eq_ignore_ascii_case (hex_string (so_sha256 outcome)) expected_sha then (0, removed)
             else (1, file)))))"

end
