(* ===== verification/Hosts.thy ===== *)
theory Hosts
  imports Jni Browser_Props
begin

text \<open>
  What a session tells about its file has passed the gate of \<open>ingest\<close>, in every reachable state, so that the
  numbers the gate bounds survive the signed types of a host; the others wrap around from \<open>2 ^ 63\<close> on.
\<close>

section \<open>What a session tells about its file has passed the gate\<close>

definition meta_gate :: "u128 \<Rightarrow> file_meta \<Rightarrow> segment_meta option \<Rightarrow> bool" where
  "meta_gate sid fm seg \<longleftrightarrow>
     is_known_compression_tag (fm_compression fm) \<and>
     (fm_compressed_size_known fm \<longrightarrow> unat (fm_compressed_size fm) \<le> 33554432) \<and>
     (case seg of None \<Rightarrow> unat (fm_original_size fm) \<le> 268435456 | Some sg \<Rightarrow> segment_ok sg sid fm)"

definition gated :: "'d receiver \<Rightarrow> bool" where
  "gated s \<longleftrightarrow> meta_gate (rx_session_id s) (rx_file_meta s) (rx_segment_meta s)"

lemma gated_header: "same_header s s' \<Longrightarrow> gated s \<Longrightarrow> gated s'"
  by (simp add: gated_def same_header_def)

lemma gated_build: "gated (receiver_build sid meta dec c)"
  by (simp add: gated_def meta_gate_def receiver_build_def file_meta_default_def is_known_compression_tag_def)

lemma gated_accepted:
  assumes "\<not> descriptor_rejected rq f info" "fh_session_id (fr_header f) = sid"
  shows "meta_gate sid (di_file_meta info) (di_segment info)"
proof -
  from assms have "is_ok (meta_validate rq (di_meta info))" "\<not> file_meta_invalid info" "\<not> segment_invalid f info"
    by (simp_all add: descriptor_rejected_def)
  moreover from this(1) have "unat (m_transfer_length (di_meta info)) \<le> 33554432"
    by (simp add: is_ok_iff meta_validate_iff meta_ok_def)
  ultimately show ?thesis using assms(2)
    by (auto simp: meta_gate_def file_meta_invalid_def segment_invalid_def Let_def MAX_ORIGINAL_BYTES_def
        is_ok_iff segment_validate_ok word_less_nat_alt not_less split: option.splits)
qed

text \<open>Building the decoder and replaying the cache do not touch the file metadata.\<close>

lemma replay_header: "replay_cache rq meta cache s = (s', r) \<Longrightarrow>
  rx_session_id s' = rx_session_id s \<and> rx_file_meta s' = rx_file_meta s \<and> rx_segment_meta s' = rx_segment_meta s"
proof (induction rq meta cache s rule: replay_cache.induct)
  case (2 rq meta sbn esi data rest s)
  then show ?case
    by (auto simp: count_corrupt_def mark_received_def Let_def split: if_splits sum.splits option.splits prod.splits)
qed simp

lemma apply_meta_header:
  assumes "apply_meta rq ord meta s = (s', r)"
  shows "rx_session_id s' = rx_session_id s \<and> rx_file_meta s' = rx_file_meta s \<and> rx_segment_meta s' = rx_segment_meta s"
proof (cases "decoder_new rq meta")
  case (Inl e)
  with assms show ?thesis by (simp add: apply_meta_def)
next
  case (Inr dec)
  obtain s2 r2 where "replay_cache rq meta (ord (rx_symbol_cache s)) (reset_for_meta meta dec s) = (s2, r2)" by fastforce
  with assms Inr replay_header [OF this] show ?thesis
    by (auto simp: apply_meta_def reset_for_meta_def refresh_decoded_counts_def split: sum.splits option.splits)
qed

lemma ingest_descriptor_gated:
  assumes g: "gated s" and id: "fh_session_id (fr_header f) = rx_session_id s" and i: "ingest_descriptor rq ord f s = (s', r)"
  shows "gated s'"
proof (cases "\<exists>info. parse_payload (fr_payload f) = Some info \<and> \<not> descriptor_rejected rq f info")
  case False
  with i g show ?thesis
    by (auto simp: ingest_descriptor_def finish_def count_corrupt_def gated_def split: option.splits if_splits)
next
  case True
  then obtain info where info: "parse_payload (fr_payload f) = Some info" "\<not> descriptor_rejected rq f info" by blast
  note G = gated_accepted [OF info(2) id]
  obtain s2 r2 where a: "apply_meta rq ord (di_meta info) s = (s2, r2)" by fastforce
  from i info g G a apply_meta_header [OF a] show ?thesis
    by (auto simp: ingest_descriptor_def finish_def count_corrupt_def adopt_descriptor_def gated_def
        split: option.splits if_splits sum.splits)
qed

lemma ingest_gated:
  assumes "gated s" "ingest rq ord f s = (s', r)"
  shows "gated s'"
proof -
  have b: "gated (begin_frame s)" using gated_header [OF same_header_steps(9) assms(1)] .
  consider (other) "fh_session_id (fr_header f) \<noteq> rx_session_id s"
    | (desc) "fh_session_id (fr_header f) = rx_session_id (begin_frame s)" "ingest_descriptor rq ord f (begin_frame s) = (s', r)"
    | (pend) "ingest_pending f (begin_frame s) = (s', r)"
    | (symb) "ingest_symbol rq f (begin_frame s) = (s', r)"
    using assms(2) by (auto simp: ingest_def Let_def begin_frame_def split: if_splits)
  then show ?thesis
  proof cases
    case other
    with assms show ?thesis by (auto simp: ingest_def gated_def Let_def)
  next
    case desc
    from ingest_descriptor_gated [OF b desc] show ?thesis .
  next
    case pend
    with b show ?thesis by (auto simp: ingest_pending_def gated_def count_corrupt_def count_duplicate_def Let_def split: if_splits)
  next
    case symb
    with b show ?thesis
      by (auto simp: ingest_symbol_def finish_def gated_def count_corrupt_def count_duplicate_def refresh_decoded_counts_def
          Let_def split: if_splits option.splits sum.splits prod.splits)
  qed
qed

lemma restore_symbol_gated: "gated s \<Longrightarrow> gated (restore_symbol rq s x)"
  by (auto simp: restore_symbol_def gated_def mark_received_def Let_def split: if_splits option.splits sum.splits prod.splits)

lemma restore_symbols_gated: "gated s \<Longrightarrow> gated (foldl (restore_symbol rq) s xs)"
  by (induction xs arbitrary: s) (simp_all add: restore_symbol_gated)

lemma restore_gated: "restore rq st = Inr s \<Longrightarrow> gated s"
proof -
  assume "restore rq st = Inr s"
  then obtain s0 where "new_confirmed rq (re_session_id st) (re_meta st) = Inr s0"
    and s: "s = refresh_decoded_counts (upd_progress (\<lambda>p. p\<lparr>pg_received_symbols :=
       sum_list (map (\<lambda>r. of_nat (card r)) (rx_received (foldl (restore_symbol rq) s0 (re_symbols st))))\<rparr>)
       (foldl (restore_symbol rq) s0 (re_symbols st)))"
    by (auto simp: restore_def Let_def)
  then have "gated s0" by (auto simp: new_confirmed_def gated_build)
  from restore_symbols_gated [OF this] show "gated s" unfolding s
    by (auto simp: gated_def refresh_decoded_counts_def split: option.splits)
qed

lemma reach_gated: "rx_reach rq ord s \<Longrightarrow> gated s"
proof (induction rule: rx_reach.induct)
  case (reach_pending sid)
  show ?case unfolding new_pending_def by (rule gated_build)
next
  case (reach_first f)
  show ?case unfolding from_first_frame_def by (rule gated_build)
next
  case (reach_confirmed sid meta s)
  then show ?case by (auto simp: receiver_new_def new_confirmed_def gated_build)
next
  case (reach_restored st s)
  then show ?case using restore_gated by blast
next
  case (reach_frame s f s' r)
  then show ?case using ingest_gated by blast
next
  case (reach_assemble s cx s' v)
  then show ?case using assemble_result_state [of cx s s' v] by (auto simp: gated_def)
qed

section \<open>Numbers in signed types\<close>

lemma sint_small:
  assumes "unat w < 2 ^ (LENGTH('a) - Suc 0)"
  shows "sint (w :: 'a::len word) = uint w"
proof -
  have "uint w < 2 ^ (LENGTH('a) - Suc 0)" using assms by (metis of_nat_less_iff of_nat_numeral of_nat_power uint_nat)
  moreover have "- (2 ^ (LENGTH('a) - Suc 0)) \<le> uint w" by (rule order_trans [OF _ uint_ge_0]) simp
  ultimately show ?thesis by (simp add: sint_uint signed_take_bit_int_eq_self)
qed

lemma stream_size_bound: "seg_count n \<le> 131072 \<Longrightarrow> n < 9223372036854775808"
proof -
  assume "seg_count n \<le> 131072"
  then have "(n - 1) div seg_bytes < 131072" by (simp add: seg_count_def)
  then have "n - 1 < 131072 * seg_bytes" by (simp add: div_less_iff_less_mult)
  then show ?thesis by (simp add: seg_bytes_def)
qed

text \<open>A 64-bit number as Java reads it: from \<open>2 ^ 63\<close> on it wraps around to the negative numbers.\<close>

definition java_long :: "u64 \<Rightarrow> int" where
  "java_long w = (if unat w < 2 ^ 63 then int (unat w) else int (unat w) - 2 ^ 64)"

lemma sint_java_long: "sint (w :: u64) = java_long w"
proof -
  have lt: "uint w < 2 ^ 64" using uint_lt2p [of w] by simp
  have iff: "unat w < 2 ^ 63 \<longleftrightarrow> uint w < 2 ^ 63" by (simp only: uint_nat of_nat_less_numeral_power_cancel_iff)
  have b: "bit (uint w) 63 \<longleftrightarrow> \<not> unat w < 2 ^ 63"
  proof (cases "uint w < 2 ^ 63")
    case True
    then have "uint w div 2 ^ 63 = 0" by (rule div_pos_pos_trivial [OF uint_ge_0])
    with True show ?thesis unfolding iff bit_iff_odd by simp
  next
    case False
    then have "uint w div 2 ^ 63 = 1" using lt by (intro int_div_pos_eq [where r = "uint w - 2 ^ 63"]) simp_all
    with False show ?thesis unfolding iff bit_iff_odd by simp
  qed
  have "sint w = signed_take_bit 63 (uint w)" by (simp add: sint_uint)
  also have "\<dots> = take_bit 64 (uint w) - 2 ^ 64 * of_bool (bit (uint w) 63)"
    by (subst signed_take_bit_eq_take_bit_minus) simp
  also have "take_bit 64 (uint w) = uint w" using lt by (intro take_bit_int_eq_self) simp_all
  finally show ?thesis unfolding b java_long_def by (simp only: uint_nat) simp
qed

lemma bounded_numbers_exact:
  assumes "rx_reach rq ord s"
  shows "sint (jni_compression (Some s)) = uint (fm_compression (rx_file_meta s)) \<and>
    sint (jni_crc32 (Some s)) = uint (fm_crc32 (rx_file_meta s)) \<and>
    sint (jni_segment_index (Some s)) = uint (cffi_segment_index (Some s)) \<and>
    sint (jni_segment_count (Some s)) = uint (cffi_segment_count (Some s)) \<and>
    sint (jni_segment_index (Some s)) < sint (jni_segment_count (Some s)) \<and>
    sint (jni_original_offset (Some s)) = uint (cffi_original_offset (Some s)) \<and>
    sint (jni_root_original_size (Some s)) = uint (cffi_root_original_size (Some s)) \<and>
    (fm_compressed_size_known (rx_file_meta s) \<longrightarrow>
      sint (jni_compressed_size (Some s)) = uint (cffi_compressed_size (Some s))) \<and>
    (jni_is_segmented (Some s) = 0 \<longrightarrow> sint (jni_original_size (Some s)) = uint (cffi_original_size (Some s)))"
proof -
  have g: "meta_gate (rx_session_id s) (rx_file_meta s) (rx_segment_meta s)"
    using reach_gated [OF assms] by (simp add: gated_def)
  have tag: "sint (ucast (fm_compression (rx_file_meta s)) :: jint) = uint (fm_compression (rx_file_meta s))"
    using unat_lt [of "fm_compression (rx_file_meta s)"] by (subst sint_small) (simp_all add: uint_up_ucast is_up)
  have crc: "sint (ucast (fm_crc32 (rx_file_meta s)) :: jlong) = uint (fm_crc32 (rx_file_meta s))"
    using unat_lt [of "fm_crc32 (rx_file_meta s)"] by (subst sint_small) (simp_all add: uint_up_ucast is_up)
  have size: "fm_compressed_size_known (rx_file_meta s) \<Longrightarrow>
      sint (fm_compressed_size (rx_file_meta s)) = uint (fm_compressed_size (rx_file_meta s))"
    using g by (intro sint_small) (simp add: meta_gate_def)
  note defs = jni_compression_def jni_crc32_def jni_segment_index_def cffi_segment_index_def
    jni_segment_count_def cffi_segment_count_def jni_original_offset_def cffi_original_offset_def
    jni_root_original_size_def cffi_root_original_size_def jni_compressed_size_def cffi_compressed_size_def
    jni_is_segmented_def jni_original_size_def cffi_original_size_def
  show ?thesis
  proof (cases "rx_segment_meta s")
    case None
    with g have "sint (fm_original_size (rx_file_meta s)) = uint (fm_original_size (rx_file_meta s))"
      by (intro sint_small) (simp add: meta_gate_def)
    with None tag crc size show ?thesis by (simp add: defs)
  next
    case (Some sg)
    with g have ok: "segment_ok sg (rx_session_id s) (rx_file_meta s)" by (simp add: meta_gate_def)
    let ?n = "unat (sg_root_original_size sg)"
    from ok have c: "unat (sg_segment_count sg) = seg_count ?n" "seg_count ?n \<le> 131072" "0 < ?n"
      and i: "unat (sg_segment_index sg) < seg_count ?n" and off: "unat (sg_original_offset sg) = unat (sg_segment_index sg) * seg_bytes"
      by (simp_all add: segment_ok_def Let_def)
    have n: "?n < 9223372036854775808" by (rule stream_size_bound [OF c(2)])
    have "unat (sg_original_offset sg) < ?n" using off i c(3) by (simp add: seg_index_in)
    with n have o1: "sint (sg_original_offset sg) = uint (sg_original_offset sg)" by (intro sint_small) simp
    have n1: "sint (sg_root_original_size sg) = uint (sg_root_original_size sg)" using n by (intro sint_small) simp
    have i1: "sint (sg_segment_index sg) = uint (sg_segment_index sg)" using i c(2) by (intro sint_small) simp
    have c1: "sint (sg_segment_count sg) = uint (sg_segment_count sg)" using c by (intro sint_small) simp
    have "sg_segment_index sg < sg_segment_count sg" using i c(1) by (simp add: word_less_nat_alt)
    then have "uint (sg_segment_index sg) < uint (sg_segment_count sg)" by (simp add: word_less_def)
    with Some tag crc size o1 n1 i1 c1 show ?thesis by (simp add: defs)
  qed
qed

text \<open>
  C27: the numbers of a session as a Java host reads them, in every reachable session.  The
  compression tag, the checksum, the index, the count, the offset and the stream size of a segment
  are the unsigned values the session has, and so is the compressed size if it is known and
  the file's original size, under both its names, if the session is not segmented; the index is below
  the count, and the three flags are 0 or 1.  The four numbers no check bounds (the original size of a
  segmented session under both names, a compressed size that is not known, and the two halves
  of the stream's identity) are read as negative numbers, \<open>2 ^ 64\<close> too small, exactly
  if they are \<open>2 ^ 63\<close> or more.  Taken as bits, the two halves are the stream's identity.
\<close>

theorem android_numbers_exact:
  assumes "rx_reach rq ord s"
  shows "sint (jni_compression (Some s)) = uint (fm_compression (rx_file_meta s)) \<and>
    sint (jni_crc32 (Some s)) = uint (fm_crc32 (rx_file_meta s)) \<and>
    sint (jni_segment_index (Some s)) = uint (cffi_segment_index (Some s)) \<and>
    sint (jni_segment_count (Some s)) = uint (cffi_segment_count (Some s)) \<and>
    sint (jni_segment_index (Some s)) < sint (jni_segment_count (Some s)) \<and>
    sint (jni_original_offset (Some s)) = uint (cffi_original_offset (Some s)) \<and>
    sint (jni_root_original_size (Some s)) = uint (cffi_root_original_size (Some s)) \<and>
    (fm_compressed_size_known (rx_file_meta s) \<longrightarrow>
      sint (jni_compressed_size (Some s)) = uint (cffi_compressed_size (Some s))) \<and>
    (jni_is_segmented (Some s) = 0 \<longrightarrow> sint (jni_original_size (Some s)) = uint (cffi_original_size (Some s)) \<and>
      sint (jni_file_size (Some s)) = uint (cffi_file_size (Some s))) \<and>
    jni_is_complete (Some s) = (if receiver_is_complete s then 1 else 0) \<and>
    jni_is_segmented (Some s) = (if rx_segment_meta s = None then 0 else 1) \<and>
    jni_crc32_known (Some s) = (if fm_crc32_known (rx_file_meta s) then 1 else 0) \<and>
    sint (jni_original_size (Some s)) = java_long (cffi_original_size (Some s)) \<and>
    sint (jni_file_size (Some s)) = java_long (cffi_file_size (Some s)) \<and>
    sint (jni_compressed_size (Some s)) = java_long (cffi_compressed_size (Some s)) \<and>
    sint (jni_root_session_id_lo (Some s)) = java_long (cffi_root_session_id_lo (Some s)) \<and>
    sint (jni_root_session_id_hi (Some s)) = java_long (cffi_root_session_id_hi (Some s)) \<and>
    (\<forall>sg. rx_segment_meta s = Some sg \<longrightarrow>
      join_session_id (jni_root_session_id_lo (Some s)) (jni_root_session_id_hi (Some s)) = sg_root_session_id sg)"
proof -
  have same: "jni_original_size (Some s) = cffi_original_size (Some s)" "jni_file_size (Some s) = cffi_file_size (Some s)"
    "cffi_file_size (Some s) = cffi_original_size (Some s)" "jni_compressed_size (Some s) = cffi_compressed_size (Some s)"
    "jni_root_session_id_lo (Some s) = cffi_root_session_id_lo (Some s)"
    "jni_root_session_id_hi (Some s) = cffi_root_session_id_hi (Some s)"
    by (simp_all add: jni_original_size_def cffi_original_size_def jni_file_size_def cffi_file_size_def
        jni_compressed_size_def cffi_compressed_size_def jni_root_session_id_lo_def cffi_root_session_id_lo_def
        jni_root_session_id_hi_def cffi_root_session_id_hi_def split: option.splits)
  have flags: "jni_is_complete (Some s) = (if receiver_is_complete s then 1 else 0)"
    "jni_is_segmented (Some s) = (if rx_segment_meta s = None then 0 else 1)"
    "jni_crc32_known (Some s) = (if fm_crc32_known (rx_file_meta s) then 1 else 0)"
    by (simp_all add: jni_is_complete_def jni_is_segmented_def jni_crc32_known_def)
  have root: "\<forall>sg. rx_segment_meta s = Some sg \<longrightarrow>
      join_session_id (jni_root_session_id_lo (Some s)) (jni_root_session_id_hi (Some s)) = sg_root_session_id sg"
    by (simp add: jni_root_session_id_lo_def jni_root_session_id_hi_def)
  note B = bounded_numbers_exact [OF assms]
  show ?thesis
  proof (intro conjI)
    show "jni_is_segmented (Some s) = 0 \<longrightarrow> sint (jni_original_size (Some s)) = uint (cffi_original_size (Some s)) \<and>
      sint (jni_file_size (Some s)) = uint (cffi_file_size (Some s))"
      using B same(1,2,3) by simp
  qed (use B flags root in \<open>blast | simp only: same sint_java_long\<close>)+
qed

end
