(* ===== verification/Host_Contract.thy ===== *)
theory Host_Contract
  imports Hosts Large_Transfer
begin

text \<open>
  The contract of a receiving host as a locale, its consequence for a whole transfer proved once, and
  its interpretation on the C, Android and browser interfaces; and a native and a browser
  host as senders of one file.
\<close>

section \<open>The contract\<close>

locale receiver_host =
  fixes rq :: "('e, 'd) raptorq" and crc :: "bytes \<Rightarrow> u32" and ord :: "symbol_cache \<Rightarrow> symbol_cache"
    and read :: "bytes \<Rightarrow> 'd receiver \<Rightarrow> 'd receiver \<times> u64" and raw :: "'d receiver \<Rightarrow> bytes"
  assumes read_valid: "frame_from_bytes crc bs = Inr f \<Longrightarrow> read bs s = ingest_packed rq ord f s"
    and read_invalid: "frame_from_bytes crc bs = Inl e \<Longrightarrow> read bs s = (s, INGEST_ERROR)"
    and raw_trimmed: "assemble_raw s = Some data \<Longrightarrow> length data < 2 ^ 31 \<Longrightarrow>
      raw s = trim_transmitted (rx_file_meta s) data"
begin

lemma reads_all:
  "foldl (\<lambda>s bs. fst (read bs s)) s bss = ingest_all rq ord s (received_frames crc bss)"
proof (induction bss arbitrary: s)
  case (Cons bs bss)
  show ?case
  proof (cases "frame_from_bytes crc bs")
    case (Inl e)
    with Cons show ?thesis by (simp add: read_invalid [OF Inl] received_frames_def)
  next
    case (Inr f)
    with Cons show ?thesis by (simp add: read_valid [OF Inr] received_frames_def ingest_packed_def Let_def)
  qed
qed (simp add: received_frames_def)

lemma session_recovered:
  assumes up: "upstream_ok rq" and ord: "\<And>xs. mset (ord xs) = mset xs"
    and inv: "sender_inv rq (pad_to_symbols payload (sc_codec cfg)) s" and dg: "digests_ok s"
    and len: "length (pad_to_symbols payload (sc_codec cfg)) \<le> 33554432" and an: "announce_ok s"
    and fresh: "position_of s = 0" "sn_frame_index s = 0" "sn_descriptor_interval s = 17"
    and size: "fm_compressed_size (sn_file_meta s) = of_nat (length payload)"
    and n: "n \<le> 16720813" "sum_symbols (m_blocks (sn_meta s)) \<le> n - descriptors_before n"
    and e: "emit_n rq crc clock n s = (s', rs)"
  obtains fs where "rs = map Inr fs"
    "receiver_is_complete (foldl (\<lambda>s bs. fst (read bs s)) (new_pending (sn_session_id s)) (map frame_to_bytes fs))"
    "raw (foldl (\<lambda>s bs. fst (read bs s)) (new_pending (sn_session_id s)) (map frame_to_bytes fs)) = payload"
proof -
  let ?data = "pad_to_symbols payload (sc_codec cfg)" and ?sid = "sn_session_id s"
  obtain fs ss where fs: "rs = map Inr fs" "received_frames crc (map frame_to_bytes fs) = fs"
    "watching rq s ss (ingest_all rq ord (new_pending ?sid) fs)"
    "receiver_is_complete (ingest_all rq ord (new_pending ?sid) fs)"
    "assemble_raw (ingest_all rq ord (new_pending ?sid) fs) = Some ?data"
    using session_lossless [OF up inv dg len an fresh ord n e] by metis
  let ?r = "ingest_all rq ord (new_pending ?sid) fs"
  note fm = watching_header(1) [OF fs(3,5)]
  have lp: "length payload \<le> length ?data" by (rule length_pad_ge)
  then have u: "unat (of_nat (length payload) :: u64) = length payload" using len by (intro unat_of_nat_len) simp
  have "raw ?r = trim_transmitted (rx_file_meta ?r) ?data" using len by (intro raw_trimmed [OF fs(5)]) simp
  also have "\<dots> = payload"
    using lp size by (simp add: trim_transmitted_def fm announced_def sent_file_meta_def try_from_def u)
  finally show thesis using that [OF fs(1)] fs(2,4) by (simp add: reads_all)
qed

lemma recovers:
  assumes up: "upstream_ok rq" and ord: "\<And>xs. mset (ord xs) = mset xs"
    and new: "sender_new rq payload sid cfg fm = Inr s"
    and len: "length (pad_to_symbols payload (sc_codec cfg)) \<le> 33554432"
    and an: "announce_ok s" "fm_compressed_size fm = of_nat (length payload)"
    and n: "n \<le> 16720813" "sum_symbols (m_blocks (sn_meta s)) \<le> n - descriptors_before n"
    and e: "emit_n rq crc clock n s = (s', rs)"
  obtains fs where "rs = map Inr fs"
    "receiver_is_complete (foldl (\<lambda>s bs. fst (read bs s)) (new_pending sid) (map frame_to_bytes fs))"
    "raw (foldl (\<lambda>s bs. fst (read bs s)) (new_pending sid) (map frame_to_bytes fs)) = payload"
proof -
  note N = sender_new_inv [OF up new len]
  have "fm_compressed_size (sn_file_meta s) = of_nat (length payload)" using an(2) N(8) by simp
  from session_recovered [OF up ord N(1,2) len an(1) N(4,5,7) this n e] that show thesis unfolding N(3) by blast
qed

end

section \<open>The three hosts\<close>

text \<open>A host that holds a handle, and an environment that refuses nothing.\<close>

definition c_read ::
  "('e, 'd) raptorq \<Rightarrow> codecs \<Rightarrow> (symbol_cache \<Rightarrow> symbol_cache) \<Rightarrow> bytes \<Rightarrow> 'd receiver \<Rightarrow> 'd receiver \<times> u64" where
  "c_read rq cx ord bs s = (case cffi_ingest rq cx ord (Some s) (Some bs) of (h, w) \<Rightarrow> (the h, w))"

definition c_raw :: "'d receiver \<Rightarrow> bytes" where
  "c_raw s = (case cffi_assemble_raw (Some s) True None of (Some data, _) \<Rightarrow> data | (None, _) \<Rightarrow> [])"

definition android_read ::
  "('e, 'd) raptorq \<Rightarrow> (bytes \<Rightarrow> u32) \<Rightarrow> (symbol_cache \<Rightarrow> symbol_cache) \<Rightarrow> bytes \<Rightarrow> 'd receiver \<Rightarrow> 'd receiver \<times> u64" where
  "android_read rq crc ord bs s = (case jni_ingest rq crc ord (Some s) (Some bs) of (h, w) \<Rightarrow> (the h, w))"

definition willing_env :: jni_env where
  "willing_env = \<lparr>jv_new_byte_array = \<lambda>_. True, jv_set_region = \<lambda>_. True, jv_new_string = \<lambda>_. True,
     jv_get_length = \<lambda>_. True, jv_get_region = \<lambda>_. True\<rparr>"

definition android_raw :: "'d receiver \<Rightarrow> bytes" where
  "android_raw s = (case jni_assemble_raw_bytes willing_env (Some s) of Some data \<Rightarrow> data | None \<Rightarrow> [])"

lemma no_empty_frame [simp]: "frame_from_bytes crc [] \<noteq> Inr f"
  by (simp add: frame_from_bytes_def FRAME_HEADER_SIZE_def)

lemma jni_ingest_packed:
  "jni_ingest rq crc ord (Some s) (Some bs) =
     (case frame_from_bytes crc bs of
        Inl _ \<Rightarrow> (Some s, INGEST_ERROR)
      | Inr f \<Rightarrow> (case ingest_packed rq ord f s of (s', w) \<Rightarrow> (Some s', w)))"
  by (simp add: jni_ingest_def ingest_packed_def Let_def split: sum.splits)

lemma return_bytes_willing: "length data < 2 ^ 31 \<Longrightarrow> return_bytes willing_env data = Some data"
  by (simp add: return_bytes_def willing_env_def jsize_of_def)

lemma length_trim: "length (trim_transmitted fm raw) \<le> length raw"
  by (simp add: trim_transmitted_def split: option.splits)

interpretation c_host: receiver_host rq "crc32_of cx" ord "c_read rq cx ord" c_raw for rq cx ord
  by unfold_locales
    (auto simp: c_read_def c_raw_def cffi_ingest_def cffi_assemble_raw_def split: sum.splits prod.splits)

interpretation android_host: receiver_host rq crc ord "android_read rq crc ord" android_raw for rq crc ord
proof unfold_locales
  fix s :: "'b receiver" and data
  assume "assemble_raw s = Some data" "length data < 2 ^ 31"
  moreover from this have "length (trim_transmitted (rx_file_meta s) data) < 2 ^ 31"
    using length_trim [of "rx_file_meta s" data] by linarith
  ultimately show "android_raw s = trim_transmitted (rx_file_meta s) data"
    by (simp add: android_raw_def jni_assemble_raw_bytes_def return_bytes_willing)
qed (auto simp: android_read_def jni_ingest_packed split: prod.splits)

interpretation browser_host: receiver_host rq crc ord "wasm_ingest rq crc ord" wasm_assemble_raw for rq crc ord
  by unfold_locales (simp_all add: wasm_ingest_def wasm_assemble_raw_def)

section \<open>Promises\<close>

text \<open>
  C9: every host recovers the payload.  When a fresh session's frames, enough for its source
  symbols, are fed as bytes through the C, the Android or the browser interface, the session is
  complete on each of them and its raw assembly is exactly the payload.
\<close>

theorem hosts_recover:
  fixes rq :: "('e, 'd) raptorq"
  assumes "upstream_ok rq" "\<And>xs. mset (ord xs) = mset xs" "sender_new rq payload sid cfg fm = Inr s"
    and "length (pad_to_symbols payload (sc_codec cfg)) \<le> 33554432"
    and "announce_ok s" "fm_compressed_size fm = of_nat (length payload)"
    and "n \<le> 16720813" "sum_symbols (m_blocks (sn_meta s)) \<le> n - descriptors_before n"
    and "emit_n rq (crc32_of cx) clock n s = (s', rs)"
  shows "\<exists>fs. rs = map Inr fs \<and> (let shown = map frame_to_bytes fs;
      feed = (\<lambda>read. foldl (\<lambda>s bs. fst (read bs s)) (new_pending sid :: 'd receiver) shown) in
    cffi_is_complete (Some (feed (c_read rq cx ord))) = 1 \<and>
    cffi_assemble_raw (Some (feed (c_read rq cx ord))) True None = (Some payload, 1) \<and>
    jni_is_complete (Some (feed (android_read rq (crc32_of cx) ord))) = 1 \<and>
    jni_assemble_raw_bytes willing_env (Some (feed (android_read rq (crc32_of cx) ord))) = Some payload \<and>
    wasm_is_complete (feed (wasm_ingest rq (crc32_of cx) ord)) \<and>
    wasm_assemble_raw (feed (wasm_ingest rq (crc32_of cx) ord)) = payload)"
proof -
  note R = assms(1-8) assms(9)
  obtain fs where fs: "rs = map Inr fs"
    and b: "receiver_is_complete (foldl (\<lambda>s bs. fst (wasm_ingest rq (crc32_of cx) ord bs s)) (new_pending sid :: 'd receiver) (map frame_to_bytes fs))"
      "wasm_assemble_raw (foldl (\<lambda>s bs. fst (wasm_ingest rq (crc32_of cx) ord bs s)) (new_pending sid :: 'd receiver) (map frame_to_bytes fs)) = payload"
    using browser_host.recovers [OF R] by metis
  let ?r = "ingest_all rq ord (new_pending sid :: 'd receiver) (received_frames (crc32_of cx) (map frame_to_bytes fs))"
  have r: "receiver_is_complete ?r" "wasm_assemble_raw ?r = payload" using b by (simp_all add: browser_host.reads_all)
  have "assemble_raw ?r \<noteq> None"
    using r(1) by (simp add: assemble_raw_def receiver_is_complete_def decoder_assemble_def split: option.splits)
  then obtain data where d: "assemble_raw ?r = Some data" by blast
  with r(2) have t: "trim_transmitted (rx_file_meta ?r) data = payload" by (simp add: wasm_assemble_raw_def)
  have "length payload < 2 ^ 31" using assms(4) length_pad_ge [of payload "sc_codec cfg"] by simp
  with d t r show ?thesis
    by (intro exI [of _ fs]) (simp add: fs Let_def c_host.reads_all android_host.reads_all browser_host.reads_all
        cffi_is_complete_def cffi_assemble_raw_def jni_is_complete_def jni_assemble_raw_bytes_def return_bytes_willing
        wasm_is_complete_def)
qed

lemma hosts_ingest:
  "jni_ingest rq (crc32_of cx) ord (Some s) (Some bs) = cffi_ingest rq cx ord (Some s) (Some bs)"
  "cffi_ingest rq cx ord (Some s) (Some bs) = (case wasm_ingest rq (crc32_of cx) ord bs s of (s', w) \<Rightarrow> (Some s', w))"
  by (auto simp: jni_ingest_packed cffi_ingest_def wasm_ingest_def split: sum.splits)

lemma return_bytes_any: "return_bytes willing_env data = Some (if length data < 2 ^ 31 then data else [])"
  by (simp add: return_bytes_def willing_env_def jsize_of_def null_byte_array_def)

lemma null_willing [simp]: "null_byte_array willing_env = Some []"
  by (simp add: null_byte_array_def willing_env_def)

lemma hosts_assemble_raw:
  "case cffi_assemble_raw (Some s) True None of
     (None, code) \<Rightarrow> code = 0 \<and> wasm_assemble_raw s = [] \<and> jni_assemble_raw_bytes willing_env (Some s) = Some []
   | (Some data, code) \<Rightarrow> code = 1 \<and> wasm_assemble_raw s = data \<and>
       jni_assemble_raw_bytes willing_env (Some s) = Some (if length data < 2 ^ 31 then data else [])"
  by (simp add: cffi_assemble_raw_def wasm_assemble_raw_def jni_assemble_raw_bytes_def return_bytes_any split: option.splits)

lemma hosts_assemble:
  "jni_assemble_bytes cx willing_env (Some s) = (case cffi_assemble cx (Some s) True None of
     (h, None, _) \<Rightarrow> (h, Some []) | (h, Some data, _) \<Rightarrow> (h, Some (if length data < 2 ^ 31 then data else [])))"
  by (auto simp: jni_assemble_bytes_def cffi_assemble_def return_bytes_any split: option.splits sum.splits prod.splits)

lemmas host_readers =
  jni_compression_def cffi_compression_def wasm_compression_def
  jni_compressed_size_def cffi_compressed_size_def wasm_compressed_size_def
  jni_original_size_def cffi_original_size_def wasm_original_size_def jni_file_size_def cffi_file_size_def
  jni_crc32_def cffi_crc32_def wasm_crc32_def jni_crc32_known_def cffi_crc32_known_def wasm_crc32_known_def
  jni_is_segmented_def cffi_is_segmented_def wasm_is_segmented_def
  jni_segment_index_def cffi_segment_index_def wasm_segment_index_def
  jni_segment_count_def cffi_segment_count_def wasm_segment_count_def
  jni_original_offset_def cffi_original_offset_def wasm_original_offset_def
  jni_root_original_size_def cffi_root_original_size_def wasm_root_original_size_def
  jni_root_session_id_lo_def cffi_root_session_id_lo_def wasm_root_session_id_lo_def
  jni_root_session_id_hi_def cffi_root_session_id_hi_def wasm_root_session_id_hi_def segment_field_def

lemma hosts_file:
  "wasm_original_size s = cffi_original_size (Some s)" "jni_original_size (Some s) = cffi_original_size (Some s)"
  "jni_file_size (Some s) = cffi_file_size (Some s)" "cffi_file_size (Some s) = wasm_original_size s"
  "wasm_compressed_size s = cffi_compressed_size (Some s)" "jni_compressed_size (Some s) = cffi_compressed_size (Some s)"
  "wasm_compression s = cffi_compression (Some s)" "jni_compression (Some s) = ucast (cffi_compression (Some s))"
  "cffi_crc32 (Some s) = ucast (wasm_crc32 s)" "jni_crc32 (Some s) = cffi_crc32 (Some s)"
  "cffi_crc32_known (Some s) = 1 \<longleftrightarrow> wasm_crc32_known s" "jni_crc32_known (Some s) = 1 \<longleftrightarrow> wasm_crc32_known s"
  by (simp_all add: host_readers)

lemma hosts_segment:
  "cffi_is_segmented (Some s) = 1 \<longleftrightarrow> wasm_is_segmented s" "jni_is_segmented (Some s) = 1 \<longleftrightarrow> wasm_is_segmented s"
  "wasm_segment_index s = cffi_segment_index (Some s)" "jni_segment_index (Some s) = cffi_segment_index (Some s)"
  "wasm_segment_count s = cffi_segment_count (Some s)" "jni_segment_count (Some s) = cffi_segment_count (Some s)"
  "wasm_original_offset s = cffi_original_offset (Some s)" "jni_original_offset (Some s) = cffi_original_offset (Some s)"
  "wasm_root_original_size s = cffi_root_original_size (Some s)"
  "jni_root_original_size (Some s) = cffi_root_original_size (Some s)"
  "join_session_id (wasm_root_session_id_lo s) (wasm_root_session_id_hi s) =
    join_session_id (cffi_root_session_id_lo (Some s)) (cffi_root_session_id_hi (Some s))"
  "join_session_id (jni_root_session_id_lo (Some s)) (jni_root_session_id_hi (Some s)) =
    join_session_id (cffi_root_session_id_lo (Some s)) (cffi_root_session_id_hi (Some s))"
  by (simp_all add: host_readers split: option.splits)

text \<open>
  The three hosts do the same.  Fed the same bytes, they reach the same session and return the same
  status word; their raw assemblies are the same bytes, and so are the decompressed
  assemblies of the C and the Android interface, where Java can hold the array; an assembly too long
  for Java is the empty array, never a truncated one.
\<close>

lemma hosts_agree:
  "jni_ingest rq (crc32_of cx) ord (Some s) (Some bs) = cffi_ingest rq cx ord (Some s) (Some bs) \<and>
   cffi_ingest rq cx ord (Some s) (Some bs) = (case wasm_ingest rq (crc32_of cx) ord bs s of (s', w) \<Rightarrow> (Some s', w)) \<and>
   (case cffi_assemble_raw (Some s) True None of
      (None, code) \<Rightarrow> code = 0 \<and> wasm_assemble_raw s = [] \<and> jni_assemble_raw_bytes willing_env (Some s) = Some []
    | (Some data, code) \<Rightarrow> code = 1 \<and> wasm_assemble_raw s = data \<and>
        jni_assemble_raw_bytes willing_env (Some s) = Some (if length data < 2 ^ 31 then data else [])) \<and>
   jni_assemble_bytes cx willing_env (Some s) = (case cffi_assemble cx (Some s) True None of
      (h, None, _) \<Rightarrow> (h, Some []) | (h, Some data, _) \<Rightarrow> (h, Some (if length data < 2 ^ 31 then data else [])))"
  by (intro conjI hosts_ingest hosts_assemble_raw hosts_assemble)

lemma pack_zero: "pack c a k r = 0 \<longleftrightarrow> \<not> c \<and> \<not> a \<and> 65536 dvd unat k \<and> r = 0"
proof -
  have k0: "(ucast k :: u16) = 0 \<longleftrightarrow> 65536 dvd unat k"
    by (simp add: word_unat_eq_iff unsigned_ucast_eq take_bit_eq_mod mod_eq_0_iff_dvd)
  show ?thesis
  proof
    assume z: "pack c a k r = 0"
    from pack_fields [of c a k r] have "status_complete 0 = c" "status_accepted 0 = a" "status_streak 0 = ucast k"
      "status_received 0 = r" unfolding z by simp_all
    then show "\<not> c \<and> \<not> a \<and> 65536 dvd unat k \<and> r = 0"
      by (auto simp: status_complete_def status_accepted_def status_streak_def status_received_def simp flip: k0)
  next
    assume z: "\<not> c \<and> \<not> a \<and> 65536 dvd unat k \<and> r = 0"
    then have k: "(ucast k :: u16) = 0" by (simp add: k0)
    have "\<not> bit k n" if "n < 16" for n using that arg_cong [OF k, of "\<lambda>w. bit w n"] by (simp add: bit_simps)
    with z show "pack c a k r = 0" by (intro bit_word_eqI) (auto simp: pack_bits)
  qed
qed

text \<open>
  C28: a zero status does not mean a null handle.  On a live session the Android status is 0
  exactly when a valid frame was processed and the session is incomplete with no symbol
  recorded and a mismatch streak that is a multiple of 65536.
\<close>

theorem android_zero_status:
  "snd (jni_ingest rq crc ord (Some s) (Some bs)) = 0 \<longleftrightarrow>
     (\<exists>f. frame_from_bytes crc bs = Inr f \<and> (let s' = fst (ingest rq ord f s) in
        \<not> receiver_is_complete s' \<and> pg_received_symbols (receiver_progress s') = 0 \<and>
        65536 dvd unat (pg_session_mismatch_streak (receiver_progress s'))))"
proof (cases "frame_from_bytes crc bs")
  case (Inl e)
  have "INGEST_ERROR \<noteq> 0" by code_simp
  with Inl show ?thesis by (simp add: jni_ingest_packed)
next
  case (Inr f)
  then show ?thesis by (auto simp: jni_ingest_packed ingest_packed_def pack_zero Let_def)
qed

section \<open>Streams\<close>

text \<open>
  The two native hosts verify streams alike.  For strings that are valid UTF-8 and
  a size limit that is not negative as a Java number, the Android call returns and leaves what the C
  call does; a negative limit counts as 0.
\<close>

lemma host_streams_agree:
  assumes "utf8_valid input" "utf8_valid output" "utf8_valid sha"
  shows "(case jni_decompress_stream_to_file cx io (Some input) (Some output) (ucast tag) max_output expected_size
      (ucast expected_crc) (if crc_known then 1 else 0) (Some sha) old of (code, file) \<Rightarrow> (int (unat code), file)) =
    cffi_decompress_stream_to_file cx io (Some input) (Some output) tag (if sint max_output < 0 then 0 else max_output)
      expected_size expected_crc crc_known (Some sha) old"
proof -
  have "(if 0 < sint max_output then max_output else 0) = (if sint max_output < 0 then 0 else max_output)"
    using signed_eq_0_iff [of max_output, where 'a = int] by (cases "sint max_output = 0") auto
  moreover have "ucast (ucast tag :: jint) = tag" "ucast (ucast expected_crc :: jlong) = expected_crc"
    by (simp_all add: ucast_up_ucast_id is_up)
  ultimately show ?thesis
    using assms
    by (simp add: jni_decompress_stream_to_file_def cffi_decompress_stream_to_file_def utf8_lossy_valid Let_def
        split: prod.splits sum.splits)
qed

section \<open>Two kinds of senders\<close>

lemma native_new_config:
  assumes "native_new rq cx payload filename modified redundancy ssz = Inr h"
  shows "ns_config h = \<lparr>sc_codec = \<lparr>cfg_symbol_size = ssz\<rparr>, sc_redundancy_pct = redundancy\<rparr>"
    "config_new ssz = Inr \<lparr>cfg_symbol_size = ssz\<rparr>"
  using assms by (auto simp: native_new_def Let_def config_new_Inr bind_result_Inr split: if_splits)

text \<open>
  The browser constructor that sends what a native handle sends of its file: a plain session for a file of
  one segment, the segment's session otherwise, from the same payload, name, identity and digests.
\<close>

definition browser_counterpart ::
  "('e, 'd) raptorq \<Rightarrow> codecs \<Rightarrow> bytes \<Rightarrow> bytes \<Rightarrow> u8 \<Rightarrow> u32 \<Rightarrow> 'e native_sender \<Rightarrow> u32 \<Rightarrow>
   ('e wasm_sender, js_error) result" where
  "browser_counterpart rq cx payload filename redundancy ssz h index =
     (if seg_count (length payload) = 1
      then wasm_sender_new rq payload (ucast (ns_root_session_id h)) (ucast (drop_bit 64 (ns_root_session_id h)))
        redundancy ssz filename (of_nat (length payload)) (ns_crc32 h) COMPRESSION_NONE
      else wasm_sender_new_segment rq (segment_data payload (unat index))
        (ucast (ns_root_session_id h)) (ucast (drop_bit 64 (ns_root_session_id h))) index (ns_segment_count h)
        (of_nat (unat index * seg_bytes)) (of_nat (length payload)) (ns_root_sha256 h)
        (sha256_of cx (segment_data payload (unat index))) redundancy ssz filename (of_nat (length payload))
        (ns_crc32 h) COMPRESSION_NONE)"

text \<open>It builds the very same session.\<close>

lemma browser_native_sessions:
  assumes "cffi_sender_create rq cx (Some payload) (Some filename) modified redundancy ssz = Some h"
    and "\<And>x. length (sha256_of cx x) = 32" "length payload < 2 ^ 64" "cffi_select_segment rq cx (Some h) index = (Some h', 1)"
  shows "browser_counterpart rq cx payload filename redundancy ssz h index =
    Inr \<lparr>ws_inner = ns_session h', ws_qr_scratch = replicate QR_SCRATCH_BYTES 0\<rparr>"
proof -
  have new: "native_new rq cx payload filename modified redundancy ssz = Inr h"
    using assms(1) by (auto simp: cffi_sender_create_def split: if_splits sum.splits)
  have cfg: "ns_config h = \<lparr>sc_codec = \<lparr>cfg_symbol_size = ssz\<rparr>, sc_redundancy_pct = redundancy\<rparr>"
    and codec: "config_new ssz = Inr \<lparr>cfg_symbol_size = ssz\<rparr>"
    using native_new_config [OF new] by simp_all
  from native_new_ok [OF new assms(3)] have ok: "native_ok cx h" and p: "ns_payload h = payload" "ns_filename h = filename"
    by simp_all
  have sel: "native_select rq cx h index = (h', Inr ())"
    using assms(4) by (auto simp: cffi_select_segment_def split: prod.splits sum.splits)
  from native_select_ok [OF ok sel] p have i: "unat index < seg_count (length payload)"
    and b: "build_session rq cx (ns_payload h) (ns_filename h) (ns_config h) (ns_root_session_id h) (ns_crc32 h)
      (ns_root_sha256 h) (ns_segment_count h) index = Inr (ns_session h')" by simp_all
  have sha: "length (ns_root_sha256 h) = 32" using ok assms(2) by (simp add: native_ok_def)
  note B = b [unfolded build_session_iff [OF ok i [folded p(1)]]]
  show ?thesis
  proof (cases "seg_count (length payload) = 1")
    case True
    with B show ?thesis
      by (simp add: browser_counterpart_def segment_info_def segment_session_id_def segment_file_def segment_data_def p cfg wasm_sender_new_def codec
          native_file_meta_def wasm_file_meta_def)
  next
    case False
    with B sha assms(2) show ?thesis
      by (simp add: browser_counterpart_def segment_info_def segment_session_id_def segment_file_def p cfg wasm_sender_new_segment_def codec
          native_file_meta_def wasm_file_meta_def native_segment_meta_def Let_def)
  qed
qed

end
