(* ===== verification/Host_Stream.thy ===== *)
theory Host_Stream
  imports Host_Contract Sender_Exhaust
begin

text \<open>
  The contract of a sending host as the locale \<open>sending_host\<close>, interpreted on the C interface
  (\<open>core/transfer-engine/src/cffi.rs\<close>) and the browser (\<open>wasm.rs\<close>), and its extension \<open>host_pair\<close>: any
  sending host in front of any receiving host.
\<close>

section \<open>The contracts\<close>

text \<open>One call shows the bytes of the session's next frame, or nothing when the session fails.\<close>

locale sending_host =
  fixes rq :: "('e, 'd) raptorq" and crc :: "bytes \<Rightarrow> u32"
    and display :: "clock \<Rightarrow> 'h \<Rightarrow> 'h \<times> bytes option" and session :: "'h \<Rightarrow> 'e sender"
  assumes display_next: "next_frame rq crc c (session h) = (s, r) \<Longrightarrow>
      snd (display c h) = (case r of Inl _ \<Rightarrow> None | Inr f \<Rightarrow> Some (frame_to_bytes f))"
    and display_session: "next_frame rq crc c (session h) = (s, r) \<Longrightarrow> session (fst (display c h)) = s"

text \<open>The first \<open>n\<close> calls of a host, as \<open>emit_n\<close> of a session.\<close>

fun display_n ::
  "(clock \<Rightarrow> 'h \<Rightarrow> 'h \<times> bytes option) \<Rightarrow> (nat \<Rightarrow> clock) \<Rightarrow> nat \<Rightarrow> 'h \<Rightarrow> 'h \<times> bytes option list" where
  "display_n display clock 0 h = (h, [])"
| "display_n display clock (Suc n) h =
     (case display_n display clock n h of (h1, bs) \<Rightarrow>
      case display (clock n) h1 of (h2, b) \<Rightarrow> (h2, bs @ [b]))"

definition shown :: "(frame, te_error) result \<Rightarrow> bytes option" where
  "shown r = (case r of Inl _ \<Rightarrow> None | Inr f \<Rightarrow> Some (frame_to_bytes f))"

lemma shown_simps [simp]: "shown (Inl e) = None" "shown (Inr f) = Some (frame_to_bytes f)"
  by (simp_all add: shown_def)

context sending_host
begin

lemma displays_emitted:
  "emit_n rq crc clock n (session h) = (s, rs) \<Longrightarrow>
   snd (display_n display clock n h) = map shown rs \<and> session (fst (display_n display clock n h)) = s"
proof (induction n arbitrary: s rs)
  case (Suc n)
  obtain s1 rs1 where e: "emit_n rq crc clock n (session h) = (s1, rs1)" by (cases "emit_n rq crc clock n (session h)")
  obtain r where nf: "next_frame rq crc (clock n) s1 = (s, r)" "rs = rs1 @ [r]"
    using Suc.prems e by (auto split: prod.splits)
  from Suc.IH [OF e] have IH: "snd (display_n display clock n h) = map shown rs1"
    "session (fst (display_n display clock n h)) = s1" by simp_all
  from display_next [of "clock n" "fst (display_n display clock n h)", unfolded IH(2), OF nf(1)]
    display_session [of "clock n" "fst (display_n display clock n h)", unfolded IH(2), OF nf(1)] IH nf(2)
  show ?case by (simp add: shown_def case_prod_beta)
qed simp

text \<open>The stream of a fresh session: frames up to the end of the ids, nothing afterwards.\<close>

lemma display_ends:
  assumes "upstream_ok rq" "sender_inv rq data (session h)" "digests_ok (session h)" "length data \<le> 33554432"
    and "position_of (session h) = 0" "sn_frame_index (session h) = 0" "sn_descriptor_interval (session h) = 17"
    and i: "i < n"
  shows "snd (display_n display clock n h) ! i = None \<longleftrightarrow> call_of (session_limit (sn_meta (session h))) \<le> i"
proof -
  let ?s = "session h" and ?N = "call_of (session_limit (sn_meta (session h)))"
  obtain s1 rs1 where e: "emit_n rq crc clock n ?s = (s1, rs1)" by (cases "emit_n rq crc clock n ?s")
  obtain s2 rs2 where e2: "emit_n rq crc clock (?N + n) ?s = (s2, rs2)" by (cases "emit_n rq crc clock (?N + n) ?s")
  from emit_n_exhausted [OF assms(1-7) e2] have
    E: "\<forall>i < ?N. scheduled rq crc ?s i (rs2 ! i)" "\<forall>i < n. rs2 ! (?N + i) = Inl SymbolIdSpaceExhausted" by simp_all
  have "snd (display_n display clock n h) ! i = shown (rs1 ! i)"
    using displays_emitted [OF e] emit_n_length [OF e] i by simp
  also have "rs1 ! i = rs2 ! i" using emit_n_prefix [of rq crc clock n ?N ?s s2 rs2] e e2 i by (simp add: add.commute)
  also have "shown (rs2 ! i) = None \<longleftrightarrow> ?N \<le> i"
  proof (cases "?N \<le> i")
    case True
    then have "rs2 ! i = Inl SymbolIdSpaceExhausted" using E(2) [rule_format, of "i - ?N"] i by simp
    with True show ?thesis by simp
  next
    case False
    then have "scheduled rq crc ?s i (rs2 ! i)" using E(1) by simp
    with False show ?thesis by (auto simp: scheduled_def)
  qed
  finally show ?thesis .
qed

end

text \<open>A sending and a receiving host that compute the same checksum.\<close>

locale host_pair = sending_host rq crc display session + receiver_host rq crc ord read raw
  for rq :: "('e, 'd) raptorq" and crc :: "bytes \<Rightarrow> u32" and display :: "clock \<Rightarrow> 'h \<Rightarrow> 'h \<times> bytes option"
    and session :: "'h \<Rightarrow> 'e sender" and ord :: "symbol_cache \<Rightarrow> symbol_cache"
    and read :: "bytes \<Rightarrow> 'd receiver \<Rightarrow> 'd receiver \<times> u64" and raw :: "'d receiver \<Rightarrow> bytes"
begin

lemma pair_transfers:
  assumes "upstream_ok rq" "\<And>xs. mset (ord xs) = mset xs"
    and "sender_inv rq (pad_to_symbols payload (sc_codec cfg)) (session h)" "digests_ok (session h)"
    and "length (pad_to_symbols payload (sc_codec cfg)) \<le> 33554432" "announce_ok (session h)"
    and "position_of (session h) = 0" "sn_frame_index (session h) = 0" "sn_descriptor_interval (session h) = 17"
    and "fm_compressed_size (sn_file_meta (session h)) = of_nat (length payload)"
    and "n \<le> 16720813" "sum_symbols (m_blocks (sn_meta (session h))) \<le> n - descriptors_before n"
  defines "start \<equiv> new_pending (sn_session_id (session h))"
  shows "\<exists>bss. snd (display_n display clock n h) = map Some bss \<and>
    receiver_is_complete (foldl (\<lambda>s bs. fst (read bs s)) start bss) \<and>
    raw (foldl (\<lambda>s bs. fst (read bs s)) start bss) = payload"
proof -
  obtain s rs where e: "emit_n rq crc clock n (session h) = (s, rs)" by (cases "emit_n rq crc clock n (session h)")
  from session_recovered [OF assms(1-12) e] obtain fs where fs: "rs = map Inr fs"
    "receiver_is_complete (foldl (\<lambda>s bs. fst (read bs s)) start (map frame_to_bytes fs))"
    "raw (foldl (\<lambda>s bs. fst (read bs s)) start (map frame_to_bytes fs)) = payload"
    unfolding start_def by blast
  with displays_emitted [OF e] show ?thesis by (intro exI [of _ "map frame_to_bytes fs"]) (simp add: comp_def)
qed

end

section \<open>The two senders\<close>

text \<open>A native host asks for the capacity, allocates that much and calls \<open>next_frame\<close>.\<close>

definition c_display :: "('e, 'd) raptorq \<Rightarrow> codecs \<Rightarrow> clock \<Rightarrow> 'e native_sender \<Rightarrow> 'e native_sender \<times> bytes option" where
  "c_display rq cx c h =
     (case cffi_next_frame rq cx c (Some h) (Some (replicate (cffi_frame_capacity (Some h)) 0)) of
        (h', out, n) \<Rightarrow> (the h', if n = 0 then None else map_option (take n) out))"

definition browser_display ::
  "('e, 'd) raptorq \<Rightarrow> (bytes \<Rightarrow> u32) \<Rightarrow> clock \<Rightarrow> 'e wasm_sender \<Rightarrow> 'e wasm_sender \<times> bytes option" where
  "browser_display rq crc c w =
     (case wasm_next_frame rq crc c w of (w', Inl _) \<Rightarrow> (w', None) | (w', Inr bs) \<Rightarrow> (w', Some bs))"

lemma frame_not_empty: "frame_to_bytes f \<noteq> []"
proof -
  have "0 < length (frame_to_bytes f)" by (simp add: frame_to_bytes_def Let_def wire_simps)
  then show ?thesis by simp
qed

interpretation c_sender: sending_host rq "crc32_of cx" "c_display rq cx" ns_session for rq cx
  by unfold_locales
    (auto simp: c_display_def cffi_next_frame_def cffi_frame_capacity_def frame_not_empty Let_def split: sum.splits)

interpretation browser_sender: sending_host rq crc "browser_display rq crc" ws_inner for rq crc
  by unfold_locales (auto simp: browser_display_def wasm_next_frame_def split: sum.splits)

interpretation c_to_c: host_pair rq "crc32_of cx" "c_display rq cx" ns_session ord "c_read rq cx ord" c_raw
  for rq cx ord
  by intro_locales

interpretation c_to_android: host_pair rq "crc32_of cx" "c_display rq cx" ns_session ord
    "android_read rq (crc32_of cx) ord" android_raw
  for rq cx ord
  by intro_locales

interpretation c_to_browser: host_pair rq "crc32_of cx" "c_display rq cx" ns_session ord
    "wasm_ingest rq (crc32_of cx) ord" wasm_assemble_raw
  for rq cx ord
  by intro_locales

section \<open>One file, two kinds of senders, three kinds of receivers\<close>

lemma same_session_same_stream:
  assumes "ns_session h = ws_inner w"
  shows "snd (display_n (browser_display rq (crc32_of cx)) clock n w) = snd (display_n (c_display rq cx) clock n h)"
proof -
  obtain s rs where e: "emit_n rq (crc32_of cx) clock n (ns_session h) = (s, rs)"
    by (cases "emit_n rq (crc32_of cx) clock n (ns_session h)")
  with c_sender.displays_emitted [OF e] browser_sender.displays_emitted [OF e [unfolded assms]] show ?thesis by simp
qed

text \<open>
  C11: a native host and a browser show the same pictures.  Whatever segment of a file a native host selects, the
  browser constructors, given the same payload, name, identity and digests, succeed, and the two then display the
  same bytes, call by call and for ever: frames up to the call that finds no symbol id left, and
  nothing from then on.
\<close>

theorem hosts_show_same:
  assumes "upstream_ok rq" "\<And>x. length (sha256_of cx x) = 32"
    and "cffi_sender_create rq cx (Some payload) (Some filename) modified redundancy ssz = Some h"
    and "length payload < 2 ^ 64" "cffi_select_segment rq cx (Some h) index = (Some h', 1)"
  shows "\<exists>w. browser_counterpart rq cx payload filename redundancy ssz h index = Inr w \<and>
    (\<forall>clock n. snd (display_n (browser_display rq (crc32_of cx)) clock n w) = snd (display_n (c_display rq cx) clock n h')) \<and>
    (\<forall>clock n i. i < n \<longrightarrow> (snd (display_n (c_display rq cx) clock n h') ! i = None \<longleftrightarrow>
       call_of (session_limit (sn_meta (ns_session h'))) \<le> i))"
proof -
  from selected_session [OF assms] have S: "segment_session rq cx h (unat index) (ns_session h')" by simp
  let ?w = "\<lparr>ws_inner = ns_session h', ws_qr_scratch = replicate QR_SCRATCH_BYTES 0\<rparr>"
  have "browser_counterpart rq cx payload filename redundancy ssz h index = Inr ?w"
    by (rule browser_native_sessions [OF assms(3,2,4,5)])
  moreover have "snd (display_n (c_display rq cx) clock n h') ! i = None \<longleftrightarrow>
      call_of (session_limit (sn_meta (ns_session h'))) \<le> i" if "i < n" for clock n i
    using S that unfolding segment_session_def by (intro c_sender.display_ends [OF assms(1)]) blast+
  ultimately show ?thesis by (intro exI [of _ ?w]) (simp add: same_session_same_stream)
qed

text \<open>
  C8: any device sends to any device.  A native host that has selected a segment of its file and the browser that
  sends the same segment display the same frames; shown enough of them for the source symbols, a
  C, an Android and a browser receiver each complete and hand out exactly that piece of the file.
\<close>

theorem any_device_to_any_device:
  fixes rq :: "('e, 'd) raptorq"
  assumes "upstream_ok rq" "\<And>x. length (sha256_of cx x) = 32" "\<And>xs. mset (ord xs) = mset xs"
    and "cffi_sender_create rq cx (Some payload) (Some filename) modified redundancy ssz = Some h"
    and "length payload < 2 ^ 64" "cffi_select_segment rq cx (Some h) index = (Some h', 1)"
    and "browser_counterpart rq cx payload filename redundancy ssz h index = Inr w"
    and "n \<le> 16720813" "sum_symbols (m_blocks (sn_meta (ns_session h'))) \<le> n - descriptors_before n"
  shows "\<exists>bss. snd (display_n (c_display rq cx) clock n h') = map Some bss \<and>
    snd (display_n (browser_display rq (crc32_of cx)) clock n w) = map Some bss \<and>
    (let piece = segment_data payload (unat index);
         feed = (\<lambda>read. foldl (\<lambda>s bs. fst (read bs s)) (new_pending (sn_session_id (ns_session h')) :: 'd receiver) bss) in
     cffi_is_complete (Some (feed (c_read rq cx ord))) = 1 \<and> c_raw (feed (c_read rq cx ord)) = piece \<and>
     jni_is_complete (Some (feed (android_read rq (crc32_of cx) ord))) = 1 \<and>
     android_raw (feed (android_read rq (crc32_of cx) ord)) = piece \<and>
     wasm_is_complete (feed (wasm_ingest rq (crc32_of cx) ord)) \<and>
     wasm_assemble_raw (feed (wasm_ingest rq (crc32_of cx) ord)) = piece)"
proof -
  from selected_session [OF assms(1,2,4-6)] have S: "segment_session rq cx h (unat index) (ns_session h')"
    and p: "ns_payload h = payload"
    and size: "fm_compressed_size (sn_file_meta (ns_session h')) = of_nat (length (segment_data payload (unat index)))"
    by simp_all
  have F: "sender_inv rq (pad_to_symbols (segment_data payload (unat index)) (sc_codec (ns_config h))) (ns_session h')"
    "digests_ok (ns_session h')" "length (pad_to_symbols (segment_data payload (unat index)) (sc_codec (ns_config h))) \<le> 33554432"
    "announce_ok (ns_session h')" "position_of (ns_session h') = 0" "sn_frame_index (ns_session h') = 0"
    "sn_descriptor_interval (ns_session h') = 17"
    using S by (simp_all add: segment_session_def p)
  note P = assms(1,3) F size assms(8,9)
  have w: "ns_session h' = ws_inner w"
    using browser_native_sessions [OF assms(4,2,5,6)] assms(7) by simp
  obtain bss where c: "snd (display_n (c_display rq cx) clock n h') = map Some bss"
    "receiver_is_complete (foldl (\<lambda>s bs. fst (c_read rq cx ord bs s)) (new_pending (sn_session_id (ns_session h')) :: 'd receiver) bss)"
    "c_raw (foldl (\<lambda>s bs. fst (c_read rq cx ord bs s)) (new_pending (sn_session_id (ns_session h')) :: 'd receiver) bss) =
      segment_data payload (unat index)"
    using c_to_c.pair_transfers [OF P, where clock = clock] by blast
  have inj: "bss' = bss" if "snd (display_n (c_display rq cx) clock n h') = map Some bss'" for bss'
    using that c(1) by (simp add: inj_map_eq_map)
  have a: "receiver_is_complete (foldl (\<lambda>s bs. fst (android_read rq (crc32_of cx) ord bs s)) (new_pending (sn_session_id (ns_session h')) :: 'd receiver) bss)"
    "android_raw (foldl (\<lambda>s bs. fst (android_read rq (crc32_of cx) ord bs s)) (new_pending (sn_session_id (ns_session h')) :: 'd receiver) bss) =
      segment_data payload (unat index)"
    using c_to_android.pair_transfers [OF P, where clock = clock] inj by blast+
  have b: "receiver_is_complete (foldl (\<lambda>s bs. fst (wasm_ingest rq (crc32_of cx) ord bs s)) (new_pending (sn_session_id (ns_session h')) :: 'd receiver) bss)"
    "wasm_assemble_raw (foldl (\<lambda>s bs. fst (wasm_ingest rq (crc32_of cx) ord bs s)) (new_pending (sn_session_id (ns_session h')) :: 'd receiver) bss) =
      segment_data payload (unat index)"
    using c_to_browser.pair_transfers [OF P, where clock = clock] inj by blast+
  show ?thesis
    using a b c same_session_same_stream [OF w, of rq cx clock n]
    by (intro exI [of _ bss]) (simp add: Let_def cffi_is_complete_def jni_is_complete_def wasm_is_complete_def)
qed

end
