(* ===== verification/Host_Demo.thy ===== *)
theory Host_Demo
  imports Host_Contract Browser_Demo Cffi_Demo
begin

text \<open>The witnesses of what the hosts promise together.\<close>

lemma android_numbers_exact_witness:
  "\<exists>s. rx_reach ref_rq (\<lambda>c. c) s \<and> fm_compressed_size_known (rx_file_meta s) \<and>
     sint (jni_original_size (Some s)) = 3 \<and> sint (jni_compressed_size (Some s)) = 3"
proof -
  obtain d f s' where d: "sent_frame ref_rq (\<lambda>_. 5) demo_sender d" "\<not> is_data d"
    using demo_frames by metis
  note N = sender_new_inv [OF ref_upstream demo_sender_new sent_len]
  then have st: "sender_static ref_rq (pad_to_symbols [1, 2, 3] (sc_codec sent_config)) demo_sender"
    by (simp add: sender_inv_def)
  note D = sent_descriptor [OF ref_upstream st N(2) sent_len demo_announce d]
  let ?s0 = "new_pending (fh_session_id (fr_header d)) :: ref_dec receiver"
  obtain s r where i: "ingest ref_rq (\<lambda>c. c) d ?s0 = (s, r)" by fastforce
  have "frame_valid (\<lambda>_. 5) d" using d(1) unfolding sent_frame_def by blast
  then have "length (fr_payload d) < 2 ^ 32" by (rule valid_length)
  with i have reach: "rx_reach ref_rq (\<lambda>c. c) s" by (blast intro: reach_pending reach_frame)
  have "s = fst (ingest ref_rq (\<lambda>c. c) d ?s0)" by (simp add: i)
  from first_descriptor [OF refl _ this] D
  have "rx_file_meta s = di_file_meta (announced demo_sender)" "rx_segment_meta s = None"
    by (simp_all add: FLAG_DESCRIPTOR_def announced_def demo_sender_def)
  then have fm: "fm_compressed_size_known (rx_file_meta s)" "fm_compressed_size (rx_file_meta s) = 3"
    "fm_original_size (rx_file_meta s) = 3" "jni_is_segmented (Some s) = 0"
    by (simp_all add: announced_def demo_sender_def sent_file_meta_def demo_file_def jni_is_segmented_def)
  with android_numbers_exact [OF reach] have
    "sint (jni_original_size (Some s)) = uint (cffi_original_size (Some s))"
    "sint (jni_compressed_size (Some s)) = uint (cffi_compressed_size (Some s))" by simp_all
  with reach fm show ?thesis
    by (intro exI [of _ s]) (simp add: cffi_original_size_def cffi_compressed_size_def)
qed

text \<open>The first descriptor of a transfer is accepted, and its Android status is 0.\<close>

lemma first_descriptor_uncounted:
  assumes "ingest_descriptor ref_rq (\<lambda>c. c) d (begin_frame (new_pending 7)) = (s, r)"
    and "parse_payload (fr_payload d) = Some info" "\<not> descriptor_rejected ref_rq d info" "di_meta info = demo_desc_meta"
  shows "rx_meta_confirmed s" "\<not> receiver_is_complete s" "pg_received_symbols (receiver_progress s) = 0"
    "pg_session_mismatch_streak (receiver_progress s) = 0"
proof -
  have "is_ok (meta_validate ref_rq demo_desc_meta)" using assms(3,4) by (simp add: descriptor_rejected_def)
  then obtain dec where dec: "decoder_new ref_rq demo_desc_meta = Inr dec"
    by (auto simp: is_ok_iff meta_validate_iff decoder_new_Inr Let_def)
  then have open_block: "\<not> decoder_is_complete dec"
    by (auto simp: decoder_new_def decoder_is_complete_def demo_desc_meta_def Let_def bind_result_Inr)
  from assms dec have s: "s = adopt_descriptor info (refresh_decoded_counts
      (upd_progress (\<lambda>p. p\<lparr>pg_received_symbols := 0\<rparr>) (reset_for_meta demo_desc_meta dec (begin_frame (new_pending 7)))))"
    by (simp add: ingest_descriptor_def apply_meta_def finish_def begin_frame_def new_pending_def receiver_build_def
        reset_for_meta_def demo_desc_meta_def)
  from open_block show "rx_meta_confirmed s" "\<not> receiver_is_complete s" "pg_received_symbols (receiver_progress s) = 0"
    "pg_session_mismatch_streak (receiver_progress s) = 0"
    by (simp_all add: s adopt_descriptor_def refresh_decoded_counts_def reset_for_meta_def begin_frame_def
        new_pending_def receiver_build_def receiver_is_complete_def receiver_progress_def progress_default_def)
qed

lemma android_zero_status_witness:
  "\<exists>bs s'. jni_ingest ref_rq (\<lambda>_. 5) (\<lambda>c. c) (Some (new_pending 7)) (Some bs) = (Some s', 0) \<and>
     rx_meta s' = Some demo_desc_meta"
proof -
  obtain d f s' where d: "sent_frame ref_rq (\<lambda>_. 5) demo_sender d" "\<not> is_data d"
    using demo_frames by metis
  note N = sender_new_inv [OF ref_upstream demo_sender_new sent_len]
  then have st: "sender_static ref_rq (pad_to_symbols [1, 2, 3] (sc_codec sent_config)) demo_sender"
    by (simp add: sender_inv_def)
  note D = sent_descriptor [OF ref_upstream st N(2) sent_len demo_announce d]
  have id: "fh_session_id (fr_header d) = 7" using d(1) by (simp add: sent_frame_def demo_sender_def)
  have p: "frame_from_bytes (\<lambda>_. 5) (frame_to_bytes d) = Inr d"
    using d(1) by (intro from_to_bytes) (simp add: sent_frame_def)
  have m: "di_meta (announced demo_sender) = demo_desc_meta" by (simp add: announced_def demo_sender_def)
  let ?s0 = "new_pending 7 :: ref_dec receiver"
  obtain s r where i: "ingest_descriptor ref_rq (\<lambda>c. c) d (begin_frame ?s0) = (s, r)" by fastforce
  then have s: "fst (ingest ref_rq (\<lambda>c. c) d ?s0) = s" using D id by (simp add: ingest_def FLAG_DESCRIPTOR_def Let_def)
  note F = first_descriptor_uncounted [OF i conjunct1 [OF D] conjunct1 [OF conjunct2 [OF D]] m]
  have z: "snd (jni_ingest ref_rq (\<lambda>_. 5) (\<lambda>c. c) (Some ?s0) (Some (frame_to_bytes d))) = 0"
    unfolding android_zero_status using p F by (simp add: s Let_def)
  have "rx_meta s = Some demo_desc_meta"
    using first_descriptor [where rq = ref_rq and ord = "\<lambda>c. c" and f = d, OF refl _ refl] D m s id
    by (simp add: FLAG_DESCRIPTOR_def)
  with z p s show ?thesis
    by (intro exI [of _ "frame_to_bytes d"] exI [of _ s]) (auto simp: jni_ingest_packed ingest_packed_def Let_def)
qed

lemma hosts_recover_witness:
  "\<exists>s' fs. emit_n ref_rq (crc32_of demo_codecs) (\<lambda>_. (1, 2, 3)) 2 demo_sender = (s', map Inr fs) \<and>
     wasm_assemble_raw (foldl (\<lambda>s bs. fst (wasm_ingest ref_rq (crc32_of demo_codecs) (\<lambda>c. c) bs s))
       (new_pending 7) (map frame_to_bytes fs)) = [1, 2, 3]"
proof -
  obtain s' rs where e: "emit_n ref_rq (crc32_of demo_codecs) (\<lambda>_. (1, 2, 3)) 2 demo_sender = (s', rs)" by fastforce
  have "(2 :: nat) \<le> 16720813" by simp
  from hosts_recover [where ord = "\<lambda>c. c", OF ref_upstream refl demo_sender_new sent_len demo_announce demo_size(1) this
      demo_enough e] e
  show ?thesis by (auto simp: Let_def)
qed

lemma host_streams_agree_witness:
  "snd (cffi_decompress_stream_to_file demo_codecs (\<lambda>_ _. demo_io) (Some [97]) (Some [97]) 2 0
      4 4 True (Some [97]) (Some [9])) =
   snd (jni_decompress_stream_to_file demo_codecs (\<lambda>_ _. demo_io) (Some [97]) (Some [97]) 2 (- 1)
      4 4 1 (Some [97]) (Some [9]))"
  using host_streams_agree [OF letter_name(2) letter_name(2) letter_name(2), of demo_codecs "\<lambda>_ _. demo_io" 2 "- 1" 4 4 True "Some [9]"]
  by (simp add: case_prod_beta) (metis snd_conv)

text \<open>A file of three bytes, selected by a native host.\<close>

lemma tiny_file:
  obtains h x where "cffi_sender_create ref_rq demo_codecs (Some [1, 2, 3]) (Some [97]) 0 25 65528 = Some h"
    "cffi_select_segment ref_rq demo_codecs (Some h) 0 = (Some x, 1)"
proof -
  obtain h where h: "cffi_sender_create ref_rq demo_codecs (Some [1, 2, 3]) (Some [97]) 0 25 65528 = Some h"
    "ns_config h = big_config"
    using big_create [of "[1, 2, 3]" "[97]"] letter_name by auto
  then have new: "native_new ref_rq demo_codecs [1, 2, 3] [97] 0 25 65528 = Inr h"
    by (auto simp: cffi_sender_create_def split: if_splits sum.splits)
  have l: "length [1 :: u8, 2, 3] < 2 ^ 64" by simp
  from native_new_ok [OF new l] have ok: "native_ok demo_codecs h" by simp
  have "0 < seg_count (length (ns_payload h))" by (simp add: seg_count_def)
  from big_select [OF ok h(2) this] obtain x where
    "cffi_select_segment ref_rq demo_codecs (Some h) 0 = (Some x, 1)" by auto
  with h(1) show thesis by (rule that)
qed

lemma browser_native_sessions_witness:
  "\<exists>(h :: ref_enc native_sender) h'.
     cffi_sender_create ref_rq demo_codecs (Some [1, 2, 3]) (Some [97]) 0 25 65528 = Some h \<and>
     cffi_select_segment ref_rq demo_codecs (Some h) 0 = (Some h', 1) \<and>
     wasm_sender_new ref_rq [1, 2, 3] (ucast (ns_root_session_id h)) (ucast (drop_bit 64 (ns_root_session_id h)))
       25 65528 [97] 3 (ns_crc32 h) COMPRESSION_NONE =
     Inr \<lparr>ws_inner = ns_session h', ws_qr_scratch = replicate QR_SCRATCH_BYTES 0\<rparr>"
proof -
  obtain h x where h: "cffi_sender_create ref_rq demo_codecs (Some [1, 2, 3]) (Some [97]) 0 25 65528 = Some h"
    and x: "cffi_select_segment ref_rq demo_codecs (Some h) 0 = (Some x, 1)" by (rule tiny_file)
  have l: "length [1 :: u8, 2, 3] < 2 ^ 64" by simp
  have one: "seg_count (length [1 :: u8, 2, 3]) = 1" by (simp add: seg_count_def seg_bytes_def)
  from browser_native_sessions [OF h demo_sha l x, unfolded browser_counterpart_def if_P [OF one]] h x show ?thesis by auto
qed

end
