(* ===== verification/Stream_Demo.thy ===== *)
theory Stream_Demo
  imports Host_Stream Host_Demo
begin

text \<open>The witnesses of \<open>Host_Stream\<close>: a file of three bytes, sent by a native host and by a browser.\<close>

lemma hosts_show_same_witness:
  "\<exists>(h :: ref_enc native_sender) h' w.
     cffi_sender_create ref_rq demo_codecs (Some [1, 2, 3]) (Some [97]) 0 25 65528 = Some h \<and>
     cffi_select_segment ref_rq demo_codecs (Some h) 0 = (Some h', 1) \<and>
     browser_counterpart ref_rq demo_codecs [1, 2, 3] [97] 25 65528 h 0 = Inr w \<and>
     snd (display_n (browser_display ref_rq (crc32_of demo_codecs)) (\<lambda>_. (1, 2, 3)) 40 w) =
       snd (display_n (c_display ref_rq demo_codecs) (\<lambda>_. (1, 2, 3)) 40 h')"
proof -
  obtain h x where h: "cffi_sender_create ref_rq demo_codecs (Some [1, 2, 3]) (Some [97]) 0 25 65528 = Some h"
    and x: "cffi_select_segment ref_rq demo_codecs (Some h) 0 = (Some x, 1)" by (rule tiny_file)
  have l: "length [1 :: u8, 2, 3] < 2 ^ 64" by simp
  from hosts_show_same [OF ref_upstream demo_sha h l x] h x show ?thesis by blast
qed

lemma any_device_to_any_device_witness:
  "\<exists>(h :: ref_enc native_sender) h' bss.
     cffi_sender_create ref_rq demo_codecs (Some [1, 2, 3]) (Some [97]) 0 25 65528 = Some h \<and>
     cffi_select_segment ref_rq demo_codecs (Some h) 0 = (Some h', 1) \<and>
     snd (display_n (c_display ref_rq demo_codecs) (\<lambda>_. (1, 2, 3)) 600000 h') = map Some bss \<and>
     android_raw (foldl (\<lambda>s bs. fst (android_read ref_rq (crc32_of demo_codecs) (\<lambda>c. c) bs s))
       (new_pending (sn_session_id (ns_session h'))) bss) = [1, 2, 3]"
proof -
  obtain h x where h: "cffi_sender_create ref_rq demo_codecs (Some [1, 2, 3]) (Some [97]) 0 25 65528 = Some h"
    and x: "cffi_select_segment ref_rq demo_codecs (Some h) 0 = (Some x, 1)" by (rule tiny_file)
  have l: "length [1 :: u8, 2, 3] < 2 ^ 64" by simp
  have "segment_session ref_rq demo_codecs h (unat (0 :: u32)) (ns_session x)"
    using selected_session [OF ref_upstream demo_sha h l x] by blast
  then have "sum_symbols (m_blocks (sn_meta (ns_session x))) \<le> 524288"
    unfolding segment_session_def sender_inv_def sender_static_def meta_ok_def by blast
  then have n: "(600000 :: nat) \<le> 16720813"
    "sum_symbols (m_blocks (sn_meta (ns_session x))) \<le> 600000 - descriptors_before 600000" by (simp_all add: big_count)
  have piece: "segment_data [1, 2, 3] (unat (0 :: u32)) = [1 :: u8, 2, 3]"
    by (simp add: segment_data_def seg_count_def seg_bytes_def)
  from any_device_to_any_device [OF ref_upstream demo_sha refl h l x
      browser_native_sessions [OF h demo_sha l x] n, where clock = "\<lambda>_. (1, 2, 3)"] h x
  show ?thesis unfolding piece Let_def by blast
qed

end
