(* ===== verification/Floats.thy ===== *)
theory Floats
  imports Complex_Main "HOL-Library.Log_Nat" Prelude
begin

text \<open>
  The part of \<open>f64\<close> the program uses: non-negative numbers made from integers by conversion, product and
  quotient.  A double is the rational number it stands for.  Every operation rounds the exact
  result to 53 significant bits, ties to even.  Sums of exponents stay far from the limits of the
  format here (all operands are below \<open>2 ^ 130\<close> and, unless zero, above \<open>2 ^ (-130)\<close>), so there are no
  infinities and no subnormal numbers.
\<close>

definition round_even :: "rat \<Rightarrow> int" where
  "round_even q =
     (let f = floor q; d = q - of_int f in
      if d < 1 / 2 then f else if 1 / 2 < d then f + 1 else if even f then f else f + 1)"

text \<open>The exponent of the last place: \<open>q / 2 powi ulp_exp q\<close> has 53 bits before the point.\<close>

definition ulp_exp :: "rat \<Rightarrow> int" where
  "ulp_exp q = (case quotient_of q of (n, d) \<Rightarrow>
     let k = bitlen n - bitlen d in if q < 2 powi k then k - 53 else k - 52)"

definition f64_round :: "rat \<Rightarrow> rat" where
  "f64_round q = (if q \<le> 0 then 0 else of_int (round_even (q / 2 powi ulp_exp q)) * 2 powi ulp_exp q)"

definition f64_of_u64 :: "u64 \<Rightarrow> rat" where "f64_of_u64 w = f64_round (of_nat (unat w))"
definition f64_mul :: "rat \<Rightarrow> rat \<Rightarrow> rat" where "f64_mul x y = f64_round (x * y)"
definition f64_div :: "rat \<Rightarrow> rat \<Rightarrow> rat" where "f64_div x y = f64_round (x / y)"

section \<open>Rounding\<close>

lemma round_even_int [simp]: "round_even (of_int n) = n"
  by (simp add: round_even_def)

lemma round_even_near: "\<bar>of_int (round_even q) - q\<bar> \<le> 1 / 2"
proof -
  have "of_int \<lfloor>q\<rfloor> \<le> q" "q < of_int \<lfloor>q\<rfloor> + 1" by linarith+
  then show ?thesis by (auto simp: round_even_def Let_def)
qed

lemma round_even_le: "q \<le> of_int n \<Longrightarrow> round_even q \<le> n"
proof -
  assume q: "q \<le> of_int n"
  have f: "of_int \<lfloor>q\<rfloor> \<le> q" "q < of_int \<lfloor>q\<rfloor> + 1" by linarith+
  from q f(1) have n: "\<lfloor>q\<rfloor> \<le> n" by linarith
  show ?thesis
  proof (cases "\<lfloor>q\<rfloor> = n")
    case True
    with q f(1) have "q = of_int n" by simp
    then show ?thesis by simp
  next
    case False
    with n show ?thesis by (simp add: round_even_def Let_def)
  qed
qed

lemma round_even_ge:
  assumes "of_int n \<le> q" shows "n \<le> round_even q"
proof -
  from assms have "n \<le> \<lfloor>q\<rfloor>" by (simp add: le_floor_iff)
  then show ?thesis by (auto simp: round_even_def Let_def)
qed

lemma pow_int_rat: "2 powi int n = (2 :: rat) ^ n"
  by (simp add: power_int_def)

lemma ulp_exp_bounds:
  assumes "0 < q"
  shows "2 ^ 52 \<le> q / 2 powi ulp_exp q" "q / 2 powi ulp_exp q < 2 ^ 53"
proof -
  obtain n d where nd: "quotient_of q = (n, d)" by fastforce
  have d: "0 < d" and q: "q = of_int n / of_int d" using quotient_of_denom_pos [OF nd] quotient_of_div [OF nd] by simp_all
  with assms have n: "0 < n" by (simp add: zero_less_divide_iff)
  let ?k = "bitlen n - bitlen d"
  have bl: "1 \<le> bitlen n" "1 \<le> bitlen d" using n d bitlen_eq_zero_iff bitlen_nonneg by (smt (verit))+
  have up: "(of_int m :: rat) < 2 powi bitlen m" and lo: "2 powi (bitlen m - 1) \<le> (of_int m :: rat)"
    if m: "0 < m" "1 \<le> bitlen m" for m
  proof -
    have "(2 :: rat) powi bitlen m = of_int (2 ^ nat (bitlen m))" "(2 :: rat) powi (bitlen m - 1) = of_int (2 ^ nat (bitlen m - 1))"
      using m(2) by (simp_all add: power_int_def)
    with bitlen_bounds [OF m(1)] show "(of_int m :: rat) < 2 powi bitlen m" "2 powi (bitlen m - 1) \<le> (of_int m :: rat)"
      by (simp_all only: of_int_less_iff of_int_le_iff)
  qed
  have dpos: "(0 :: rat) < of_int d" using d by simp
  have "q < 2 powi bitlen n / 2 powi (bitlen d - 1)"
    unfolding q by (rule frac_less) (use n d up [OF n bl(1)] lo [OF d bl(2)] in \<open>auto simp: zero_less_power_int\<close>)
  also have "\<dots> = 2 powi (?k + 1)" by (simp flip: power_int_diff add: algebra_simps)
  finally have hi: "q < 2 powi (?k + 1)" .
  have "2 powi (?k - 1) = 2 powi (bitlen n - 1) / (2 powi bitlen d :: rat)" by (simp flip: power_int_diff add: algebra_simps)
  also have "\<dots> \<le> q"
    unfolding q by (rule frac_le) (use n d up [OF d bl(2)] lo [OF n bl(1)] in auto)
  finally have low: "2 powi (?k - 1) \<le> q" .
  have split: "(2 :: rat) powi (e + int m) = 2 powi e * 2 ^ m" for e m by (simp add: power_int_add pow_int_rat)
  show "2 ^ 52 \<le> q / 2 powi ulp_exp q" "q / 2 powi ulp_exp q < 2 ^ 53"
    using hi low split [of "?k - 53" 52] split [of "?k - 53" 53] split [of "?k - 52" 52] split [of "?k - 52" 53]
    by (auto simp: ulp_exp_def nd Let_def field_simps zero_less_power_int)
qed

lemma f64_round_nonneg: "0 \<le> f64_round q"
proof (cases "q \<le> 0")
  case False
  then have "0 \<le> round_even (q / 2 powi ulp_exp q)" by (intro round_even_ge) simp
  with False show ?thesis by (simp add: f64_round_def)
qed (simp add: f64_round_def)

text \<open>The relative error of one operation.\<close>

lemma f64_round_near: "0 \<le> q \<Longrightarrow> \<bar>f64_round q - q\<bar> \<le> q / 2 ^ 53"
proof (cases "q = 0")
  case False
  assume "0 \<le> q"
  with False have q: "0 < q" by simp
  let ?u = "2 powi ulp_exp q :: rat" and ?m = "q / 2 powi ulp_exp q"
  have u: "0 < ?u" by simp
  have "f64_round q - q = (of_int (round_even ?m) - ?m) * ?u" using q u by (simp add: f64_round_def algebra_simps)
  then have "\<bar>f64_round q - q\<bar> = \<bar>of_int (round_even ?m) - ?m\<bar> * ?u" using u by (simp add: abs_mult)
  also have "\<dots> \<le> 1 / 2 * ?u" using round_even_near u by (intro mult_right_mono) auto
  also have "\<dots> \<le> q / 2 ^ 53" using ulp_exp_bounds(1) [OF q] u by (simp add: field_simps)
  finally show ?thesis .
qed (simp add: f64_round_def)

text \<open>Integers below \<open>2 ^ 53\<close> are exact, and nothing below 1 rounds past it.\<close>

lemma f64_round_nat: "n < 2 ^ 53 \<Longrightarrow> f64_round (of_nat n) = of_nat n"
proof (cases "n = 0")
  case False
  assume n: "n < 2 ^ 53"
  let ?q = "of_nat n :: rat" and ?e = "ulp_exp (of_nat n)"
  from False have q: "0 < ?q" by simp
  have le: "?e \<le> 0"
  proof (rule ccontr)
    assume "\<not> ?e \<le> 0"
    then have "(2 :: rat) powi 1 \<le> 2 powi ?e" by (intro power_int_increasing) auto
    moreover have "2 ^ 52 * 2 powi ?e \<le> ?q" using ulp_exp_bounds(1) [OF q] by (simp add: field_simps)
    ultimately have "(2 :: rat) ^ 53 \<le> ?q" by simp
    moreover from n have "?q < of_nat (2 ^ 53)" by (simp only: of_nat_less_iff)
    ultimately show False by simp
  qed
  then have "(2 :: rat) powi ?e = inverse (2 ^ nat (- ?e))" by (cases "?e = 0") (simp_all add: power_int_def power_one_over inverse_eq_divide)
  then have m: "?q / 2 powi ?e = of_int (int n * 2 ^ nat (- ?e))" by (simp add: divide_inverse)
  have "f64_round ?q = of_int (round_even (?q / 2 powi ?e)) * 2 powi ?e" using q by (simp add: f64_round_def)
  also have "\<dots> = ?q / 2 powi ?e * 2 powi ?e" unfolding m round_even_int ..
  finally show ?thesis by simp
qed (simp add: f64_round_def)

lemma f64_round_le_1: "q \<le> 1 \<Longrightarrow> f64_round q \<le> 1"
proof (cases "q = 1 \<or> q \<le> 0")
  case True
  then show ?thesis using f64_round_nat [of 1] by (auto simp: f64_round_def)
next
  case False
  assume "q \<le> 1"
  with False have q: "0 < q" "q < 1" by auto
  let ?e = "ulp_exp q"
  have "?e \<le> - 53"
  proof (rule ccontr)
    assume "\<not> ?e \<le> - 53"
    then have "(2 :: rat) powi (- 52) \<le> 2 powi ?e" by (intro power_int_increasing) auto
    moreover have "2 ^ 52 * 2 powi ?e \<le> q" using ulp_exp_bounds(1) [OF q(1)] by (simp add: field_simps)
    ultimately have "1 \<le> q" by (simp add: power_int_minus)
    with q(2) show False by simp
  qed
  then have "(2 :: rat) powi ?e \<le> 2 powi (- 53)" by (intro power_int_increasing) auto
  moreover have "round_even (q / 2 powi ?e) \<le> 2 ^ 53" using ulp_exp_bounds(2) [OF q(1)] by (intro round_even_le) simp
  then have "of_int (round_even (q / 2 powi ?e)) \<le> (2 ^ 53 :: rat)" by (metis of_int_le_iff of_int_numeral of_int_power)
  ultimately have "of_int (round_even (q / 2 powi ?e)) * 2 powi ?e \<le> (2 ^ 53 :: rat) * 2 powi (- 53)"
    by (intro mult_mono) auto
  with q show ?thesis by (simp add: f64_round_def power_int_minus)
qed

lemma f64_round_less_1:
  assumes "q \<le> 1 - 1 / 2 ^ 32" shows "f64_round q < 1"
proof (cases "q \<le> 0")
  case False
  then have "f64_round q \<le> q + q / 2 ^ 53" using f64_round_near [of q] by linarith
  also have "\<dots> \<le> (1 - 1 / 2 ^ 32) + (1 - 1 / 2 ^ 32) / 2 ^ 53" using assms by (intro add_mono divide_right_mono) auto
  also have "\<dots> < 1" by simp
  finally show ?thesis .
qed (simp add: f64_round_def)

end
