(* ===== verification/Rates.thy ===== *)
theory Rates
  imports Floats Progress
begin

text \<open>
  The floating-point end of \<open>core/transfer-engine/src/progress.rs\<close>: rates over the sliding window with the
  whole session as a fallback, the estimated time, and the two ratios of a receiver's progress.
\<close>

section \<open>The clock\<close>

text \<open>
  \<open>now_ms\<close> of \<open>core/transfer-engine/src/time.rs\<close>.  A native target asks for the milliseconds since 1970, which
  there may be none of when the clock stands before; a browser gives a double, cut off and kept in range.
\<close>

definition now_ms_native :: "nat option \<Rightarrow> u64" where
  "now_ms_native since_epoch = (case since_epoch of Some millis \<Rightarrow> of_nat millis | None \<Rightarrow> 0)"

definition now_ms_wasm :: "rat \<Rightarrow> u64" where
  "now_ms_wasm date_now =
     (if date_now < 0 then 0 else if 2 ^ 64 \<le> date_now then 2 ^ 64 - 1 else of_int (floor date_now))"

section \<open>Rates of a sender\<close>

definition cumulative_fps :: "stats \<Rightarrow> rat" where
  "cumulative_fps st =
     (if st_elapsed_ms st = 0 then 0
      else f64_div (f64_mul (f64_of_u64 (st_frames st)) 1000) (f64_of_u64 (st_elapsed_ms st)))"

definition cumulative_throughput_bps :: "stats \<Rightarrow> rat" where
  "cumulative_throughput_bps st =
     (if st_elapsed_ms st = 0 then 0
      else f64_div (f64_mul (f64_of_u64 (st_bytes st)) 1000) (f64_of_u64 (st_elapsed_ms st)))"

definition fps_at :: "stats \<Rightarrow> u64 \<Rightarrow> rat" where
  "fps_at st now =
     (case window_rates st now of (span_ms, frames, _) \<Rightarrow>
        if frames < 2 \<or> span_ms = 0 then cumulative_fps st
        else f64_div (f64_mul (f64_of_u64 frames) 1000) (f64_of_u64 span_ms))"

definition throughput_bps_at :: "stats \<Rightarrow> u64 \<Rightarrow> rat" where
  "throughput_bps_at st now =
     (case window_rates st now of (span_ms, _, bytes1) \<Rightarrow>
        if bytes1 = 0 \<or> span_ms = 0 then cumulative_throughput_bps st
        else f64_div (f64_mul (f64_of_u64 bytes1) 1000) (f64_of_u64 span_ms))"

text \<open>
  \<open>Duration::from_secs_f64\<close> rounds to whole nanoseconds, ties to even, and panics when the seconds exceed
  64 bits: \<open>None\<close>.  A duration is its seconds and nanoseconds.
\<close>

definition duration_from_secs :: "rat \<Rightarrow> (nat \<times> nat) option" where
  "duration_from_secs q =
     (let nanos = nat (round_even (q * 1000000000))
      in if nanos div 1000000000 < 2 ^ 64 then Some (nanos div 1000000000, nanos mod 1000000000) else None)"

text \<open>The estimate: \<open>None\<close> is a panic, \<open>Some None\<close> no estimate.\<close>

definition eta :: "stats \<Rightarrow> u64 \<Rightarrow> u64 \<Rightarrow> (nat \<times> nat) option option" where
  "eta st now remaining_bytes =
     (let tput = throughput_bps_at st now in
      if tput \<le> 0 then Some None
      else map_option Some (duration_from_secs (f64_div (f64_of_u64 remaining_bytes) tput)))"

section \<open>Ratios of a receiver\<close>

definition decoded_fraction :: "progress \<Rightarrow> rat" where
  "decoded_fraction p =
     (if pg_total_symbols p = 0 then 0
      else f64_div (f64_of_u64 (ucast (pg_decoded_symbols p))) (f64_of_u64 (ucast (pg_total_symbols p))))"

definition loss_ratio :: "progress \<Rightarrow> rat" where
  "loss_ratio p =
     (if pg_frames_seen p = 0 then 0
      else f64_div (f64_of_u64 (pg_frames_duplicate p + pg_frames_corrupt p)) (f64_of_u64 (pg_frames_seen p)))"

lemma f64_of_u64_exact:
  assumes "unat w < 2 ^ 53" shows "f64_of_u64 w = of_nat (unat w)"
  using f64_round_nat [OF assms] by (simp only: f64_of_u64_def)

lemma f64_of_u32: "f64_of_u64 (ucast (w :: u32)) = of_nat (unat w)"
proof -
  have u: "unat (ucast w :: u64) = unat w" using unat_lt [of w] by (simp add: unsigned_ucast_eq take_bit_nat_eq_self)
  have "unat w < 2 ^ 53" using unat_lt [of w] by simp
  then have "unat (ucast w :: u64) < 2 ^ 53" by (simp only: u)
  from f64_of_u64_exact [OF this] show ?thesis by (simp only: u)
qed

text \<open>The lost frames are a fraction of the frames seen.\<close>

lemma loss_ratio_bounds:
  assumes "unat (pg_frames_duplicate p) + unat (pg_frames_corrupt p) \<le> unat (pg_frames_seen p)"
    "unat (pg_frames_seen p) < 2 ^ 53"
  shows "0 \<le> loss_ratio p" "loss_ratio p \<le> 1"
proof -
  let ?a = "pg_frames_duplicate p + pg_frames_corrupt p"
  have u: "unat ?a = unat (pg_frames_duplicate p) + unat (pg_frames_corrupt p)"
    using assms by (subst unat_add_lem [symmetric]) simp
  with assms have le: "unat ?a \<le> unat (pg_frames_seen p)" by simp
  have q: "loss_ratio p = (if pg_frames_seen p = 0 then 0
      else f64_round (of_nat (unat ?a) / of_nat (unat (pg_frames_seen p))))"
    using le assms(2) by (simp add: loss_ratio_def f64_div_def f64_of_u64_exact del: of_nat_unat)
  show "0 \<le> loss_ratio p" by (simp add: q f64_round_nonneg)
  have "(of_nat (unat ?a) :: rat) / of_nat (unat (pg_frames_seen p)) \<le> 1"
    using le by (cases "unat (pg_frames_seen p) = 0") (simp_all add: divide_le_eq_1 del: of_nat_unat)
  then show "loss_ratio p \<le> 1" unfolding q by (simp add: f64_round_le_1 del: of_nat_unat)
qed

text \<open>The decoded fraction is a fraction, and 1 only when everything is decoded.\<close>

lemma decoded_fraction_bounds:
  assumes "pg_decoded_symbols p \<le> pg_total_symbols p"
  shows "0 \<le> decoded_fraction p" "decoded_fraction p \<le> 1"
    "decoded_fraction p = 1 \<longleftrightarrow> 0 < pg_total_symbols p \<and> pg_decoded_symbols p = pg_total_symbols p"
proof -
  let ?a = "unat (pg_decoded_symbols p)" and ?b = "unat (pg_total_symbols p)"
  have le: "?a \<le> ?b" using assms by (simp add: word_le_nat_alt)
  have df: "decoded_fraction p = (if ?b = 0 then 0 else f64_round (of_nat ?a / of_nat ?b))"
    by (simp add: decoded_fraction_def f64_div_def f64_of_u32 unat_eq_0)
  show "0 \<le> decoded_fraction p" by (simp add: df f64_round_nonneg)
  have "(of_nat ?a :: rat) / of_nat ?b \<le> 1" using le by (cases "?b = 0") (simp_all add: divide_le_eq_1 del: of_nat_unat)
  then show "decoded_fraction p \<le> 1" unfolding df by (simp add: f64_round_le_1 del: of_nat_unat)
  show "decoded_fraction p = 1 \<longleftrightarrow> 0 < pg_total_symbols p \<and> pg_decoded_symbols p = pg_total_symbols p"
  proof (cases "?b = 0 \<or> ?a = ?b")
    case True
    then consider "?b = 0" | "?b \<noteq> 0" "pg_decoded_symbols p = pg_total_symbols p" by (auto simp: word_unat_eq_iff)
    then show ?thesis
    proof cases
      case 1
      then show ?thesis by (simp add: df unat_eq_0)
    next
      case 2
      then have "(of_nat ?b :: rat) \<noteq> 0" by (simp del: of_nat_unat)
      with 2 have "decoded_fraction p = f64_round (of_nat 1)" by (simp add: df del: of_nat_unat)
      also have "\<dots> = 1" using f64_round_nat [of 1] by simp
      finally show ?thesis using 2 by (simp add: word_less_nat_alt)
    qed
  next
    case False
    with le have lt: "?a + 1 \<le> ?b" "0 < ?b" by auto
    have "?b < 2 ^ 32" using unat_lt [of "pg_total_symbols p"] by simp
    then have "(of_nat ?b :: rat) \<le> 2 ^ 32" by (metis less_imp_le of_nat_le_iff of_nat_numeral of_nat_power)
    then have "1 / 2 ^ 32 \<le> 1 / (of_nat ?b :: rat)" using lt(2) by (intro divide_left_mono) (auto simp del: of_nat_unat)
    moreover have "of_nat ?a / (of_nat ?b :: rat) \<le> (of_nat ?b - 1) / of_nat ?b"
      using lt by (intro divide_right_mono) (auto simp flip: of_nat_Suc simp del: of_nat_unat)
    moreover have "(of_nat ?b - 1) / of_nat ?b = 1 - 1 / (of_nat ?b :: rat)" using lt(2) by (simp add: field_simps del: of_nat_unat)
    ultimately have "of_nat ?a / (of_nat ?b :: rat) \<le> 1 - 1 / 2 ^ 32" by linarith
    from f64_round_less_1 [OF this] have "decoded_fraction p \<noteq> 1" using lt(2) by (simp add: df)
    then show ?thesis using False by auto
  qed
qed

end
