(* ===== verification/Progress_Text.thy ===== *)
theory Progress_Text
  imports Rates Jni Browser
begin

text \<open>
  The progress and statistics texts of the three hosts: \<open>progress_json\<close> in \<open>cffi.rs\<close>, \<open>jni.rs\<close> and \<open>wasm.rs\<close>,
  \<open>stats_json\<close> in \<open>wasm.rs\<close>, with the \<open>Display\<close> of integers and booleans and the \<open>{:.4}\<close> format of a
  double written out; and a reader that gets the fields back.
\<close>

section \<open>Formatting\<close>

definition digit :: "nat \<Rightarrow> char" where "digit n = char_of (48 + n)"

definition show_bool :: "bool \<Rightarrow> string" where
  "show_bool b = (if b then ''true'' else ''false'')"

text \<open>\<open>{:.4}\<close>: the exact value of the double, rounded to four decimals, ties to even.\<close>

definition fixed4 :: "rat \<Rightarrow> string" where
  "fixed4 q =
     (let n = nat (round_even (q * 10000))
      in show_nat (n div 10000) @ ''.'' @
         [digit (n div 1000 mod 10), digit (n div 100 mod 10), digit (n div 10 mod 10), digit (n mod 10)])"

text \<open>The format string the three hosts share; \<open>whole\<close> is what they do not.\<close>

definition progress_text :: "progress \<Rightarrow> bool \<Rightarrow> string" where
  \<open>progress_text p whole =
     ''{"decoded_symbols":'' @ show_nat (unat (pg_decoded_symbols p)) @
     '',"total_symbols":'' @ show_nat (unat (pg_total_symbols p)) @
     '',"symbol_size":'' @ show_nat (unat (pg_symbol_size p)) @
     '',"received_symbols":'' @ show_nat (unat (pg_received_symbols p)) @
     '',"frames_seen":'' @ show_nat (unat (pg_frames_seen p)) @
     '',"frames_duplicate":'' @ show_nat (unat (pg_frames_duplicate p)) @
     '',"frames_corrupt":'' @ show_nat (unat (pg_frames_corrupt p)) @
     '',"decoded_blocks":'' @ show_nat (unat (pg_decoded_blocks p)) @
     '',"total_blocks":'' @ show_nat (unat (pg_total_blocks p)) @
     '',"decoded_fraction":'' @ fixed4 (decoded_fraction p) @
     '',"loss_ratio":'' @ fixed4 (loss_ratio p) @
     '',"complete":'' @ show_bool whole @
     '',"meta_confirmed":'' @ show_bool (pg_meta_confirmed p) @
     '',"session_mismatch_streak":'' @ show_nat (unat (pg_session_mismatch_streak p)) @ ''}''\<close>

definition ascii :: "string \<Rightarrow> bytes" where "ascii = map (\<lambda>c. of_nat (of_char c))"

section \<open>The hosts\<close>

definition progress_json :: "progress \<Rightarrow> string" where
  "progress_json p = progress_text p (progress_is_complete p)"

definition cffi_progress_json :: "'d receiver option \<Rightarrow> bytes option \<Rightarrow> bytes option \<times> nat" where
  "cffi_progress_json h out =
     (case h of None \<Rightarrow> (out, 0) | Some s \<Rightarrow> write_cstr (ascii (progress_json (receiver_progress s))) out)"

definition fill_array :: "jni_env \<Rightarrow> bytes \<Rightarrow> bytes option" where
  "fill_array env buf =
     (let len = of_nat (length buf) :: jint in
      if \<not> jv_new_byte_array env len then None
      else if jv_set_region env buf then Some buf else None)"

definition jni_progress_text :: "progress \<Rightarrow> string" where
  "jni_progress_text p = progress_text p (progress_is_complete p)"

definition jni_progress_json :: "jni_env \<Rightarrow> 'd receiver option \<Rightarrow> bytes option" where
  "jni_progress_json env h =
     (case h of
        None \<Rightarrow> null_byte_array env
      | Some s \<Rightarrow> fill_array env (ascii (jni_progress_text (receiver_progress s)) @ [0]))"

definition wasm_progress_json :: "'d receiver \<Rightarrow> string" where
  "wasm_progress_json s = progress_text (receiver_progress s) (receiver_is_complete s)"

text \<open>\<open>stats_json\<close> hands five fields to \<open>serde_json\<close>, whose rendering is the parameter \<open>to_text\<close>.\<close>

datatype json_number = Json_u64 u64 | Json_f64 rat

definition wasm_stats_json :: "((string \<times> json_number) list \<Rightarrow> string) \<Rightarrow> u64 \<Rightarrow> u64 \<Rightarrow> stats \<Rightarrow> string" where
  "wasm_stats_json to_text now_fps now_throughput st =
     to_text [(''bytes'', Json_u64 (st_bytes st)), (''frames'', Json_u64 (st_frames st)),
       (''elapsed_ms'', Json_u64 (st_elapsed_ms st)), (''fps'', Json_f64 (fps_at st now_fps)),
       (''throughput_bps'', Json_f64 (throughput_bps_at st now_throughput))]"

section \<open>Reading a text back\<close>

text \<open>A flat JSON object: cut at commas, and each piece at its first colon.\<close>

fun cut_at :: "char \<Rightarrow> string \<Rightarrow> string list" where
  "cut_at c [] = [[]]"
| "cut_at c (x # xs) =
     (if x = c then [] # cut_at c xs
      else case cut_at c xs of [] \<Rightarrow> [[x]] | p # ps \<Rightarrow> (x # p) # ps)"

definition read_field :: "string \<Rightarrow> string \<times> string" where
  "read_field s = (takeWhile (\<lambda>c. c \<noteq> CHR '':'') s, drop 1 (dropWhile (\<lambda>c. c \<noteq> CHR '':'') s))"

definition read_object :: "string \<Rightarrow> (string \<times> string) list" where
  "read_object s = map read_field (cut_at CHR '','' (butlast (drop 1 s)))"

definition read_nat :: "string \<Rightarrow> nat" where
  "read_nat s = foldl (\<lambda>n c. 10 * n + (of_char c - 48)) 0 s"

lemma show_nat_digits: "show_nat n = (if n < 10 then [digit n] else show_nat (n div 10) @ [digit (n mod 10)])"
  by (subst show_nat.simps) (simp add: digit_def)

lemma of_char_digit: "n < 10 \<Longrightarrow> of_char (digit n) = 48 + n"
  by (simp add: digit_def)

lemma read_show_nat [simp]: "read_nat (show_nat n) = n"
proof (induction n rule: less_induct)
  case (less n)
  show ?case
  proof (cases "n < 10")
    case True
    then show ?thesis by (subst show_nat_digits) (simp add: read_nat_def of_char_digit)
  next
    case False
    then have "read_nat (show_nat (n div 10)) = n div 10" by (intro less) simp
    with False show ?thesis by (subst show_nat_digits) (simp add: read_nat_def of_char_digit)
  qed
qed

text \<open>No number contains a comma or a colon.\<close>

definition plain :: "string \<Rightarrow> bool" where
  "plain s \<longleftrightarrow> CHR '','' \<notin> set s \<and> CHR '':'' \<notin> set s"

lemma plain_append [simp]: "plain (x @ y) \<longleftrightarrow> plain x \<and> plain y"
  by (auto simp: plain_def)

lemma plain_digit: "n < 10 \<Longrightarrow> digit n \<noteq> CHR '','' \<and> digit n \<noteq> CHR '':''"
  using of_char_digit [of n] by auto

lemma plain_show_nat [simp]: "plain (show_nat n)"
proof (induction n rule: show_nat.induct)
  case (1 n)
  show ?case
  proof (cases "n < 10")
    case True
    then show ?thesis using plain_digit [of n] by (subst show_nat_digits) (auto simp: plain_def)
  next
    case False
    then show ?thesis using 1 plain_digit [of "n mod 10"] by (subst show_nat_digits) (auto simp: plain_def)
  qed
qed

lemma plain_show_bool [simp]: "plain (show_bool b)"
  by (simp add: plain_def show_bool_def)

lemma plain_fixed4 [simp]: "plain (fixed4 q)"
proof -
  have d: "plain [digit (n mod 10)]" for n using plain_digit [of "n mod 10"] by (auto simp: plain_def)
  have "plain ''.''" by (simp add: plain_def)
  then show ?thesis
    unfolding fixed4_def Let_def plain_append
    using d [of "nat (round_even (q * 10000)) div 1000"] d [of "nat (round_even (q * 10000)) div 100"]
      d [of "nat (round_even (q * 10000)) div 10"] d [of "nat (round_even (q * 10000))"] plain_show_nat
    by (auto simp: plain_def)
qed

text \<open>The fields of a text in their order.\<close>

fun fields_text :: "(string \<times> string) list \<Rightarrow> string" where
  "fields_text [] = []"
| "fields_text [f] = fst f @ '':'' @ snd f"
| "fields_text (f # g # fs) = fst f @ '':'' @ snd f @ '','' @ fields_text (g # fs)"

definition progress_fields :: "progress \<Rightarrow> bool \<Rightarrow> (string \<times> string) list" where
  \<open>progress_fields p whole =
     [(''"decoded_symbols"'', show_nat (unat (pg_decoded_symbols p))),
      (''"total_symbols"'', show_nat (unat (pg_total_symbols p))),
      (''"symbol_size"'', show_nat (unat (pg_symbol_size p))),
      (''"received_symbols"'', show_nat (unat (pg_received_symbols p))),
      (''"frames_seen"'', show_nat (unat (pg_frames_seen p))),
      (''"frames_duplicate"'', show_nat (unat (pg_frames_duplicate p))),
      (''"frames_corrupt"'', show_nat (unat (pg_frames_corrupt p))),
      (''"decoded_blocks"'', show_nat (unat (pg_decoded_blocks p))),
      (''"total_blocks"'', show_nat (unat (pg_total_blocks p))),
      (''"decoded_fraction"'', fixed4 (decoded_fraction p)),
      (''"loss_ratio"'', fixed4 (loss_ratio p)),
      (''"complete"'', show_bool whole),
      (''"meta_confirmed"'', show_bool (pg_meta_confirmed p)),
      (''"session_mismatch_streak"'', show_nat (unat (pg_session_mismatch_streak p)))]\<close>

lemma progress_text_fields: "progress_text p whole = ''{'' @ fields_text (progress_fields p whole) @ ''}''"
  by (simp only: progress_text_def progress_fields_def fields_text.simps fst_conv snd_conv append_assoc append_Cons append_Nil)

lemma cut_plain: "c \<notin> set x \<Longrightarrow> cut_at c x = [x]"
  by (induction x) auto

lemma cut_first: "c \<notin> set x \<Longrightarrow> cut_at c (x @ c # r) = x # cut_at c r"
  by (induction x) auto

lemma read_one: "CHR '':'' \<notin> set k \<Longrightarrow> read_field (k @ CHR '':'' # v) = (k, v)"
  by (induction k) (auto simp: read_field_def)

lemma read_fields_text:
  "fs \<noteq> [] \<Longrightarrow> \<forall>f\<in>set fs. plain (fst f) \<and> plain (snd f) \<Longrightarrow> map read_field (cut_at CHR '','' (fields_text fs)) = fs"
proof (induction fs rule: fields_text.induct)
  case (2 f)
  then have "CHR '','' \<notin> set (fst f @ '':'' @ snd f)" by (auto simp: plain_def)
  with 2 show ?case by (simp add: cut_plain read_one plain_def)
next
  case (3 f g fs)
  then have p: "plain (fst f)" "plain (snd f)" by auto
  then have "CHR '','' \<notin> set (fst f @ '':'' @ snd f)" by (auto simp: plain_def)
  from cut_first [OF this, of "fields_text (g # fs)"] 3 p show ?case by (simp add: read_one plain_def)
qed simp

lemma progress_fields_plain: "\<forall>f\<in>set (progress_fields p whole). plain (fst f) \<and> plain (snd f)"
  unfolding progress_fields_def by (simp del: plain_append) (simp add: plain_def)

lemma read_progress_fields: "read_object (progress_text p whole) = progress_fields p whole"
  unfolding read_object_def progress_text_fields
  using read_fields_text [OF _ progress_fields_plain [of p whole]]
  by (simp add: progress_fields_def [of p whole] butlast_append)

text \<open>What a page does with the text: the counters as numbers.\<close>

definition read_progress :: "string \<Rightarrow> progress" where
  \<open>read_progress t =
     (let word = (\<lambda>k. read_nat (the (map_of (read_object t) k))) in
      \<lparr>pg_decoded_symbols = of_nat (word ''"decoded_symbols"''), pg_total_symbols = of_nat (word ''"total_symbols"''),
       pg_symbol_size = of_nat (word ''"symbol_size"''), pg_received_symbols = of_nat (word ''"received_symbols"''),
       pg_frames_seen = of_nat (word ''"frames_seen"''), pg_frames_duplicate = of_nat (word ''"frames_duplicate"''),
       pg_frames_corrupt = of_nat (word ''"frames_corrupt"''), pg_decoded_blocks = of_nat (word ''"decoded_blocks"''),
       pg_total_blocks = of_nat (word ''"total_blocks"''),
       pg_meta_confirmed = (map_of (read_object t) ''"meta_confirmed"'' = Some ''true''),
       pg_session_mismatch_streak = of_nat (word ''"session_mismatch_streak"'')\<rparr>)\<close>

lemma show_bool_true [simp]: "show_bool b = ''true'' \<longleftrightarrow> b"
  by (simp add: show_bool_def)

text \<open>
  C29: a progress text loses nothing.  Read as a flat JSON object it has the counters,
  digit for digit, with the decoded fraction, the loss ratio and the completion flag under their names.
\<close>

theorem progress_text_reads_back:
  \<open>read_progress (progress_text p whole) = p \<and>
   map_of (read_object (progress_text p whole)) ''"decoded_fraction"'' = Some (fixed4 (decoded_fraction p)) \<and>
   map_of (read_object (progress_text p whole)) ''"loss_ratio"'' = Some (fixed4 (loss_ratio p)) \<and>
   map_of (read_object (progress_text p whole)) ''"complete"'' = Some (show_bool whole)\<close>
  by (simp add: read_progress_def read_progress_fields progress_fields_def Let_def)

end
