(* ===== verification/Host_Progress.thy ===== *)
theory Host_Progress
  imports Progress_Text Receiver_Props Host_Contract
begin

text \<open>
  What the hosts show of a session in progress: the same text on each of them, ratios between 0 and 1,
  and completion exactly when the file is there.
\<close>

section \<open>Frames seen and frames lost\<close>

definition lost :: "'d receiver \<Rightarrow> nat" where
  "lost s = unat (pg_frames_duplicate (rx_progress s)) + unat (pg_frames_corrupt (rx_progress s))"

definition blank :: "progress \<Rightarrow> bool" where
  "blank p \<longleftrightarrow> pg_total_blocks p = 0 \<and> pg_total_symbols p = 0 \<and> pg_decoded_symbols p = 0"

text \<open>
  Every frame counts at most once among the duplicate and corrupt ones; a cached symbol may still do so when the
  descriptor arrives.  Before that nothing is counted as decoded.
\<close>

definition tally :: "'d receiver \<Rightarrow> bool" where
  "tally s \<longleftrightarrow> lost s + length (rx_symbol_cache s) \<le> unat (pg_frames_seen (rx_progress s)) \<and>
     (rx_meta s = None \<longrightarrow> blank (rx_progress s))"

text \<open>What a part of \<open>ingest\<close> may do to the tally after the frame has been counted.\<close>

definition adds_at_most :: "nat \<Rightarrow> 'd receiver \<Rightarrow> 'd receiver \<Rightarrow> bool" where
  "adds_at_most k s s' \<longleftrightarrow>
     lost s' + length (rx_symbol_cache s') \<le> lost s + length (rx_symbol_cache s) + k \<and>
     pg_frames_seen (rx_progress s') = pg_frames_seen (rx_progress s) \<and>
     (rx_meta s' = None \<longrightarrow> rx_meta s = None \<and> (blank (rx_progress s) \<longrightarrow> blank (rx_progress s')))"

lemma adds_refl [simp]: "adds_at_most k s s"
  by (simp add: adds_at_most_def)

lemma unat_inc: "unat (x + 1) \<le> unat x + 1"
  by (simp add: unat_word_ariths)

lemma adds_counters:
  "adds_at_most 1 s (count_corrupt s)" "adds_at_most 1 s (count_duplicate s)"
  using unat_inc [of "pg_frames_corrupt (rx_progress s)"] unat_inc [of "pg_frames_duplicate (rx_progress s)"]
  by (simp_all add: adds_at_most_def count_corrupt_def count_duplicate_def lost_def blank_def)

text \<open>Changes of the decoder and of the recorded ids are no business of the tally.\<close>

definition same_tally :: "'d receiver \<Rightarrow> 'd receiver \<Rightarrow> bool" where
  "same_tally s s' \<longleftrightarrow> lost s' = lost s \<and> rx_symbol_cache s' = rx_symbol_cache s \<and> rx_meta s' = rx_meta s \<and>
     pg_frames_seen (rx_progress s') = pg_frames_seen (rx_progress s)"

lemma same_tally_steps [simp]:
  "same_tally s (s\<lparr>rx_decoder := d\<rparr>)" "same_tally s (mark_received meta i esi s)"
  by (simp_all add: same_tally_def lost_def mark_received_def)

lemma same_tally_if [simp]: "same_tally s x \<Longrightarrow> same_tally s y \<Longrightarrow> same_tally s (if c then x else y)"
  by simp

lemma same_tally_trans: "same_tally s x \<Longrightarrow> same_tally x y \<Longrightarrow> same_tally s y"
  by (simp add: same_tally_def)

lemma replay_adds:
  "replay_cache rq meta cache s = (s', r) \<Longrightarrow>
   lost s' \<le> lost s + length cache \<and> rx_symbol_cache s' = rx_symbol_cache s \<and> rx_meta s' = rx_meta s \<and>
   pg_frames_seen (rx_progress s') = pg_frames_seen (rx_progress s)"
proof (induction cache arbitrary: s)
  case (Cons e rest)
  obtain sbn esi data where e: "e = ((sbn, esi), data)" by (metis prod.collapse)
  let ?keep = "\<lambda>s1. if esi \<in> rx_received s1 ! unat sbn then s1 else mark_received meta (unat sbn) esi s1"
  have keep: "same_tally s s1 \<Longrightarrow> same_tally s (?keep s1)" for s1
    using same_tally_trans [of s s1 "mark_received meta (unat sbn) esi s1"] by simp
  consider (corrupt) "replay_cache rq meta rest (count_corrupt s) = (s', r)" | (fail) "s' = s"
    | (kept) s1 where "same_tally s s1" "replay_cache rq meta rest s1 = (s', r)"
  proof (cases "length (rx_received s) \<le> unat sbn \<or> push_bit 24 1 \<le> esi \<or> length data \<noteq> unat (m_symbol_size meta)")
    case True
    with Cons.prems corrupt show thesis by (simp add: e Let_def)
  next
    case ok: False
    show thesis
    proof (cases "rx_decoder s")
      case None
      with ok Cons.prems have "replay_cache rq meta rest (?keep s) = (s', r)" by (simp add: e Let_def)
      with kept [OF keep] show thesis by (simp add: same_tally_def)
    next
      case (Some dec)
      show thesis
      proof (cases "add_symbol rq dec (symbol_new sbn esi data)")
        case (Inl err)
        with ok Some Cons.prems fail show thesis by (simp add: e Let_def)
      next
        case (Inr v)
        with ok Some Cons.prems have "replay_cache rq meta rest (?keep (s\<lparr>rx_decoder := Some (fst v)\<rparr>)) = (s', r)"
          by (cases v; cases "esi \<in> rx_received s ! unat sbn") (simp_all add: e Let_def)
        with kept [OF keep] show thesis by (metis same_tally_steps(1))
      qed
    qed
  qed
  then show ?case
  proof cases
    case corrupt
    from Cons.IH [OF this] adds_counters(1) [of s] show ?thesis
      by (simp add: adds_at_most_def) (simp add: count_corrupt_def)
  next
    case kept
    from Cons.IH [OF kept(2)] kept(1) show ?thesis by (simp add: same_tally_def)
  qed simp
qed simp


lemma refresh_adds: "adds_at_most 0 s (refresh_decoded_counts s)"
  by (simp add: adds_at_most_def refresh_decoded_counts_def lost_def split: option.splits)

lemma apply_meta_adds:
  assumes ord: "\<And>xs. mset (ord xs) = mset xs" and none: "rx_meta s = None" and a: "apply_meta rq ord meta s = (s', Inr ())"
  shows "lost s' \<le> lost s + length (rx_symbol_cache s) \<and> rx_symbol_cache s' = [] \<and> rx_meta s' \<noteq> None \<and>
    pg_frames_seen (rx_progress s') = pg_frames_seen (rx_progress s)"
proof -
  from a obtain dec s2 where r: "replay_cache rq meta (ord (rx_symbol_cache s)) (reset_for_meta meta dec s) = (s2, Inr ())"
    and s': "s' = refresh_decoded_counts (upd_progress (\<lambda>p. p\<lparr>pg_received_symbols :=
      sum_list (map (\<lambda>r. of_nat (card r)) (rx_received s2))\<rparr>) s2)"
    by (auto simp: apply_meta_def split: sum.splits prod.splits)
  have "length (ord (rx_symbol_cache s)) = length (rx_symbol_cache s)" using ord by (metis size_mset)
  with replay_adds [OF r] show ?thesis
    unfolding s' by (auto simp: refresh_decoded_counts_def lost_def reset_for_meta_def split: option.splits)
qed

lemma ingest_descriptor_adds:
  assumes ord: "\<And>xs. mset (ord xs) = mset xs" and i: "ingest_descriptor rq ord f s = (s', r)" "is_ok r"
  shows "adds_at_most 1 s s'"
proof -
  have adopt: "adds_at_most 1 s (adopt_descriptor info s)" if "rx_meta s \<noteq> None" for info
    using that by (simp add: adds_at_most_def adopt_descriptor_def lost_def)
  consider "s' = s" | "s' = count_corrupt s" | info where "rx_meta s \<noteq> None" "s' = adopt_descriptor info s"
    | info s2 where "rx_meta s = None" "apply_meta rq ord (di_meta info) s = (s2, Inr ())" "s' = adopt_descriptor info s2"
    using i by (auto simp: ingest_descriptor_def finish_def split: option.splits if_splits sum.splits prod.splits)
  then show ?thesis
  proof cases
    case 4
    from apply_meta_adds [OF ord 4(1,2)] 4(3) show ?thesis
      by (auto simp: adds_at_most_def adopt_descriptor_def lost_def)
  qed (use adopt adds_counters in auto)
qed

lemma ingest_pending_adds: "rx_meta s = None \<Longrightarrow> ingest_pending f s = (s', r) \<Longrightarrow> adds_at_most 1 s s'"
  using adds_counters [of "s\<lparr>rx_pending_symbol_size := fh_symbol_size (fr_header f)\<rparr>"]
  by (auto simp: ingest_pending_def Let_def adds_at_most_def lost_def blank_def count_corrupt_def count_duplicate_def
      split: if_splits)

lemma ingest_symbol_adds:
  assumes "rx_meta s \<noteq> None" "ingest_symbol rq f s = (s', r)"
  shows "adds_at_most 1 s s'"
proof -
  have "adds_at_most 1 s (refresh_decoded_counts t)" if "same_tally s t" for t
    using that assms(1) by (auto simp: adds_at_most_def refresh_decoded_counts_def same_tally_def lost_def split: option.splits)
  then show ?thesis
    using assms adds_counters [of s]
    by (auto simp: ingest_symbol_def finish_def Let_def same_tally_def lost_def adds_at_most_def
        split: if_splits option.splits sum.splits prod.splits)
qed


lemma ingest_adds:
  assumes inv: "rx_inv rq ss s" and ord: "\<And>xs. mset (ord xs) = mset xs" and i: "ingest rq ord f s = (s', r)"
    and id: "fh_session_id (fr_header f) = rx_session_id s"
  shows "adds_at_most 1 (begin_frame s) s'"
proof -
  let ?b = "begin_frame s"
  have inv': "rx_inv rq ss ?b" by (rule rx_inv_counters(3) [OF inv])
  then have mc: "rx_meta_confirmed ?b \<longleftrightarrow> rx_meta ?b \<noteq> None" by (auto simp: rx_inv_def split: option.splits)
  consider (desc) "ingest_descriptor rq ord f ?b = (s', r)"
    | (pend) "\<not> rx_meta_confirmed ?b" "ingest_pending f ?b = (s', r)"
    | (symb) "rx_meta_confirmed ?b" "ingest_symbol rq f ?b = (s', r)"
    using i id by (auto simp: ingest_def Let_def split: if_splits)
  then show ?thesis
  proof cases
    case desc
    with ingest_descriptor_step [OF inv' ord desc] show ?thesis by (intro ingest_descriptor_adds [OF ord desc]) simp
  next
    case pend
    with mc show ?thesis by (intro ingest_pending_adds [OF _ pend(2)]) blast
  next
    case symb
    with mc show ?thesis by (intro ingest_symbol_adds [OF _ symb(2)]) blast
  qed
qed

lemma other_session:
  assumes "ingest rq ord f s = (s', r)" "fh_session_id (fr_header f) \<noteq> rx_session_id s"
  shows "adds_at_most 0 s s'"
  using assms by (auto simp: ingest_def Let_def adds_at_most_def lost_def blank_def)

lemma blank_begin [simp]: "blank (rx_progress (begin_frame s)) = blank (rx_progress s)" "rx_meta (begin_frame s) = rx_meta s"
  by (simp_all add: blank_def begin_frame_def)

lemma ingest_blank:
  assumes "rx_inv rq ss s" "\<And>xs. mset (ord xs) = mset xs" "ingest rq ord f s = (s', r)"
    and "rx_meta s = None \<Longrightarrow> blank (rx_progress s)" "rx_meta s' = None"
  shows "blank (rx_progress s')"
  using ingest_adds [OF assms(1-3)] other_session [OF assms(3)] assms(4,5)
  by (cases "fh_session_id (fr_header f) = rx_session_id s") (auto simp: adds_at_most_def)

lemma ingest_tally:
  assumes "rx_inv rq ss s" "\<And>xs. mset (ord xs) = mset xs" "ingest rq ord f s = (s', r)"
    and t: "tally s" and n: "unat (pg_frames_seen (rx_progress s)) \<le> n" "n + 1 < 2 ^ 64"
  shows "tally s' \<and> unat (pg_frames_seen (rx_progress s')) \<le> n + 1"
proof (cases "fh_session_id (fr_header f) = rx_session_id s")
  case True
  have "unat (pg_frames_seen (rx_progress s) + 1) = unat (pg_frames_seen (rx_progress s)) + 1"
    using n by (subst unat_add_lem [THEN iffD1]) simp_all
  then have b: "unat (pg_frames_seen (rx_progress (begin_frame s))) = unat (pg_frames_seen (rx_progress s)) + 1"
    "lost (begin_frame s) = lost s" "rx_symbol_cache (begin_frame s) = rx_symbol_cache s"
    by (simp_all add: begin_frame_def lost_def)
  from ingest_adds [OF assms(1-3) True] b t n show ?thesis by (auto simp: adds_at_most_def tally_def)
next
  case False
  from other_session [OF assms(3) False] t n show ?thesis by (auto simp: adds_at_most_def tally_def)
qed

lemma reach_blank:
  assumes "rx_reach rq ord s" "\<And>xs. mset (ord xs) = mset xs"
  shows "rx_meta s = None \<longrightarrow> blank (rx_progress s)"
  using assms(1)
proof (induction rule: rx_reach.induct)
  case (reach_frame s f s' r)
  from rx_reach_inv [OF reach_frame(1) assms(2)] obtain ss where "rx_inv rq ss s" by blast
  from ingest_blank [OF this assms(2) reach_frame(3)] reach_frame.IH show ?case by blast
next
  case (reach_assemble s cx s' v)
  then show ?case using assemble_result_state [of cx s s' v] by auto
next
  case (reach_confirmed sid meta s)
  then show ?case by (auto simp: receiver_new_def new_confirmed_def receiver_build_def)
next
  case (reach_restored st s)
  then show ?case using restore_spec [of st rq] by auto
qed (simp_all add: blank_def new_pending_def from_first_frame_def receiver_build_def progress_default_def)


section \<open>Promises\<close>

lemma complete_flags:
  assumes "rx_reach rq ord s" "\<And>xs. mset (ord xs) = mset xs"
  shows "progress_is_complete (receiver_progress s) \<longleftrightarrow> receiver_is_complete s"
proof -
  have p: "progress_is_complete (receiver_progress s) \<longleftrightarrow> progress_is_complete (rx_progress s)"
    by (simp add: receiver_progress_def progress_is_complete_def)
  from rx_reach_inv [OF assms] obtain ss where inv: "rx_inv rq ss s" by blast
  show ?thesis
  proof (cases "rx_meta s")
    case None
    with inv reach_blank [OF assms] show ?thesis
      unfolding p by (simp add: rx_inv_def blank_def progress_is_complete_def receiver_is_complete_def)
  next
    case (Some meta)
    with inv obtain dec where "rx_decoder s = Some dec" by (auto simp: rx_inv_def rx_core_def)
    from reach_progress [OF assms Some this] show ?thesis unfolding p by simp
  qed
qed

text \<open>
  C30: every host shows the same progress.  The C and the Android interface take completion from
  the counters and the browser takes it from the decoder; in every reachable session the
  texts are the same, and the C text is written whole, closed by a zero, when the buffer holds it.
\<close>

theorem progress_texts_agree:
  assumes "rx_reach rq ord s" "\<And>xs. mset (ord xs) = mset xs"
  defines "text_bytes \<equiv> ascii (wasm_progress_json s) @ [0]"
  shows "jni_progress_json willing_env (Some s) = Some text_bytes \<and>
    cffi_progress_json (Some s) None = (None, length text_bytes) \<and>
    cffi_progress_json (Some s) (Some buf) =
      (if length buf < length text_bytes then (Some buf, length text_bytes)
       else (Some (text_bytes @ drop (length text_bytes) buf), length text_bytes))"
  by (simp add: jni_progress_json_def jni_progress_text_def cffi_progress_json_def progress_json_def wasm_progress_json_def
      complete_flags [OF assms(1,2)] fill_array_def willing_env_def write_cstr_def text_bytes_def Let_def)

lemma run_tally:
  assumes "\<And>xs. mset (ord xs) = mset xs" "length fs < 2 ^ 53" "\<forall>f\<in>set fs. length (fr_payload f) < 2 ^ 32"
  shows "rx_reach rq ord (ingest_all rq ord (new_pending sid) fs) \<and> tally (ingest_all rq ord (new_pending sid) fs) \<and>
    unat (pg_frames_seen (rx_progress (ingest_all rq ord (new_pending sid) fs))) \<le> length fs"
  using assms(2,3)
proof (induction fs rule: rev_induct)
  case Nil
  show ?case by (simp add: reach_pending)
    (simp add: tally_def lost_def blank_def new_pending_def receiver_build_def progress_default_def)
next
  case (snoc f fs)
  let ?s = "ingest_all rq ord (new_pending sid) fs"
  from snoc have IH: "rx_reach rq ord ?s" "tally ?s" "unat (pg_frames_seen (rx_progress ?s)) \<le> length fs" by simp_all
  obtain s' r where i: "ingest rq ord f ?s = (s', r)" by fastforce
  from rx_reach_inv [OF IH(1) assms(1)] obtain ss where inv: "rx_inv rq ss ?s" by blast
  have "length fs + 1 < 2 ^ 64" using snoc.prems(1) by simp
  from ingest_tally [OF inv assms(1) i IH(2,3) this] reach_frame [OF IH(1) _ i] snoc.prems(2) i show ?case
    by (simp add: ingest_all_append)
qed

text \<open>
  C31: the ratios a host shows are ratios.  After any frames, the decoded fraction and the loss
  ratio of a session are doubles between 0 and 1; the fraction is 1 exactly when every source
  symbol is counted, and a complete session reads 1.0000.
\<close>

theorem ratios_bounded:
  assumes "\<And>xs. mset (ord xs) = mset xs" "length fs < 2 ^ 53" "\<forall>f\<in>set fs. length (fr_payload f) < 2 ^ 32"
    and "s = ingest_all rq ord (new_pending sid) fs" "p = receiver_progress s"
  shows "0 \<le> decoded_fraction p \<and> decoded_fraction p \<le> 1 \<and> 0 \<le> loss_ratio p \<and> loss_ratio p \<le> 1 \<and>
    (decoded_fraction p = 1 \<longleftrightarrow> 0 < pg_total_symbols p \<and> pg_decoded_symbols p = pg_total_symbols p) \<and>
    (receiver_is_complete s \<longrightarrow> decoded_fraction p = 1 \<and> fixed4 (decoded_fraction p) = ''1.0000'')"
proof -
  have R: "rx_reach rq ord s" "tally s" "unat (pg_frames_seen (rx_progress s)) \<le> length fs"
    using run_tally [OF assms(1-3), of rq sid] assms(4) by simp_all
  have p: "pg_frames_duplicate p = pg_frames_duplicate (rx_progress s)" "pg_frames_corrupt p = pg_frames_corrupt (rx_progress s)"
    "pg_frames_seen p = pg_frames_seen (rx_progress s)" "pg_decoded_symbols p = pg_decoded_symbols (rx_progress s)"
    "pg_total_symbols p = pg_total_symbols (rx_progress s)"
    by (simp_all add: assms(5) receiver_progress_def)
  have l: "unat (pg_frames_duplicate p) + unat (pg_frames_corrupt p) \<le> unat (pg_frames_seen p)"
    using R(2) by (simp add: p tally_def lost_def)
  have n: "unat (pg_frames_seen p) < 2 ^ 53" using R(3) assms(2) by (simp add: p)
  from rx_reach_inv [OF R(1) assms(1)] obtain ss where inv: "rx_inv rq ss s" by blast
  have d: "pg_decoded_symbols p \<le> pg_total_symbols p \<and>
    (receiver_is_complete s \<longrightarrow> pg_decoded_symbols p = pg_total_symbols p \<and> 0 < pg_total_symbols p)"
  proof (cases "rx_meta s")
    case None
    with reach_blank [OF R(1) assms(1)] inv show ?thesis
      by (simp add: p blank_def rx_inv_def receiver_is_complete_def)
  next
    case (Some meta)
    with inv obtain dec where dec: "rx_decoder s = Some dec" by (auto simp: rx_inv_def rx_core_def)
    note P = reach_progress [OF R(1) assms(1) Some dec]
    have "meta_ok rq meta" using inv Some core_meta_ok by (auto simp: rx_inv_def)
    then have "0 < sum_symbols (m_blocks meta)"
      using blocks_ok_bytes [of "m_symbol_size meta" 0 "m_blocks meta"] by (auto simp: meta_ok_def intro!: Nat.gr0I)
    with P show ?thesis by (simp add: p word_le_nat_alt word_less_nat_alt)
  qed
  have one: "fixed4 1 = ''1.0000''"
  proof -
    have "round_even (1 * 10000) = 10000" using round_even_int [of 10000] by simp
    moreover have "digit 0 = CHR ''0''" "digit 1 = CHR ''1''" by code_simp+
    ultimately show ?thesis by (simp add: fixed4_def show_nat_digits [of 0] show_nat_digits [of "Suc 0"] Let_def)
  qed
  from decoded_fraction_bounds [of p] loss_ratio_bounds [OF l n] d one show ?thesis by auto
qed

end
