(* ===== verification/Progress_Demo.thy ===== *)
theory Progress_Demo
  imports Host_Progress End_To_End_Demo
begin

text \<open>The witnesses of what the hosts show, on a session that completes.\<close>

lemma demo_run:
  obtains fs where "fs \<noteq> []" "length fs = 2" "\<forall>f\<in>set fs. length (fr_payload f) < 2 ^ 32"
    "receiver_is_complete (ingest_all ref_rq (\<lambda>c. c) (new_pending 7) fs)"
proof -
  note N = sender_new_inv [OF ref_upstream demo_sender_new sent_len]
  obtain s' rs where e: "emit_n ref_rq (\<lambda>_. 5) (\<lambda>_. (1, 2, 3)) 2 demo_sender = (s', rs)" by fastforce
  have n: "(2 :: nat) \<le> 16720813" by simp
  have id: "sn_session_id demo_sender = 7" by (simp add: demo_sender_def)
  obtain fs :: "frame list" where fs: "rs = map Inr fs" "fs \<noteq> []" "\<And>f. f \<in> set fs \<Longrightarrow> sent_frame ref_rq (\<lambda>_. 5) demo_sender f"
    "receiver_is_complete (ingest_all ref_rq (\<lambda>c. c) (new_pending 7) fs)"
    using session_lossless [where ord = "\<lambda>c. c", OF ref_upstream N(1,2) sent_len demo_announce N(4,5,7) refl n demo_enough e]
    unfolding id by metis
  have "length rs = 2" using emit_n_schedule [OF ref_upstream N(1,2) sent_len N(4,5,7) n e] by simp
  with fs have l: "length fs = 2" by simp
  have "length (fr_payload f) < 2 ^ 32" if "f \<in> set fs" for f
  proof -
    have "frame_valid (\<lambda>_. 5) f" using fs(3) [OF that] unfolding sent_frame_def by blast
    then show ?thesis by (rule valid_length)
  qed
  with that fs l show thesis by blast
qed

lemma progress_texts_agree_witness:
  "\<exists>s. rx_reach ref_rq (\<lambda>c. c) s \<and> receiver_is_complete s \<and>
     jni_progress_json willing_env (Some s) = Some (ascii (wasm_progress_json s) @ [0])"
proof -
  obtain fs where fs: "length fs = 2" "\<forall>f\<in>set fs. length (fr_payload f) < 2 ^ 32"
    "receiver_is_complete (ingest_all ref_rq (\<lambda>c. c) (new_pending 7) fs)" by (rule demo_run)
  have "length fs < 2 ^ 53" using fs(1) by simp
  from run_tally [OF refl this fs(2), of ref_rq 7]
  have r: "rx_reach ref_rq (\<lambda>c. c) (ingest_all ref_rq (\<lambda>c. c) (new_pending 7) fs)" by simp
  from progress_texts_agree [OF r refl] r fs(3) show ?thesis by blast
qed

lemma ratios_bounded_witness:
  "\<exists>fs. receiver_is_complete (ingest_all ref_rq (\<lambda>c. c) (new_pending 7) fs) \<and>
     fixed4 (decoded_fraction (receiver_progress (ingest_all ref_rq (\<lambda>c. c) (new_pending 7) fs))) = ''1.0000''"
proof -
  obtain fs where fs: "length fs = 2" "\<forall>f\<in>set fs. length (fr_payload f) < 2 ^ 32"
    "receiver_is_complete (ingest_all ref_rq (\<lambda>c. c) (new_pending 7) fs)" by (rule demo_run)
  have "length fs < 2 ^ 53" using fs(1) by simp
  from ratios_bounded [OF refl this fs(2) refl refl, of ref_rq 7] fs(3) show ?thesis by blast
qed

end
