(* ===== verification/Resume_Text.thy ===== *)
theory Resume_Text
  imports Resume Receiver_Assembly Utf8
begin

text \<open>
  The text form of checkpoints, module \<open>serde_impl\<close> of \<open>core/transfer-engine/src/resume.rs\<close>: the writer with
  a byte budget, and \<open>to_json\<close> and \<open>from_json\<close> around \<open>serde_json\<close>.  What \<open>serde_json\<close> writes and reads is
  a parameter: the sequence of writes for a value and what reading a text gives.  So are the order in
  which a hash set is listed, and whether an allocation succeeds.
\<close>

definition MAX_RESUME_JSON_BYTES :: nat where "MAX_RESUME_JSON_BYTES = 128 * 1024 * 1024"

datatype io_error = Size_overflow | Over_budget | Cannot_allocate
datatype json_error = Json_custom string | Json_io io_error | Json_syntax string

text \<open>What is written and read: \<open>SerResumeRef\<close> and \<open>SerResume\<close>, with each set as a list.\<close>

record ser_resume =
  sr_session_id :: u128
  sr_meta :: object_meta
  sr_received :: "u32 list list"
  sr_symbols :: "(u32 \<times> u32 \<times> bytes) list"

record serde_json =
  sj_writes :: "ser_resume \<Rightarrow> bytes list"
  sj_read :: "bytes \<Rightarrow> (ser_resume, string) result"

section \<open>The writer\<close>

text \<open>\<open>CappedWriter::write\<close>; \<open>avail len extra\<close> says whether \<open>extra\<close> more bytes can be reserved.\<close>

definition capped_write :: "(nat \<Rightarrow> nat \<Rightarrow> bool) \<Rightarrow> bytes \<Rightarrow> bytes \<Rightarrow> (bytes \<times> nat, io_error) result" where
  "capped_write avail written buf =
     (if 2 ^ 64 \<le> length written + length buf then Inl Size_overflow
      else if MAX_RESUME_JSON_BYTES < length written + length buf then Inl Over_budget
      else if \<not> avail (length written) (length buf) then Inl Cannot_allocate
      else Inr (written @ buf, length buf))"

text \<open>\<open>write_all\<close> calls \<open>write\<close> unless there is nothing left; here one call takes the whole slice.\<close>

fun write_chunks :: "(nat \<Rightarrow> nat \<Rightarrow> bool) \<Rightarrow> bytes \<Rightarrow> bytes list \<Rightarrow> (bytes, io_error) result" where
  "write_chunks avail written [] = Inr written"
| "write_chunks avail written (c # cs) =
     (if c = [] then write_chunks avail written cs
      else case capped_write avail written c of
        Inl e \<Rightarrow> Inl e
      | Inr (written', _) \<Rightarrow> write_chunks avail written' cs)"

definition resume_to_json ::
  "('e, 'd) raptorq \<Rightarrow> serde_json \<Rightarrow> (u32 set \<Rightarrow> u32 list) \<Rightarrow> (nat \<Rightarrow> nat \<Rightarrow> bool) \<Rightarrow> resume_state \<Rightarrow>
   (bytes, json_error) result" where
  "resume_to_json rq sj ids avail st =
     bind_result (map_err Json_custom (resume_validate rq st)) (\<lambda>_.
       let ser = \<lparr>sr_session_id = re_session_id st, sr_meta = re_meta st,
                  sr_received = map ids (re_received st), sr_symbols = re_symbols st\<rparr>
       in bind_result (map_err Json_io (write_chunks avail [] (sj_writes sj ser))) (\<lambda>bs.
          if utf8_valid bs then Inr bs else Inl (Json_custom ''invalid utf-8 sequence'')))"

definition resume_from_json ::
  "('e, 'd) raptorq \<Rightarrow> serde_json \<Rightarrow> bytes \<Rightarrow> (resume_state, json_error) result" where
  "resume_from_json rq sj s =
     (if MAX_RESUME_JSON_BYTES < length s then Inl (Json_custom ''resume JSON exceeds local byte budget'')
      else bind_result (map_err Json_syntax (sj_read sj s)) (\<lambda>ser.
        let state = \<lparr>re_session_id = sr_session_id ser, re_meta = sr_meta ser,
                     re_received = map set (sr_received ser), re_symbols = sr_symbols ser\<rparr>
        in bind_result (map_err Json_custom (resume_validate rq state)) (\<lambda>_. Inr state)))"

section \<open>Writing within the budget\<close>

lemma write_chunks_ok:
  "write_chunks avail written cs = Inr bs \<Longrightarrow> length written \<le> MAX_RESUME_JSON_BYTES \<Longrightarrow>
   bs = written @ concat cs \<and> length bs \<le> MAX_RESUME_JSON_BYTES"
proof (induction cs arbitrary: written)
  case (Cons c cs)
  show ?case
  proof (cases "c = []")
    case False
    with Cons.prems obtain "write_chunks avail (written @ c) cs = Inr bs" "length (written @ c) \<le> MAX_RESUME_JSON_BYTES"
      by (auto simp: capped_write_def split: if_splits)
    from Cons.IH [OF this] show ?thesis by auto
  qed (use Cons in simp)
qed simp

lemma write_chunks_fits:
  assumes "\<And>n k. n + k \<le> MAX_RESUME_JSON_BYTES \<Longrightarrow> avail n k"
  shows "length written + length (concat cs) \<le> MAX_RESUME_JSON_BYTES \<Longrightarrow>
    write_chunks avail written cs = Inr (written @ concat cs)"
  using assms
proof (induction cs arbitrary: written)
  case (Cons c cs)
  then have "length written + length c \<le> MAX_RESUME_JSON_BYTES" by simp
  with Cons show ?case by (simp add: capped_write_def MAX_RESUME_JSON_BYTES_def)
qed simp

text \<open>The documented behaviour of \<open>serde_json\<close>: it writes UTF-8 and reads back what it wrote.\<close>

definition serde_ok :: "serde_json \<Rightarrow> bool" where
  "serde_ok sj \<longleftrightarrow> (\<forall>x. utf8_valid (concat (sj_writes sj x)) \<and> sj_read sj (concat (sj_writes sj x)) = Inr x)"

abbreviation ser_of :: "(u32 set \<Rightarrow> u32 list) \<Rightarrow> resume_state \<Rightarrow> ser_resume" where
  "ser_of ids st \<equiv> \<lparr>sr_session_id = re_session_id st, sr_meta = re_meta st,
     sr_received = map ids (re_received st), sr_symbols = re_symbols st\<rparr>"

lemma resume_to_json_Inr:
  "resume_to_json rq sj ids avail st = Inr t \<Longrightarrow>
   resume_validate rq st = Inr () \<and> t = concat (sj_writes sj (ser_of ids st)) \<and> length t \<le> MAX_RESUME_JSON_BYTES"
  using write_chunks_ok [of avail "[]" "sj_writes sj (ser_of ids st)" t]
  by (auto simp: resume_to_json_def Let_def bind_result_Inr split: if_splits sum.splits)

lemma resume_reads_back:
  assumes "serde_ok sj" "\<And>A. set (ids A) = A" and w: "resume_to_json rq sj ids avail st = Inr t"
  shows "resume_from_json rq sj t = Inr st"
proof -
  have "map set (map ids (re_received st)) = re_received st" using assms(2) by (simp add: map_idI)
  moreover note resume_to_json_Inr [OF w]
  moreover have "sj_read sj (concat (sj_writes sj (ser_of ids st))) = Inr (ser_of ids st)"
    using assms(1) unfolding serde_ok_def by blast
  ultimately show ?thesis by (cases st) (auto simp: resume_from_json_def Let_def)
qed

text \<open>
  C32: a checkpoint text loses nothing.  A text is written for every valid state whose text
  fits the budget when memory suffices, and for no other; it reads back to exactly the state, whatever order
  the sets are listed in.
\<close>

theorem resume_text_roundtrip:
  assumes "serde_ok sj" "\<And>A. set (ids A) = A" "\<And>n k. n + k \<le> MAX_RESUME_JSON_BYTES \<Longrightarrow> avail n k"
  shows "case resume_to_json rq sj ids avail st of
      Inr t \<Rightarrow> resume_from_json rq sj t = Inr st
    | Inl e \<Rightarrow> resume_validate rq st \<noteq> Inr () \<or>
        MAX_RESUME_JSON_BYTES < length (concat (sj_writes sj (ser_of ids st)))"
proof (cases "resume_to_json rq sj ids avail st")
  case (Inl e)
  show ?thesis
  proof (rule ccontr)
    assume "\<not> ?thesis"
    with Inl have v: "resume_validate rq st = Inr ()"
      and "length [] + length (concat (sj_writes sj (ser_of ids st))) \<le> MAX_RESUME_JSON_BYTES" by auto
    from write_chunks_fits [OF assms(3) this(2)] v assms(1) Inl show False
      by (simp add: resume_to_json_def serde_ok_def)
  qed
next
  case (Inr t)
  from resume_reads_back [OF assms(1,2) Inr] Inr show ?thesis by simp
qed

text \<open>
  No text breaks a receiver.  Whatever \<open>from_json\<close> accepts, \<open>restore\<close> accepts, and the session
  that results is one the receiver can reach.
\<close>

lemma resume_text_safe:
  assumes "resume_from_json rq sj t = Inr st" "length (re_symbols st) < 2 ^ 64"
  shows "length t \<le> MAX_RESUME_JSON_BYTES \<and> (\<exists>s. restore rq st = Inr s \<and> rx_reach rq ord s \<and>
    rx_session_id s = re_session_id st \<and> rx_meta s = Some (re_meta st))"
proof -
  from assms(1) have "length t \<le> MAX_RESUME_JSON_BYTES" "resume_validate rq st = Inr ()"
    by (auto simp: resume_from_json_def Let_def bind_result_Inr split: if_splits sum.splits)
  moreover from this(2) have "resume_ok rq st" by (simp add: resume_validate_iff [OF assms(2)])
  ultimately show ?thesis
    using restore_spec [OF assms(2), of rq] reach_restored [OF assms(2)] by (cases "restore rq st") auto
qed

text \<open>
  A checkpoint of a session that knows its metadata only recognises the object again.  Saved, written,
  read and restored, it gives a session with the same id and metadata that has received nothing.
\<close>

lemma checkpoint_text_restarts:
  assumes "serde_ok sj" "\<And>A. set (ids A) = A" "rx_reach rq ord s" "\<And>xs. mset (ord xs) = mset xs"
    and "rx_meta s = Some meta" "save_state ord s = Some st" "resume_to_json rq sj ids avail st = Inr t"
  shows "\<exists>s2. bind_result (map_err (\<lambda>_. ()) (resume_from_json rq sj t)) (\<lambda>st2. map_err (\<lambda>_. ()) (restore rq st2)) = Inr s2 \<and>
    rx_session_id s2 = rx_session_id s \<and> rx_meta s2 = Some meta \<and>
    rx_received s2 = replicate (length (m_blocks meta)) {} \<and> pg_received_symbols (rx_progress s2) = 0"
proof -
  have "resume_from_json rq sj t = Inr st" by (rule resume_reads_back [OF assms(1,2,7)])
  with checkpoint_restarts [OF assms(3-5)] assms(6) show ?thesis by auto
qed

end
