(* ===== verification/Resumed.thy ===== *)
theory Resumed
  imports End_To_End Resume_Text
begin

text \<open>
  An interrupted transfer: a receiver that knows the metadata is saved
  (\<open>save_state\<close> of \<open>core/transfer-engine/src/receiver.rs\<close>), written and read back (\<open>to_json\<close> and \<open>from_json\<close> of
  \<open>resume.rs\<close>), restored, and goes on with the frames the sender displays from then on.  The checkpoint holds
  the codec metadata but not what the descriptor says of the file, so the restored session follows
  the sender without yet watching it.
\<close>

section \<open>The restored session\<close>

text \<open>A restored session whose stored symbols are genuine follows the sender.\<close>

lemma restored_follows:
  assumes "length (re_symbols st) < 2 ^ 64" "restore rq st = Inr rx"
    and "re_session_id st = sn_session_id s" "re_meta st = sn_meta s"
    and "\<And>r. r \<in> set (re_symbols st) \<Longrightarrow> genuine rq (sn_encoder s) (record_symbol r)"
  shows "follows rq s (first_symbols [] (map record_symbol (re_symbols st))) rx \<and> rx_meta rx = Some (sn_meta s) \<and>
    \<not> rx_descriptor_seen rx \<and> rx_file_meta rx = file_meta_default"
proof -
  have first: "set (first_symbols ss xs) \<subseteq> set ss \<union> set xs" for ss xs
    by (induction ss xs rule: first_symbols.induct) (auto split: if_splits)
  let ?ss = "first_symbols [] (map record_symbol (re_symbols st))"
  from restore_spec [OF assms(1), of rq] assms(2) have R: "rx_inv rq ?ss rx" "rx_meta rx = Some (re_meta st)"
    "rx_session_id rx = re_session_id st" "\<not> rx_descriptor_seen rx" "rx_file_meta rx = file_meta_default" by auto
  moreover from R(1,2) have "rx_symbol_cache rx = []" by (simp add: rx_inv_def)
  moreover have "\<forall>x \<in> set ?ss. genuine rq (sn_encoder s) x"
    using first [of "[]" "map record_symbol (re_symbols st)"] assms(5) by auto
  ultimately show ?thesis using assms(3,4) by (simp add: follows_def)
qed

text \<open>A session that follows reads a descriptor exactly when it is shown one of its sender.\<close>

definition own_descriptor :: "'e sender \<Rightarrow> frame \<Rightarrow> bool" where
  "own_descriptor s f \<longleftrightarrow> fh_session_id (fr_header f) = sn_session_id s \<and> \<not> is_data f"

lemma follows_seen:
  assumes up: "upstream_ok rq" and st: "sender_static rq data s" and dg: "digests_ok s"
    and len: "length data \<le> 33554432" and an: "announce_ok s"
    and w: "follows rq s ss rx" and f: "trusted rq crc s f" and ord: "\<And>xs. mset (ord xs) = mset xs"
    and i: "ingest rq ord f rx = (rx', r)"
  shows "(rx_descriptor_seen rx' \<longleftrightarrow> rx_descriptor_seen rx \<or> own_descriptor s f) \<and>
    (\<not> rx_descriptor_seen rx' \<longrightarrow> rx_file_meta rx' = rx_file_meta rx) \<and>
    (rx_meta rx \<noteq> None \<longrightarrow> rx_meta rx' = rx_meta rx)"
proof -
  have inv: "rx_inv rq ss rx" and sid: "rx_session_id rx = sn_session_id s" using w by (auto simp: follows_def)
  have l: "length (fr_payload f) < 2 ^ 32" using f valid_length [of crc f] by (simp add: trusted_def)
  have k: "keeps rx rx'" using ingest_step [OF inv ord l i] by simp
  note F = follows_step [OF up st dg len an w f ord i]
  show ?thesis
  proof (cases "fh_session_id (fr_header f) = rx_session_id rx")
    case False
    then have "rx_descriptor_seen rx' = rx_descriptor_seen rx" "rx_file_meta rx' = rx_file_meta rx" "rx_meta rx' = rx_meta rx"
      using i by (auto simp: ingest_def Let_def)
    then show ?thesis using False sid by (simp add: own_descriptor_def)
  next
    case True
    show ?thesis
    proof (cases "is_data f")
      case data: True
      then have "\<not> fh_flags (fr_header f) AND FLAG_DESCRIPTOR \<noteq> 0" by (simp add: is_data_def)
      from data_header [OF inv l i this True] k data show ?thesis by (auto simp: own_descriptor_def keeps_def)
    next
      case False
      then show ?thesis using F True sid k by (auto simp: own_descriptor_def keeps_def)
    qed
  qed
qed

lemma follows_run:
  assumes up: "upstream_ok rq" and st: "sender_static rq data s" and dg: "digests_ok s"
    and len: "length data \<le> 33554432" and an: "announce_ok s" and ord: "\<And>xs. mset (ord xs) = mset xs"
    and w: "follows rq s ss rx" "rx_meta rx \<noteq> None" and tr: "\<And>f. f \<in> set fs \<Longrightarrow> trusted rq crc s f"
  defines "rx' \<equiv> ingest_all rq ord rx fs"
  shows "follows rq s (log_run rq ord rx ss fs) rx' \<and> rx_meta rx' = rx_meta rx \<and>
    (rx_descriptor_seen rx' \<longleftrightarrow> rx_descriptor_seen rx \<or> (\<exists>f \<in> set fs. own_descriptor s f)) \<and>
    (\<not> rx_descriptor_seen rx' \<longrightarrow> rx_file_meta rx' = rx_file_meta rx)"
  unfolding rx'_def using w tr
proof (induction fs arbitrary: ss rx)
  case (Cons f fs)
  obtain rx1 r where i: "ingest rq ord f rx = (rx1, r)" by (cases "ingest rq ord f rx")
  have t: "trusted rq crc s f" using Cons.prems(3) by simp
  note F = follows_step [OF up st dg len an Cons.prems(1) t ord i]
    and S = follows_seen [OF up st dg len an Cons.prems(1) t ord i]
  have "rx_meta rx1 \<noteq> None" using S Cons.prems(2) by auto
  from Cons.IH [OF F [THEN conjunct1] this] Cons.prems(3) S i Cons.prems(2) show ?case by auto
qed simp

section \<open>From the checkpoint on\<close>

text \<open>What a host does after a restart: read the text, restore the state.\<close>

definition reopen :: "('e, 'd) raptorq \<Rightarrow> serde_json \<Rightarrow> bytes \<Rightarrow> (unit, 'd receiver) sum" where
  "reopen rq sj t =
     bind_result (map_err (\<lambda>_. ()) (resume_from_json rq sj t)) (\<lambda>st. map_err (\<lambda>_. ()) (restore rq st))"

lemma checkpoint_resumes:
  assumes w: "watching rq s ss rx" and ord: "\<And>xs. mset (ord xs) = mset xs"
    and sj: "serde_ok sj" "\<And>A. set (ids A) = A"
    and save: "save_state ord rx = Some st" "resume_to_json rq sj ids avail st = Inr t"
  obtains rx2 where "reopen rq sj t = Inr rx2" "follows rq s [] rx2" "rx_meta rx2 \<noteq> None"
    "\<not> rx_descriptor_seen rx2" "rx_file_meta rx2 = file_meta_default"
proof -
  have inv: "rx_inv rq ss rx" and sid: "rx_session_id rx = sn_session_id s" using w by (auto simp: watching_def follows_def)
  have "rx_meta rx \<noteq> None" using save(1) by (cases "rx_meta rx") (simp_all add: save_state_def)
  then have meta: "rx_meta rx = Some (sn_meta s)" using w by (auto simp: watching_def follows_def)
  have st: "re_session_id st = sn_session_id s" "re_meta st = sn_meta s" "re_symbols st = []"
    using save_state_confirmed [OF inv meta ord] save(1) sid by auto
  have j: "resume_from_json rq sj t = Inr st" by (rule resume_reads_back [OF sj save(2)])
  have "resume_validate rq st = Inr ()" using resume_to_json_Inr [OF save(2)] by simp
  then have "resume_ok rq st" using st(3) by (simp add: resume_validate_iff)
  then obtain rx2 where r: "restore rq st = Inr rx2" using restore_spec [of st rq] st(3) by (cases "restore rq st") auto
  with restored_follows [OF _ r st(1,2)] st(3) show thesis by (intro that [of rx2]) (auto simp: reopen_def j)
qed

lemma resumed_assembled:
  assumes up: "upstream_ok rq" and new: "sender_new rq payload sid cfg fm = Inr s"
    and len: "length (pad_to_symbols payload (sc_codec cfg)) \<le> 33554432"
    and size: "fm_compressed_size fm = of_nat (length payload)" and w: "follows rq s ss rx"
    and fresh: "\<not> rx_descriptor_seen rx \<longrightarrow> rx_file_meta rx = file_meta_default"
    and a: "assemble_result cx rx = (rx', Inr (Some v))"
  shows "if rx_descriptor_seen rx then delivers cx fm payload v else v = pad_to_symbols payload (sc_codec cfg)"
proof (cases "rx_descriptor_seen rx")
  case True
  then have "watching rq s ss rx" using w by (simp add: watching_def)
  from watching_delivers [OF up new len size this a] True show ?thesis by simp
next
  case False
  have st: "sender_static rq (pad_to_symbols payload (sc_codec cfg)) s"
    using sender_new_inv(1) [OF up new len] by (simp add: sender_inv_def)
  from assemble_spec [OF a] obtain padded where p: "assemble_raw rx = Some padded"
    "assembled cx (rx_file_meta rx) padded v" by auto
  moreover have "padded = pad_to_symbols payload (sc_codec cfg)" using follows_assemble [OF up st len w] p(1) by simp
  ultimately show ?thesis using False fresh
    by (simp add: assembled_def trimmed_def file_meta_default_def COMPRESSION_NONE_def)
qed

text \<open>
  C4: a restart never makes the data wrong.  A receiver that has read any frames of a session is saved,
  written, read, restored and shown any further frames; whatever it then recovers is the padded
  payload, and once one of the further frames is a descriptor, assembly returns exactly the payload that was sent or its
  decompression to the announced size.  Before that the session does not know the file any more,
  and assembly hands out the padded payload as it is, compressed or not.
\<close>

theorem resumed_never_wrong:
  assumes "upstream_ok rq" "sender_new rq payload sid cfg fm = Inr s"
    and "length (pad_to_symbols payload (sc_codec cfg)) \<le> 33554432"
    and "announce_ok s" "fm_compressed_size fm = of_nat (length payload)"
    and "\<And>xs. mset (ord xs) = mset xs" "serde_ok sj" "\<And>A. set (ids A) = A"
    and "\<And>f. f \<in> set before \<Longrightarrow> trusted rq crc s f" "\<And>f. f \<in> set after \<Longrightarrow> trusted rq crc s f"
    and "save_state ord (ingest_all rq ord (new_pending sid) before) = Some st"
    and "resume_to_json rq sj ids avail st = Inr t"
  shows "\<exists>rx0. reopen rq sj t = Inr rx0 \<and> (let rx = ingest_all rq ord rx0 after in
    assemble_raw rx \<in> {None, Some (pad_to_symbols payload (sc_codec cfg))} \<and>
    (\<forall>cx rx' v. assemble_result cx rx = (rx', Inr (Some v)) \<longrightarrow>
       (if \<exists>f \<in> set after. own_descriptor s f then delivers cx fm payload v
        else v = pad_to_symbols payload (sc_codec cfg))))"
proof -
  note N = sender_new_inv [OF assms(1-3)]
  then have st: "sender_static rq (pad_to_symbols payload (sc_codec cfg)) s" by (simp add: sender_inv_def)
  have w: "watching rq s (log_run rq ord (new_pending sid) [] before) (ingest_all rq ord (new_pending sid) before)"
    by (rule watching_all [OF assms(1) st N(2) assms(3,4,6) watching_pending assms(9)]) (simp_all add: N(3))
  obtain rx0 where r: "reopen rq sj t = Inr rx0" "follows rq s [] rx0" "rx_meta rx0 \<noteq> None"
    "\<not> rx_descriptor_seen rx0" "rx_file_meta rx0 = file_meta_default"
    by (rule checkpoint_resumes [OF w assms(6-8,11,12)])
  note F = follows_run [OF assms(1) st N(2) assms(3,4,6) r(2,3) assms(10)]
  then have fl: "follows rq s (log_run rq ord rx0 [] after) (ingest_all rq ord rx0 after)" by simp
  have seen: "rx_descriptor_seen (ingest_all rq ord rx0 after) \<longleftrightarrow> (\<exists>f \<in> set after. own_descriptor s f)"
    and fresh: "\<not> rx_descriptor_seen (ingest_all rq ord rx0 after) \<longrightarrow>
      rx_file_meta (ingest_all rq ord rx0 after) = file_meta_default" using F r(4,5) by auto
  show ?thesis
    using r(1) follows_assemble [OF assms(1) st assms(3) fl] resumed_assembled [OF assms(1-3,5) fl fresh]
    unfolding seen Let_def by blast
qed

text \<open>
  C5: a restart loses nothing but time.  The restored session completes as soon as it has been shown one frame for
  every source symbol, wherever the descriptor comes among them, and holds the padded payload; with a
  descriptor among the frames, an uncompressed payload is assembled.
\<close>

theorem resumed_completes:
  assumes "upstream_ok rq" "sender_new rq payload sid cfg fm = Inr s"
    and "length (pad_to_symbols payload (sc_codec cfg)) \<le> 33554432"
    and "announce_ok s" "fm_compressed_size fm = of_nat (length payload)"
    and "\<And>xs. mset (ord xs) = mset xs" "serde_ok sj" "\<And>A. set (ids A) = A"
    and "\<And>f. f \<in> set before \<Longrightarrow> trusted rq crc s f" "\<And>f. f \<in> set after \<Longrightarrow> trusted rq crc s f"
    and "save_state ord (ingest_all rq ord (new_pending sid) before) = Some st"
    and "resume_to_json rq sj ids avail st = Inr t"
    and "set gs \<subseteq> set after" "\<And>f. f \<in> set gs \<Longrightarrow> sent_frame rq crc s f" "covers s gs"
  shows "\<exists>rx0. reopen rq sj t = Inr rx0 \<and> (let rx = ingest_all rq ord rx0 after in
    receiver_is_complete rx \<and> assemble_raw rx = Some (pad_to_symbols payload (sc_codec cfg)) \<and>
    ((\<exists>f \<in> set after. own_descriptor s f) \<and> fm_compression fm = COMPRESSION_NONE \<longrightarrow>
       (\<exists>rx'. assemble_result cx rx = (rx', Inr (Some payload)))))"
proof -
  note N = sender_new_inv [OF assms(1-3)]
  then have st: "sender_static rq (pad_to_symbols payload (sc_codec cfg)) s" by (simp add: sender_inv_def)
  have w: "watching rq s (log_run rq ord (new_pending sid) [] before) (ingest_all rq ord (new_pending sid) before)"
    by (rule watching_all [OF assms(1) st N(2) assms(3,4,6) watching_pending assms(9)]) (simp_all add: N(3))
  obtain rx0 where r: "reopen rq sj t = Inr rx0" "follows rq s [] rx0" "rx_meta rx0 \<noteq> None"
    by (rule checkpoint_resumes [OF w assms(6-8,11,12)])
  let ?rx = "ingest_all rq ord rx0 after"
  note F = follows_run [OF assms(1) st N(2) assms(3,4,6) r(2,3) assms(10)]
  have C: "receiver_is_complete ?rx" "assemble_raw ?rx = Some (pad_to_symbols payload (sc_codec cfg))"
    using follows_completes [OF assms(1) st N(2) assms(3,4,6) r(2,3) assms(10,13-15)] by simp_all
  have "\<exists>rx'. assemble_result cx ?rx = (rx', Inr (Some payload))"
    if "\<exists>f \<in> set after. own_descriptor s f" "fm_compression fm = COMPRESSION_NONE"
  proof -
    have "watching rq s (log_run rq ord rx0 [] after) ?rx" using F that(1) by (simp add: watching_def)
    from complete_payload [OF assms(1-3,5) this C(2) that(2)] show ?thesis .
  qed
  with r(1) C show ?thesis by (auto simp: Let_def)
qed

end
