(* ===== verification/Resume_Demo.thy ===== *)
theory Resume_Demo
  imports Resume_Text Progress_Text End_To_End_Demo
begin

text \<open>
  A concrete text form in the place of \<open>serde_json\<close>, numbers in decimal closed by commas with every list after its
  length, which meets the contract; and the witnesses of the checkpoint texts on it.
\<close>

section \<open>Numbers as text\<close>

definition write_nats :: "nat list \<Rightarrow> bytes" where
  "write_nats ns = ascii (concat (map (\<lambda>n. show_nat n @ '','') ns))"

definition read_nats :: "bytes \<Rightarrow> nat list" where
  "read_nats bs = map read_nat (butlast (cut_at CHR '','' (map (\<lambda>b. char_of (unat b)) bs)))"

lemma chars_ascii: "map (\<lambda>b. char_of (unat (b :: u8))) (ascii s) = s"
proof -
  have "unat (of_nat (of_char c :: nat) :: u8) = of_char c" for c
    by (rule unat_of_nat_len) simp
  then show ?thesis by (simp add: ascii_def map_idI)
qed

lemma cut_nats: "cut_at CHR '','' (concat (map (\<lambda>n. show_nat n @ '','') ns)) = map show_nat ns @ [[]]"
proof (induction ns)
  case (Cons n ns)
  have "CHR '','' \<notin> set (show_nat n)" using plain_show_nat [of n] by (simp add: plain_def)
  from cut_first [OF this] Cons show ?case by simp
qed simp

lemma read_write_nats [simp]: "read_nats (write_nats ns) = ns"
  by (simp add: read_nats_def write_nats_def chars_ascii cut_nats map_idI)

section \<open>States as numbers\<close>

fun take_items :: "(nat list \<Rightarrow> 'a \<times> nat list) \<Rightarrow> nat \<Rightarrow> nat list \<Rightarrow> 'a list \<times> nat list" where
  "take_items dec 0 ns = ([], ns)"
| "take_items dec (Suc k) ns = (case dec ns of (x, r) \<Rightarrow> case take_items dec k r of (xs, r') \<Rightarrow> (x # xs, r'))"

definition put_list :: "('a \<Rightarrow> nat list) \<Rightarrow> 'a list \<Rightarrow> nat list" where
  "put_list enc xs = length xs # concat (map enc xs)"

definition get_list :: "(nat list \<Rightarrow> 'a \<times> nat list) \<Rightarrow> nat list \<Rightarrow> 'a list \<times> nat list" where
  "get_list dec ns = take_items dec (hd ns) (tl ns)"

lemma get_put_list:
  assumes "\<And>x r. dec (enc x @ r) = (x, r)"
  shows "get_list dec (put_list enc xs @ r) = (xs, r)"
proof -
  have "take_items dec (length xs) (concat (map enc xs) @ r) = (xs, r)"
    by (induction xs) (simp_all add: assms)
  then show ?thesis by (simp add: get_list_def put_list_def)
qed

definition put_word :: "'a::len word \<Rightarrow> nat list" where "put_word w = [unat w]"
definition get_word :: "nat list \<Rightarrow> 'a::len word \<times> nat list" where "get_word ns = (of_nat (hd ns), tl ns)"

lemma get_put_word: "get_word (put_word w @ r) = (w, r)"
  by (simp add: get_word_def put_word_def)

definition put_block :: "source_block_meta \<Rightarrow> nat list" where
  "put_block b = put_word (b_sbn b) @ put_word (b_num_source_symbols b) @ put_word (b_block_length b)"
definition get_block :: "nat list \<Rightarrow> source_block_meta \<times> nat list" where
  "get_block ns = (case get_word ns of (a, r) \<Rightarrow> case get_word r of (b, r) \<Rightarrow> case get_word r of (c, r) \<Rightarrow>
     (\<lparr>b_sbn = a, b_num_source_symbols = b, b_block_length = c\<rparr>, r))"

lemma get_put_block: "get_block (put_block b @ r) = (b, r)"
  by (simp add: get_block_def put_block_def get_put_word)

definition put_symbol :: "u32 \<times> u32 \<times> bytes \<Rightarrow> nat list" where
  "put_symbol x = put_word (fst x) @ put_word (fst (snd x)) @ put_list put_word (snd (snd x))"
definition get_symbol :: "nat list \<Rightarrow> (u32 \<times> u32 \<times> bytes) \<times> nat list" where
  "get_symbol ns = (case get_word ns of (a, r) \<Rightarrow> case get_word r of (b, r) \<Rightarrow> case get_list get_word r of (c, r) \<Rightarrow>
     ((a, b, c), r))"

lemma get_put_symbol: "get_symbol (put_symbol x @ r) = (x, r)"
  by (simp add: get_symbol_def put_symbol_def get_put_word get_put_list [OF get_put_word])

definition put_state :: "ser_resume \<Rightarrow> nat list" where
  "put_state x = put_word (sr_session_id x) @ put_word (m_transfer_length (sr_meta x)) @
     put_word (m_symbol_size (sr_meta x)) @ put_list put_word (m_oti_bytes (sr_meta x)) @
     put_list put_block (m_blocks (sr_meta x)) @ put_list (put_list put_word) (sr_received x) @
     put_list put_symbol (sr_symbols x)"

definition get_state :: "nat list \<Rightarrow> ser_resume" where
  "get_state ns =
     (case get_word ns of (sid, r) \<Rightarrow> case get_word r of (len, r) \<Rightarrow> case get_word r of (sz, r) \<Rightarrow>
      case get_list get_word r of (oti, r) \<Rightarrow> case get_list get_block r of (blocks, r) \<Rightarrow>
      case get_list (get_list get_word) r of (rec, r) \<Rightarrow> case get_list get_symbol r of (syms, r) \<Rightarrow>
      \<lparr>sr_session_id = sid, sr_meta = \<lparr>m_transfer_length = len, m_symbol_size = sz, m_oti_bytes = oti, m_blocks = blocks\<rparr>,
       sr_received = rec, sr_symbols = syms\<rparr>)"

lemma get_put_state: "get_state (put_state x) = x"
proof -
  have "get_list get_symbol (put_list put_symbol xs) = (xs, [])" for xs
    using get_put_list [of get_symbol put_symbol xs "[]", OF get_put_symbol] by simp
  then show ?thesis
    by (simp add: get_state_def put_state_def get_put_word get_put_list [OF get_put_word] get_put_list [OF get_put_block]
        get_put_list [OF get_put_list [OF get_put_word]])
qed

definition demo_serde :: serde_json where
  "demo_serde = \<lparr>sj_writes = \<lambda>x. map (\<lambda>n. write_nats [n]) (put_state x), sj_read = \<lambda>bs. Inr (get_state (read_nats bs))\<rparr>"

lemma write_nats_concat: "concat (map (\<lambda>n. write_nats [n]) ns) = write_nats ns"
  by (induction ns) (simp_all add: write_nats_def ascii_def)

lemma utf8_ascii: "\<forall>b\<in>set bs. b < 0x80 \<Longrightarrow> utf8_valid bs"
  by (induction bs) (simp_all add: utf8_valid.simps scalar_len_def)

lemma show_nat_ascii: "c \<in> set (show_nat n) \<Longrightarrow> (of_char c :: nat) < 128"
proof (induction n rule: show_nat.induct)
  case (1 n)
  then show ?case by (cases "n < 10") (auto simp: show_nat_digits [of n] of_char_digit)
qed

lemma write_nats_ascii: "b \<in> set (write_nats ns) \<Longrightarrow> b < 0x80"
proof -
  assume "b \<in> set (write_nats ns)"
  then obtain c where b: "b = of_nat (of_char c)" and "c \<in> set (concat (map (\<lambda>n. show_nat n @ '','') ns))"
    unfolding write_nats_def ascii_def set_map by blast
  then have c: "c = CHR '','' \<or> (\<exists>n\<in>set ns. c \<in> set (show_nat n))" by (auto split: if_splits)
  have c: "(of_char c :: nat) < 128" using c show_nat_ascii by auto
  then have "unat b = of_char c" unfolding b by (intro unat_of_nat_len) simp
  with c show ?thesis by (simp add: word_less_nat_alt)
qed

lemma demo_serde_ok: "serde_ok demo_serde"
  by (simp add: serde_ok_def demo_serde_def write_nats_concat get_put_state utf8_ascii write_nats_ascii)

section \<open>Witnesses\<close>

text \<open>Any order will do; here a set is listed from its least element.\<close>

definition demo_ids :: "u32 set \<Rightarrow> u32 list" where "demo_ids = sorted_list_of_set"

lemma demo_ids_set: "set (demo_ids A) = A"
  by (simp add: demo_ids_def)

lemma length_show_nat: "length (show_nat n) \<le> n + 1"
proof (induction n rule: show_nat.induct)
  case (1 n)
  show ?case
  proof (cases "n < 10")
    case False
    then have "n div 10 + 1 \<le> n" by linarith
    with 1 [OF False] False show ?thesis by (subst show_nat_digits) simp
  qed (simp add: show_nat_digits)
qed

lemma length_write_nats: "length (write_nats ns) \<le> sum_list (map (\<lambda>n. n + 2) ns)"
proof (induction ns)
  case (Cons n ns)
  with length_show_nat [of n] show ?case by (simp add: write_nats_def ascii_def)
qed (simp add: write_nats_def ascii_def)

lemma small_saved:
  assumes "resume_validate ref_rq st = Inr ()" "sum_list (map (\<lambda>n. n + 2) (put_state (ser_of demo_ids st))) \<le> 10000"
  obtains t where "resume_to_json ref_rq demo_serde demo_ids (\<lambda>_ _. True) st = Inr t"
proof -
  let ?x = "ser_of demo_ids st"
  have c: "concat (sj_writes demo_serde ?x) = write_nats (put_state ?x)" by (simp add: demo_serde_def write_nats_concat)
  have l: "length ([] :: bytes) + length (concat (sj_writes demo_serde ?x)) \<le> MAX_RESUME_JSON_BYTES"
    unfolding c using assms(2) length_write_nats [of "put_state ?x"] by (simp add: MAX_RESUME_JSON_BYTES_def)
  have "write_chunks (\<lambda>_ _. True) [] (sj_writes demo_serde ?x) = Inr (concat (sj_writes demo_serde ?x))"
    using write_chunks_fits [of "\<lambda>_ _. True", OF TrueI l] by simp
  moreover have "utf8_valid (concat (sj_writes demo_serde ?x))" using demo_serde_ok unfolding serde_ok_def by blast
  ultimately have "resume_to_json ref_rq demo_serde demo_ids (\<lambda>_ _. True) st = Inr (concat (sj_writes demo_serde ?x))"
    unfolding resume_to_json_def assms(1) Let_def by simp
  then show thesis by (rule that)
qed

lemmas put_defs = put_state_def put_list_def put_word_def put_block_def put_symbol_def demo_ids_def

lemma demo_saved:
  obtains t where "resume_to_json ref_rq demo_serde demo_ids (\<lambda>_ _. True) demo_state = Inr t"
proof (rule small_saved)
  show "resume_validate ref_rq demo_state = Inr ()"
    using demo_resume_ok by (simp add: resume_validate_iff demo_state_def)
  show "sum_list (map (\<lambda>n. n + 2) (put_state (ser_of demo_ids demo_state))) \<le> 10000"
    by (simp add: put_defs demo_state_def demo_meta_def demo_packet_def map_replicate_const sum_list_replicate)
qed

lemma resume_text_roundtrip_witness:
  "\<exists>t. resume_to_json ref_rq demo_serde demo_ids (\<lambda>_ _. True) demo_state = Inr t \<and>
     resume_from_json ref_rq demo_serde t = Inr demo_state"
proof -
  obtain t where t: "resume_to_json ref_rq demo_serde demo_ids (\<lambda>_ _. True) demo_state = Inr t" by (rule demo_saved)
  with resume_text_roundtrip [OF demo_serde_ok demo_ids_set TrueI, of ref_rq demo_state] show ?thesis by simp
qed

lemma resume_text_safe_witness:
  "\<exists>t s. resume_from_json ref_rq demo_serde t = Inr demo_state \<and> restore ref_rq demo_state = Inr s \<and>
     rx_reach ref_rq (\<lambda>c. c) s"
proof -
  obtain t where t: "resume_to_json ref_rq demo_serde demo_ids (\<lambda>_ _. True) demo_state = Inr t" by (rule demo_saved)
  have "resume_from_json ref_rq demo_serde t = Inr demo_state" by (rule resume_reads_back [OF demo_serde_ok demo_ids_set t])
  moreover have "length (re_symbols demo_state) < 2 ^ 64" by (simp add: demo_state_def)
  ultimately show ?thesis using resume_text_safe [of ref_rq demo_serde t demo_state "\<lambda>c. c"] by blast
qed

lemma checkpoint_text_restarts_witness:
  "\<exists>s st t s2. rx_reach ref_rq (\<lambda>c. c) s \<and> save_state (\<lambda>c. c) s = Some st \<and>
     resume_to_json ref_rq demo_serde demo_ids (\<lambda>_ _. True) st = Inr t \<and>
     bind_result (map_err (\<lambda>_. ()) (resume_from_json ref_rq demo_serde t)) (\<lambda>st2. map_err (\<lambda>_. ()) (restore ref_rq st2)) = Inr s2 \<and>
     rx_meta s2 = Some demo_meta"
proof -
  obtain s where s: "restore ref_rq demo_state = Inr s" "rx_inv ref_rq [demo_symbol] s" "rx_meta s = Some demo_meta"
    "rx_session_id s = 7" by (rule demo_restored)
  have "length (re_symbols demo_state) < 2 ^ 64" by (simp add: demo_state_def)
  then have r: "rx_reach ref_rq (\<lambda>c. c) s" using s(1) by (rule reach_restored)
  let ?st = "\<lparr>re_session_id = 7, re_meta = demo_meta, re_received = [{}], re_symbols = []\<rparr>"
  have st: "save_state (\<lambda>c. c) s = Some ?st"
    using save_state_confirmed [OF s(2,3) refl] s(4) by (simp add: demo_meta_def)
  obtain t where t: "resume_to_json ref_rq demo_serde demo_ids (\<lambda>_ _. True) ?st = Inr t"
  proof (rule small_saved)
    have "resume_ok ref_rq ?st" using demo_meta_ok by (simp add: resume_ok_def stored_bytes_def) (simp add: demo_meta_def)
    then show "resume_validate ref_rq ?st = Inr ()" by (simp add: resume_validate_iff)
    show "sum_list (map (\<lambda>n. n + 2) (put_state (ser_of demo_ids ?st))) \<le> 10000"
      by (simp add: put_defs demo_meta_def)
  qed
  from checkpoint_text_restarts [OF demo_serde_ok demo_ids_set r refl s(3) st t] r st t show ?thesis by blast
qed

end
