(* ===== verification/Resumed_Demo.thy ===== *)
theory Resumed_Demo
  imports Resumed Resume_Demo
begin

text \<open>
  The three-byte session of \<open>Sender_Demo\<close> interrupted after its descriptor, checkpointed in the text form of
  \<open>Resume_Demo\<close> and resumed: the witnesses of the properties of \<open>Resumed\<close>.
\<close>

lemma demo_checkpoint:
  assumes d: "sent_frame ref_rq (\<lambda>_. 5) demo_sender d" "\<not> is_data d"
  obtains st t where "save_state (\<lambda>c. c) (ingest_all ref_rq (\<lambda>c. c) (new_pending 7) [d]) = Some st"
    "resume_to_json ref_rq demo_serde demo_ids (\<lambda>_ _. True) st = Inr t"
proof -
  note N = sender_new_inv [OF ref_upstream demo_sender_new sent_len]
  have static: "sender_static ref_rq (pad_to_symbols [1, 2, 3] (sc_codec sent_config)) demo_sender"
    using N(1) by (simp add: sender_inv_def)
  have meta: "sn_meta demo_sender = demo_desc_meta" by (simp add: demo_sender_def)
  let ?rx = "ingest_all ref_rq (\<lambda>c. c) (new_pending 7) [d]"
  from after_descriptor [OF ref_upstream static N(2) sent_len demo_announce refl
      watching_follows [OF watching_pending [OF N(3) [symmetric]]] d]
  obtain ss where w: "watching ref_rq demo_sender ss ?rx" "rx_meta ?rx \<noteq> None" by auto
  then have r: "rx_inv ref_rq ss ?rx" "rx_meta ?rx = Some demo_desc_meta" "rx_session_id ?rx = 7"
    using N(3) by (auto simp: watching_def follows_def meta)
  let ?st = "\<lparr>re_session_id = 7, re_meta = demo_desc_meta, re_received = [{}], re_symbols = []\<rparr>"
  have st: "save_state (\<lambda>c. c) ?rx = Some ?st"
    using save_state_confirmed [OF r(1,2) refl] r(3) by (simp add: demo_desc_meta_def)
  obtain t where "resume_to_json ref_rq demo_serde demo_ids (\<lambda>_ _. True) ?st = Inr t"
  proof (rule small_saved)
    have "resume_ok ref_rq ?st" using sent_meta_ok by (simp add: resume_ok_def stored_bytes_def) (simp add: demo_desc_meta_def)
    then show "resume_validate ref_rq ?st = Inr ()" by (simp add: resume_validate_iff)
    show "sum_list (map (\<lambda>n. n + 2) (put_state (ser_of demo_ids ?st))) \<le> 10000"
      by (simp add: put_defs demo_desc_meta_def)
  qed
  with st show thesis by (rule that)
qed

lemma demo_trusted: "sent_frame ref_rq (\<lambda>_. 5) demo_sender g \<Longrightarrow> trusted ref_rq (\<lambda>_. 5) demo_sender g"
  by (simp add: trusted_def sent_frame_def)

lemma resumed_never_wrong_witness:
  "\<exists>d f t rx0. \<not> is_data d \<and> is_data f \<and> reopen ref_rq demo_serde t = Inr rx0 \<and>
     assemble_raw (ingest_all ref_rq (\<lambda>c. c) rx0 [f]) \<in> {None, Some sent_packet}"
proof -
  obtain d f s' where d: "sent_frame ref_rq (\<lambda>_. 5) demo_sender d" "\<not> is_data d"
    and f: "sent_frame ref_rq (\<lambda>_. 5) demo_sender f" "is_data f" by (rule demo_frames)
  obtain st t where st: "save_state (\<lambda>c. c) (ingest_all ref_rq (\<lambda>c. c) (new_pending 7) [d]) = Some st"
    "resume_to_json ref_rq demo_serde demo_ids (\<lambda>_ _. True) st = Inr t" by (rule demo_checkpoint [OF d])
  have tr: "trusted ref_rq (\<lambda>_. 5) demo_sender g" if "g \<in> set [d]" for g using that d demo_trusted by simp
  have tr': "trusted ref_rq (\<lambda>_. 5) demo_sender g" if "g \<in> set [f]" for g using that f demo_trusted by simp
  have "pad_to_symbols [1, 2, 3] (sc_codec sent_config) = sent_packet" by (simp add: sent_config_def sent_padded)
  with resumed_never_wrong [OF ref_upstream demo_sender_new sent_len demo_announce demo_size(1) refl demo_serde_ok
      demo_ids_set tr tr' st] d f show ?thesis unfolding Let_def by metis
qed

text \<open>The descriptor may come after the data.\<close>

lemma resumed_completes_witness:
  "\<exists>d f t rx0 rx. \<not> is_data d \<and> is_data f \<and> reopen ref_rq demo_serde t = Inr rx0 \<and>
     assemble_result demo_codecs (ingest_all ref_rq (\<lambda>c. c) rx0 [f, d]) = (rx, Inr (Some [1, 2, 3]))"
proof -
  obtain d f s' where d: "sent_frame ref_rq (\<lambda>_. 5) demo_sender d" "\<not> is_data d"
    and f: "sent_frame ref_rq (\<lambda>_. 5) demo_sender f" "is_data f" "data_id f = (0, 0)" by (rule demo_frames)
  obtain st t where st: "save_state (\<lambda>c. c) (ingest_all ref_rq (\<lambda>c. c) (new_pending 7) [d]) = Some st"
    "resume_to_json ref_rq demo_serde demo_ids (\<lambda>_ _. True) st = Inr t" by (rule demo_checkpoint [OF d])
  have tr: "trusted ref_rq (\<lambda>_. 5) demo_sender g" if "g \<in> set [d]" for g using that d demo_trusted by simp
  have tr': "trusted ref_rq (\<lambda>_. 5) demo_sender g" if "g \<in> set [f, d]" for g using that d f demo_trusted by auto
  have "set [f] \<subseteq> set [f, d]" "\<And>g. g \<in> set [f] \<Longrightarrow> sent_frame ref_rq (\<lambda>_. 5) demo_sender g" using f by auto
  note R = resumed_completes [OF ref_upstream demo_sender_new sent_len demo_announce demo_size(1) refl demo_serde_ok
      demo_ids_set tr tr' st this demo_covers [OF f(2,3)], where cx = demo_codecs]
  moreover have "\<exists>g \<in> set [f, d]. own_descriptor demo_sender g" using d by (auto simp: own_descriptor_def sent_frame_def)
  ultimately show ?thesis using demo_size(2) d f unfolding Let_def by blast
qed

end
