(* ===== verification/Spec2Isabelle.thy ===== *)
theory Spec2Isabelle
  imports Reference_Codec Ingest_Status Qr_Render Segment Sender_Demo End_To_End_Demo Cffi_Demo Browser_Demo Stream_Demo Progress_Demo Resumed_Demo
begin

text \<open>
  AirFerry moves a file between two offline devices: the sender shows QR codes on its screen, the
  receiver reads them with a camera.  There is no back channel, frames are lost, repeated and
  damaged, and anybody may show codes to the camera.  This development models the Rust core of the
  program, the crates \<open>core/raptorq-core\<close>, \<open>core/qr-protocol\<close> and \<open>core/transfer-engine\<close>, and proves that
  the pieces and their composition do what the transfer needs: what arrives is what was sent, or
  nothing.

  \<^bold>\<open>Parts of the program and their theories.\<close>

  \<^item> \<open>Prelude\<close>: Rust's integers as words of their width, checked and saturating arithmetic,
    big- and little-endian encodings, byte slices.  \<open>Utf8\<close>: well-formed strings and lossy decoding.
  \<^item> \<open>Raptorq_Lib\<close>, \<open>Object_Meta\<close>, \<open>Raptor_Codec\<close> (\<open>core/raptorq-core\<close>): the codec
    configuration, the object metadata with the gate \<open>ObjectMeta::validate\<close>, and the
    encoder and decoder around the upstream fountain code.
  \<^item> \<open>Frame\<close>, \<open>Session_Id\<close>, \<open>Chunker\<close>, \<open>Compress\<close>, \<open>Qr_Render\<close> (\<open>core/qr-protocol\<close>): the wire frame,
    session identifiers, symbol padding, capped decompression, the choice of a QR version.  \<open>Fast_Qr\<close>: which
    data the vendored QR generator takes at a version.
  \<^item> \<open>Segment\<close>, \<open>Descriptor\<close>, \<open>Progress\<close>, \<open>Ingest_Status\<close>, \<open>Sender\<close>, \<open>Resume\<close>, \<open>Receiver\<close>, \<open>Assembler\<close>
    (\<open>core/transfer-engine\<close>): segments of large files, the descriptor frame that carries all
    metadata, counters, the sender session, checkpoints, the receiver session, and the
    assembler that puts the segments of a large transfer together.
  \<^item> \<open>Receiver_Inv\<close>, \<open>Receiver_Runs\<close>, \<open>Receiver_Props\<close>, \<open>Receiver_Assembly\<close>: the invariant of
    a receiver session, its reachable states and its promises.
  \<^item> \<open>Floats\<close>, \<open>Rates\<close>: double-precision products and quotients as correctly rounded rationals; the rates and
    ratios of \<open>progress.rs\<close> and the clock of \<open>time.rs\<close>.  \<open>Resume_Text\<close>: the text form of checkpoints.
  \<^item> \<open>Sender_Exhaust\<close>: where the 24-bit symbol ids of a session end.
  \<^item> \<open>End_To_End\<close>: a sender and a receiver together, over a channel that loses, repeats, reorders
    and mixes frames.  \<open>Resumed\<close>: the same across a restart of the receiver, through a checkpoint text.
  \<^item> \<open>Native_Sender\<close>, \<open>Cffi\<close>, \<open>Cffi_Props\<close> (\<open>cffi.rs\<close>): the native sender that switches between the segments of
    a large file, and the C interface over handles and buffers.  \<open>Large_Transfer\<close>: a native sender, one receiver
    for each segment and the assembler together.  \<open>Large_Channel\<close>: the same with any receivers that see any frames.
  \<^item> \<open>Browser\<close>, \<open>Browser_Codes\<close>, \<open>Browser_Props\<close> (\<open>wasm.rs\<close>): the browser's senders and receivers, and the layout of
    the buffers of rendered codes.  \<open>Jni\<close> (\<open>jni.rs\<close>): the Android interface.  \<open>Progress_Text\<close>: the texts of the
    three hosts.
  \<^item> \<open>Hosts\<close>, \<open>Host_Contract\<close>, \<open>Host_Progress\<close>: what the hosts promise together, with the contract of a receiving
    host as the locale \<open>receiver_host\<close>, interpreted on all three.  \<open>Host_Stream\<close>: the contract of a sending host,
    the locale \<open>sending_host\<close>, interpreted on the C interface and the browser, and its extension \<open>host_pair\<close>
    with a receiving host in front of it.
  \<^item> \<open>Reference_Codec\<close>: a concrete systematic codec that meets the contracts put on the upstream crate.
    \<open>Sender_Demo\<close>, \<open>End_To_End_Demo\<close>, \<open>Large_Demo\<close>, \<open>Cffi_Demo\<close>, \<open>Browser_Demo\<close>, \<open>Host_Demo\<close>,
    \<open>Stream_Demo\<close>, \<open>Progress_Demo\<close>, \<open>Resume_Demo\<close>, \<open>Resumed_Demo\<close>: the witnesses that run the model on it.

  \<^bold>\<open>How the code is modelled.\<close>  A Rust struct is a record, an enum a datatype, \<open>Result\<close> a sum with the
  error on the left, and an integer a word of its width.  Arithmetic is that of the release
  profile: unchecked operations wrap, \<open>checked_\<close> and \<open>saturating_\<close> ones are written out;
  \<open>usize\<close> has 64 bits.  A method that mutates its receiver takes the state and returns it, with the
  mutations made before an early return kept.  A \<open>HashMap\<close> that is iterated is a list
  of entries with an iteration order \<open>ord\<close> as a parameter, of which only
  \<open>mset (ord xs) = mset xs\<close> is assumed.  Clock readings are arguments.  A handle of a host interface is
  \<open>Some\<close> state or \<open>None\<close> for null, and a caller's buffer is its contents, returned as the call leaves it.

  What is not in the repository is a parameter with its contract as a named hypothesis: the upstream
  \<open>raptorq\<close> crate (record \<open>raptorq\<close>; \<open>upstream_ok\<close> says that the blocks of an object are its consecutive
  stretches, zero-padded at the end, that a block has one packet of the symbol size for each of its symbols
  and further repair packets of that size within the 24-bit ids, and that decoding genuine packets of a block yields
  the bytes of the block or nothing yet), the zstd, xz, crc32 and sha2 crates (records \<open>codecs\<close> and \<open>sha2\<close>), the
  file system (\<open>file_io\<close>), \<open>serde_json\<close> (record \<open>serde_json\<close>; \<open>serde_ok\<close> says that it writes UTF-8 and reads back
  what it wrote) and what a Java environment refuses (\<open>jni_env\<close>).  Nothing is assumed of how a block's bytes are spread
  over its packets: objects above some 10 MiB have several sub-blocks, whose sub-symbols RFC 6330 interleaves,
  and a packet is then no contiguous piece of the object.  The contracts are satisfied by the
  reference codec, which interleaves sub-blocks as the RFC says, and by the demonstration theories: the witnesses of the
  codec and of large transfers send full segments in four sub-blocks.

  The QR generator \<open>fast_qr\<close> is third-party code kept in the repository (\<open>core/qr-protocol/vendor\<close>).  The renderer
  calls it as a parameter \<open>build\<close>.  What the renderer relies on, which data fit a version, is modelled from the vendored
  source (\<open>Fast_Qr\<close>, \<open>fast_qr_build\<close>); the drawing of the modules is a parameter \<open>draw\<close> of that.

  \<^bold>\<open>What the lemmas show.\<close>

  \<^item> Codec: metadata of every encoder passes the receiver's gate, the gate is equivalent to a
    specification over natural numbers, any multiset of genuine symbols assembles to the object or
    to nothing, and all source symbols together suffice.
  \<^item> Wire formats: frames and descriptors parse back, parsers accept exactly what the
    writers produce, and each rejected input names its first failing check.
  \<^item> Sender: the schedule of descriptors, source and repair symbols is exact; no symbol repeats;
    every session ends, at a call that is computed.
  \<^item> Receiver: \<open>rx_inv\<close> relates a session to the log of symbols it fed to the decoder and
    is kept by every frame, so that sessions never fail on hostile input, adopt one descriptor for
    good, stop changing when complete, and report exact counters in bounded memory.
  \<^item> Segments and assembler: accepted segments tile the stream; the assembler refines a map
    from indices to verified segments (locale \<open>slot_table\<close>) and reassembles exactly the stream.
  \<^item> End to end: \<open>watching\<close> relates a receiver to the sender it listens to; whatever the channel does,
    an assembly that succeeds yields what was sent, and enough frames make it succeed; a file of
    several segments arrives whole, and never comes out wrong.  \<open>follows\<close> is the part of it that a session restored from a checkpoint
    keeps: such a session recovers the same object, and knows the file again from the next descriptor on.
  \<^item> Hosts: every sending host shows the same bytes, and every receiving host recovers the payload from them; the buffers of codes read back
    and agree; the bounded numbers survive Java's signed types and the others wrap around where it is said; the stream call of the C interface
    leaves a verified file or, as far as it can, none; status words, progress texts and
    ratios tell the truth about the session; checkpoint texts read back.

  \<^bold>\<open>Bounds.\<close>  A session schedules at least 16720813 frames before the 24-bit symbol ids can run out
  (2 to the 24 minus the largest block of 56403 symbols, minus one), the bound of the schedule
  theorem; \<open>session_limit\<close> is the exact number of ids, and fewer than five thousand million calls are
  answered.  Objects are at most 32 MiB after padding (\<open>MAX_OBJECT_BYTES\<close>), payloads of frames shorter
  than 2 to the 32.  Doubles are rationals rounded to 53 bits; the operands that occur stay between 2 to the -130
  and 2 to the 130, so there are no infinities.  No definition uses fuel: every loop of the modelled code is a structural
  recursion over the data it consumes.

  \<^bold>\<open>Not modelled.\<close>  Memory given back by the host interfaces (\<open>destroy\<close>, \<open>buffer_free\<close>), logging and the panic
  hook, which no result depends on; the rendering of \<open>stats_json\<close> and of checkpoints, which is
  \<open>serde_json\<close>'s; the drawing part of the vendored QR generator, the Swift application, tests and scripts.
\<close>

end
